(* ===== verification/Prelude.thy ===== *)
theory Prelude
  imports Main "HOL-Library.Word" "HOL-Library.Monad_Syntax"
begin

text \<open>
  What every component of the scproxy model shares.

  \<^item> Machine integers are words of the width the Rust code declares; a byte string is a
    list of \<open>u8\<close>. Both supported targets (x86-64 and aarch64) are little endian, so the
    \<open>ne\<close> (native endian) conversions of the code are the little endian ones here.
  \<^item> A Rust \<open>str\<close> is its UTF-8 encoding, a \<open>string\<close> of 8-bit characters, so that
    \<open>length\<close> is what \<open>str::len\<close> counts.
  \<^item> \<open>Result\<close> is the datatype \<open>result\<close>, the \<open>?\<close> operator is \<open>and_then\<close>,
    and an \<open>io::Error\<close> is an errno or a kind.
  \<^item> \<open>named_theorems\<close> collections carry the unfolding facts from one component to the
    next.
\<close>

unbundle bit_operations_syntax

section \<open>Machine types\<close>

type_synonym u8 = "8 word"
type_synonym u16 = "16 word"
type_synonym u32 = "32 word"
type_synonym u64 = "64 word"
type_synonym bytes = "u8 list"

named_theorems wire_simps "equations of the byte level encoders and decoders"
named_theorems handler_defs "definitions of the handlers, unfolded branch by branch"
named_theorems str_simps "equations of the string operations"

lemma word_eq_iff_bits:
  "(v :: 'a::len word) = w \<longleftrightarrow> (\<forall>n < LENGTH('a). bit v n = bit w n)"
  by (auto intro: bit_word_eqI)

lemma unat_of_nat_small: "n < 2 ^ LENGTH('a) \<Longrightarrow> unat (of_nat n :: 'a::len word) = n"
  by (simp add: unat_of_nat)

section \<open>Results and errors\<close>

datatype ('a, 'e) result = Ok 'a | Err 'e

fun and_then :: "('a, 'e) result \<Rightarrow> ('a \<Rightarrow> ('b, 'e) result) \<Rightarrow> ('b, 'e) result" where
  "and_then (Ok a) f = f a"
| "and_then (Err e) f = Err e"

fun map_err :: "('e \<Rightarrow> 'f) \<Rightarrow> ('a, 'e) result \<Rightarrow> ('a, 'f) result" where
  "map_err f (Ok a) = Ok a"
| "map_err f (Err e) = Err (f e)"

fun is_ok :: "('a, 'e) result \<Rightarrow> bool" where
  "is_ok (Ok a) = True"
| "is_ok (Err e) = False"

fun ok_or :: "'a option \<Rightarrow> 'e \<Rightarrow> ('a, 'e) result" where
  "ok_or (Some a) e = Ok a"
| "ok_or None e = Err e"

lemma and_then_cong [fundef_cong]:
  "m = m' \<Longrightarrow> (\<And>a. m' = Ok a \<Longrightarrow> f a = f' a) \<Longrightarrow> and_then m f = and_then m' f'"
  by (cases m') simp_all

lemma and_then_Ok_iff: "and_then m f = Ok b \<longleftrightarrow> (\<exists>a. m = Ok a \<and> f a = Ok b)"
  by (cases m) simp_all

lemma and_then_Err_iff:
  "and_then m f = Err e \<longleftrightarrow> m = Err e \<or> (\<exists>a. m = Ok a \<and> f a = Err e)"
  by (cases m) simp_all

lemma ok_or_Ok_iff [simp]: "ok_or x e = Ok a \<longleftrightarrow> x = Some a"
  by (cases x) simp_all

lemma ok_or_Err_iff [simp]: "ok_or x e = Err d \<longleftrightarrow> x = None \<and> d = e"
  by (cases x) auto

lemma is_ok_iff: "is_ok r \<longleftrightarrow> (\<exists>a. r = Ok a)"
  by (cases r) simp_all

text \<open>The values of the successful results of a list.\<close>

fun ok_values :: "('a, 'e) result list \<Rightarrow> 'a list" where
  "ok_values [] = []"
| "ok_values (Ok a # rs) = a # ok_values rs"
| "ok_values (Err e # rs) = ok_values rs"

lemma ok_values_append [simp]: "ok_values (rs @ qs) = ok_values rs @ ok_values qs"
  by (induction rs rule: ok_values.induct) simp_all

section \<open>Tables kept in both directions\<close>

text \<open>
  The contract of a state that keeps a table and its inverse. The pool of fake addresses and
  the table of virtual DNS servers are two such states.
\<close>

locale two_way_map =
  fixes inv :: "'s \<Rightarrow> bool"
    and fwd :: "'s \<Rightarrow> 'k \<rightharpoonup> 'v"
    and bwd :: "'s \<Rightarrow> 'v \<rightharpoonup> 'k"
  assumes inverse: "inv s \<Longrightarrow> fwd s k = Some v \<longleftrightarrow> bwd s v = Some k"
begin

lemma fwd_unique: "inv s \<Longrightarrow> fwd s k = Some v \<Longrightarrow> fwd s k' = Some v \<Longrightarrow> k = k'"
  by (simp add: inverse)

lemma bwd_unique: "inv s \<Longrightarrow> bwd s v = Some k \<Longrightarrow> bwd s v' = Some k \<Longrightarrow> v = v'"
  by (simp add: inverse [symmetric])

lemma ran_fwd: "inv s \<Longrightarrow> ran (fwd s) = dom (bwd s)"
  by (auto simp: ran_def dom_def inverse)

end

section \<open>Machines that react to events\<close>

text \<open>
  The contract of a state machine and an invariant of it. The thread that receives notifications
  and the handle of the running broker are two such machines.
\<close>

locale event_machine =
  fixes step :: "'e \<Rightarrow> 's \<Rightarrow> 's"
    and inv :: "'s \<Rightarrow> bool"
  assumes step_inv: "inv s \<Longrightarrow> inv (step e s)"
begin

lemma run_inv: "inv s \<Longrightarrow> inv (fold step es s)"
  by (induction es arbitrary: s) (simp_all add: step_inv)

end

section \<open>Errors of the operating system\<close>

text \<open>
  The errno values the code names, as Linux defines them on both targets, and the part of
  \<open>io::ErrorKind\<close> the code tests.
\<close>

abbreviation ENOENT :: int where "ENOENT \<equiv> 2"
abbreviation ESRCH :: int where "ESRCH \<equiv> 3"
abbreviation EINTR :: int where "EINTR \<equiv> 4"
abbreviation EIO :: int where "EIO \<equiv> 5"
abbreviation E2BIG :: int where "E2BIG \<equiv> 7"
abbreviation EBADF :: int where "EBADF \<equiv> 9"
abbreviation ECHILD :: int where "ECHILD \<equiv> 10"
abbreviation EAGAIN :: int where "EAGAIN \<equiv> 11"
abbreviation ENOMEM :: int where "ENOMEM \<equiv> 12"
abbreviation EACCES :: int where "EACCES \<equiv> 13"
abbreviation EFAULT :: int where "EFAULT \<equiv> 14"
abbreviation EEXIST :: int where "EEXIST \<equiv> 17"
abbreviation ENOTDIR :: int where "ENOTDIR \<equiv> 20"
abbreviation EINVAL :: int where "EINVAL \<equiv> 22"
abbreviation ENFILE :: int where "ENFILE \<equiv> 23"
abbreviation EMFILE :: int where "EMFILE \<equiv> 24"
abbreviation ENAMETOOLONG :: int where "ENAMETOOLONG \<equiv> 36"
abbreviation ENOSYS :: int where "ENOSYS \<equiv> 38"
abbreviation ELOOP :: int where "ELOOP \<equiv> 40"
abbreviation EDESTADDRREQ :: int where "EDESTADDRREQ \<equiv> 89"
abbreviation EMSGSIZE :: int where "EMSGSIZE \<equiv> 90"
abbreviation EPROTONOSUPPORT :: int where "EPROTONOSUPPORT \<equiv> 93"
abbreviation EOPNOTSUPP :: int where "EOPNOTSUPP \<equiv> 95"
abbreviation EAFNOSUPPORT :: int where "EAFNOSUPPORT \<equiv> 97"
abbreviation EADDRNOTAVAIL :: int where "EADDRNOTAVAIL \<equiv> 99"
abbreviation ENETUNREACH :: int where "ENETUNREACH \<equiv> 101"
abbreviation ECONNABORTED :: int where "ECONNABORTED \<equiv> 103"
abbreviation ECONNRESET :: int where "ECONNRESET \<equiv> 104"
abbreviation ENOBUFS :: int where "ENOBUFS \<equiv> 105"
abbreviation ENOTCONN :: int where "ENOTCONN \<equiv> 107"
abbreviation ETIMEDOUT :: int where "ETIMEDOUT \<equiv> 110"
abbreviation ECONNREFUSED :: int where "ECONNREFUSED \<equiv> 111"
abbreviation EHOSTUNREACH :: int where "EHOSTUNREACH \<equiv> 113"
abbreviation EINPROGRESS :: int where "EINPROGRESS \<equiv> 115"

datatype error_kind =
    NotFound | WouldBlock | Interrupted | ConnectionAborted | ConnectionReset | TimedOut
  | UnexpectedEof | InvalidData | InvalidInput | WriteZero | Unsupported | OtherKind

datatype io_error = Os int | Custom error_kind

fun raw_os_error :: "io_error \<Rightarrow> int option" where
  "raw_os_error (Os e) = Some e"
| "raw_os_error (Custom k) = None"

fun kind :: "io_error \<Rightarrow> error_kind" where
  "kind (Custom k) = k"
| "kind (Os e) =
     (if e = ENOENT then NotFound
      else if e = EAGAIN then WouldBlock
      else if e = EINTR then Interrupted
      else if e = ECONNABORTED then ConnectionAborted
      else if e = ECONNRESET then ConnectionReset
      else if e = ETIMEDOUT then TimedOut
      else if e = EINVAL then InvalidInput
      else OtherKind)"

type_synonym 'a io_result = "('a, io_error) result"

end
