(* ===== verification/Wire.thy ===== *)
theory Wire
  imports Prelude
begin

text \<open>
  Integers on the wire and in memory: \<open>to_ne_bytes\<close>, \<open>from_ne_bytes\<close>,
  \<open>to_be_bytes\<close> and \<open>from_be_bytes\<close> of the Rust integer types, for every word whose
  width is a multiple of eight, with their round trips.
\<close>

section \<open>Conversions\<close>

definition to_ne_bytes :: "'a::len word \<Rightarrow> bytes" where
  "to_ne_bytes w = map (\<lambda>i. ucast (drop_bit (8 * i) w)) [0..<LENGTH('a) div 8]"

fun from_ne_bytes :: "bytes \<Rightarrow> 'a::len word" where
  "from_ne_bytes [] = 0"
| "from_ne_bytes (b # bs) = (ucast b OR push_bit 8 (from_ne_bytes bs))"

definition to_be_bytes :: "'a::len word \<Rightarrow> bytes" where
  "to_be_bytes w = rev (to_ne_bytes w)"

definition from_be_bytes :: "bytes \<Rightarrow> 'a::len word" where
  "from_be_bytes bs = from_ne_bytes (rev bs)"

section \<open>Round trips\<close>

lemma length_to_ne_bytes [simp]: "length (to_ne_bytes (w :: 'a::len word)) = LENGTH('a) div 8"
  by (simp add: to_ne_bytes_def)

lemma length_to_be_bytes [simp]: "length (to_be_bytes (w :: 'a::len word)) = LENGTH('a) div 8"
  by (simp add: to_be_bytes_def)

lemma nth_to_ne_bytes [simp]:
  "i < LENGTH('a) div 8 \<Longrightarrow> to_ne_bytes (w :: 'a::len word) ! i = ucast (drop_bit (8 * i) w)"
  by (simp add: to_ne_bytes_def)

lemma bit_from_ne_bytes:
  "bit (from_ne_bytes bs :: 'a::len word) n \<longleftrightarrow>
     n < LENGTH('a) \<and> n div 8 < length bs \<and> bit (bs ! (n div 8)) (n mod 8)"
proof (induction bs arbitrary: n)
  case Nil
  then show ?case by simp
next
  case (Cons b bs)
  show ?case
  proof (cases "n < 8")
    case True
    then show ?thesis by (auto simp: bit_simps)
  next
    case False
    then obtain m where m: "n = m + 8" by (metis add.commute le_Suc_ex not_less)
    have high: "\<not> bit b n" using False by (auto dest: bit_imp_le_length)
    from m have "n div 8 = Suc (m div 8)" "n mod 8 = m mod 8" by simp_all
    with False m high Cons.IH [of m] show ?thesis by (auto simp: bit_simps)
  qed
qed

lemma from_to_ne_bytes [simp]:
  assumes "8 dvd LENGTH('a)"
  shows "from_ne_bytes (to_ne_bytes (w :: 'a::len word)) = w"
proof (rule bit_word_eqI)
  fix n assume n: "n < LENGTH('a)"
  with assms have "n div 8 < LENGTH('a) div 8" by (auto elim!: dvdE)
  with n show "bit (from_ne_bytes (to_ne_bytes w) :: 'a word) n = bit w n"
    by (simp add: bit_from_ne_bytes bit_simps)
qed

lemma to_from_ne_bytes [simp]:
  assumes "length bs = LENGTH('a) div 8"
  shows "to_ne_bytes (from_ne_bytes bs :: 'a::len word) = bs"
proof (rule nth_equalityI)
  show "length (to_ne_bytes (from_ne_bytes bs :: 'a word)) = length bs"
    using assms by simp
  fix i assume "i < length (to_ne_bytes (from_ne_bytes bs :: 'a word))"
  then have i: "i < LENGTH('a) div 8" by simp
  show "to_ne_bytes (from_ne_bytes bs :: 'a word) ! i = bs ! i"
  proof (rule bit_word_eqI)
    fix n assume "n < LENGTH(8)"
    then have n: "n < 8" by simp
    then have "8 * i + n < LENGTH('a)" using i by linarith
    with i n assms show "bit (to_ne_bytes (from_ne_bytes bs :: 'a word) ! i) n = bit (bs ! i) n"
      by (simp add: bit_simps bit_from_ne_bytes)
  qed
qed

lemma from_to_be_bytes [simp]:
  "8 dvd LENGTH('a) \<Longrightarrow> from_be_bytes (to_be_bytes (w :: 'a::len word)) = w"
  by (simp add: from_be_bytes_def to_be_bytes_def)

lemma to_from_be_bytes [simp]:
  "length bs = LENGTH('a) div 8 \<Longrightarrow> to_be_bytes (from_be_bytes bs :: 'a::len word) = bs"
  by (simp add: from_be_bytes_def to_be_bytes_def)

lemma to_be_bytes_inject [simp]:
  "8 dvd LENGTH('a) \<Longrightarrow> to_be_bytes (v :: 'a::len word) = to_be_bytes w \<longleftrightarrow> v = w"
  by (metis from_to_be_bytes)

lemma to_ne_bytes_inject [simp]:
  "8 dvd LENGTH('a) \<Longrightarrow> to_ne_bytes (v :: 'a::len word) = to_ne_bytes w \<longleftrightarrow> v = w"
  by (metis from_to_ne_bytes)

lemma to_be_bytes_u16: "to_be_bytes (w :: u16) = [ucast (drop_bit 8 w), ucast w]"
  by (simp add: to_be_bytes_def to_ne_bytes_def upt_rec)

lemma to_be_bytes_u32:
  "to_be_bytes (w :: u32) =
     [ucast (drop_bit 24 w), ucast (drop_bit 16 w), ucast (drop_bit 8 w), ucast w]"
  by (simp add: to_be_bytes_def to_ne_bytes_def upt_rec)

lemma from_be_bytes_u16 [simp]:
  "from_be_bytes [ucast (drop_bit 8 w), ucast w] = (w :: u16)"
  using from_to_be_bytes [of w] by (simp add: to_be_bytes_u16)

section \<open>Copying into a fixed slice\<close>

text \<open>\<open>buf[k..k + n].copy_from_slice(bs)\<close> with \<open>n = length bs\<close>.\<close>

definition copy_at :: "nat \<Rightarrow> 'a list \<Rightarrow> 'a list \<Rightarrow> 'a list" where
  "copy_at k bs buf = take k buf @ bs @ drop (k + length bs) buf"

lemma length_copy_at [simp]:
  "k + length bs \<le> length buf \<Longrightarrow> length (copy_at k bs buf) = length buf"
  by (simp add: copy_at_def)

lemma take_drop_copy_at:
  "k + length bs \<le> length buf \<Longrightarrow> take (length bs) (drop k (copy_at k bs buf)) = bs"
  by (simp add: copy_at_def)

end
