(* ===== verification/Net_Addr.thy ===== *)
theory Net_Addr
  imports Text
begin

text \<open>
  The address types of \<open>std::net\<close> as the code uses them: IPv4 addresses and IPv4
  socket addresses, their printing and the standard library's address parser (which
  decides which proxy URLs and which routing rules are accepted).
\<close>

section \<open>Addresses\<close>

type_synonym ipv4 = u32
type_synonym ipv6 = "128 word"

datatype ip_addr = V4 ipv4 | V6 ipv6

record sock_addr_v4 =
  sa_ip :: ipv4
  sa_port :: u16

abbreviation sock_addr :: "ipv4 \<Rightarrow> u16 \<Rightarrow> sock_addr_v4" where
  "sock_addr a p \<equiv> \<lparr>sa_ip = a, sa_port = p\<rparr>"

definition octets :: "ipv4 \<Rightarrow> bytes" where
  "octets a = to_be_bytes a"

definition ipv4_new :: "u8 \<Rightarrow> u8 \<Rightarrow> u8 \<Rightarrow> u8 \<Rightarrow> ipv4" where
  "ipv4_new a b c d = from_be_bytes [a, b, c, d]"

definition is_loopback :: "ipv4 \<Rightarrow> bool" where
  "is_loopback a \<longleftrightarrow> octets a ! 0 = 127"

definition is_unspecified :: "ipv4 \<Rightarrow> bool" where
  "is_unspecified a \<longleftrightarrow> octets a = [0, 0, 0, 0]"

definition LOCALHOST :: ipv4 where
  "LOCALHOST = ipv4_new 127 0 0 1"

definition show_u8 :: "u8 \<Rightarrow> string" where
  "show_u8 b = show_nat (unat b)"

definition show_ipv4 :: "ipv4 \<Rightarrow> string" where
  "show_ipv4 a = join_with (CHR ''.'') (map show_u8 (octets a))"

lemma length_octets [simp]: "length (octets a) = 4"
  by (simp add: octets_def)

lemma octets_from [simp]: "octets (from_be_bytes [a, b, c, d]) = [a, b, c, d]"
  by (simp add: octets_def)

lemma octets_new [simp]: "octets (ipv4_new a b c d) = [a, b, c, d]"
  by (simp add: ipv4_new_def)

lemma from_octets [simp]: "from_be_bytes (octets a) = a"
  by (simp add: octets_def)

lemma octets_inject [simp]: "octets a = octets b \<longleftrightarrow> a = b"
  by (simp add: octets_def)

text \<open>
  Printing an IPv6 address: eight groups in hexadecimal, the first longest run of two or more
  zero groups left out, and an IPv4-mapped address with its last part dotted.
\<close>

definition segments :: "ipv6 \<Rightarrow> u16 list" where
  "segments a = map (\<lambda>i. ucast (drop_bit (16 * (7 - i)) a)) [0..<8]"

definition hex_digit :: "nat \<Rightarrow> char" where
  "hex_digit d = (if d < 10 then char_of (48 + d) else char_of (87 + d))"

fun show_hex :: "nat \<Rightarrow> string" where
  "show_hex n = (if n < 16 then [hex_digit n] else show_hex (n div 16) @ [hex_digit (n mod 16)])"

declare show_hex.simps [simp del]

fun longest_zeros :: "nat \<Rightarrow> u16 list \<Rightarrow> nat \<times> nat \<Rightarrow> nat \<times> nat \<Rightarrow> nat \<times> nat" where
  "longest_zeros i [] longest current = longest"
| "longest_zeros i (s # ss) (ls, ll) (cs, cl) =
     (if s = 0
      then (let cur = (if cl = 0 then i else cs, cl + 1)
            in longest_zeros (i + 1) ss (if snd cur > ll then cur else (ls, ll)) cur)
      else longest_zeros (i + 1) ss (ls, ll) (0, 0))"

definition show_groups :: "u16 list \<Rightarrow> string" where
  "show_groups gs = join_with (CHR '':'') (map (\<lambda>g. show_hex (unat g)) gs)"

definition show_ipv6 :: "ipv6 \<Rightarrow> string" where
  "show_ipv6 a =
     (let gs = segments a
      in if take 6 gs = [0, 0, 0, 0, 0, 0xFFFF] then ''::ffff:'' @ show_ipv4 (ucast a)
         else (let (start, len) = longest_zeros 0 gs (0, 0) (0, 0)
               in if len > 1
                  then show_groups (take start gs) @ ''::'' @ show_groups (drop (start + len) gs)
                  else show_groups gs))"

fun show_ip_addr :: "ip_addr \<Rightarrow> string" where
  "show_ip_addr (V4 a) = show_ipv4 a"
| "show_ip_addr (V6 a) = show_ipv6 a"

section \<open>The address parser\<close>

text \<open>
  A reader takes the remaining input and gives a value and what is left, or fails and
  leaves the input where it was (\<open>read_atomically\<close>).
\<close>

type_synonym 'a reader = "string \<Rightarrow> ('a \<times> string) option"

definition to_digit_radix :: "nat \<Rightarrow> char \<Rightarrow> nat option" where
  "to_digit_radix r c =
     (let n = of_char c;
          v = (if 48 \<le> n \<and> n \<le> 57 then Some (n - 48)
               else if 97 \<le> n \<and> n \<le> 122 then Some (n - 87)
               else if 65 \<le> n \<and> n \<le> 90 then Some (n - 55)
               else None)
      in case v of Some d \<Rightarrow> if d < r then Some d else None | None \<Rightarrow> None)"

text \<open>The digits at the front of the input: value, count and the rest.\<close>

fun read_digits :: "nat \<Rightarrow> nat \<Rightarrow> nat \<Rightarrow> string \<Rightarrow> nat \<times> nat \<times> string" where
  "read_digits r acc n [] = (acc, n, [])"
| "read_digits r acc n (c # s) =
     (case to_digit_radix r c of
        None \<Rightarrow> (acc, n, c # s)
      | Some d \<Rightarrow> read_digits r (acc * r + d) (Suc n) s)"

definition read_number :: "nat \<Rightarrow> nat option \<Rightarrow> bool \<Rightarrow> nat \<Rightarrow> nat reader" where
  "read_number radix max_digits allow_zero_prefix limit s =
     (let (v, n, rest) = read_digits radix 0 0 s;
          has_leading_zero = (s \<noteq> [] \<and> hd s = CHR ''0'')
      in if (case max_digits of Some m \<Rightarrow> n > m | None \<Rightarrow> False) then None
         else if n = 0 then None
         else if \<not> allow_zero_prefix \<and> has_leading_zero \<and> n > 1 then None
         else if v > limit then None
         else Some (v, rest))"

definition read_given_char :: "char \<Rightarrow> unit reader" where
  "read_given_char c s = (case s of [] \<Rightarrow> None | d # r \<Rightarrow> if d = c then Some ((), r) else None)"

definition read_separator :: "char \<Rightarrow> nat \<Rightarrow> 'a reader \<Rightarrow> 'a reader" where
  "read_separator sep i inner s =
     (if i > 0 then do { (_, r) \<leftarrow> read_given_char sep s; inner r } else inner s)"

definition read_octet :: "nat \<Rightarrow> u8 reader" where
  "read_octet i s =
     map_option (\<lambda>(v, r). (of_nat v, r))
       (read_separator (CHR ''.'') i (read_number 10 (Some 3) False 255) s)"

definition read_ipv4_addr :: "ipv4 reader" where
  "read_ipv4_addr s = do {
     (a, s1) \<leftarrow> read_octet 0 s;
     (b, s2) \<leftarrow> read_octet 1 s1;
     (c, s3) \<leftarrow> read_octet 2 s2;
     (d, s4) \<leftarrow> read_octet 3 s3;
     Some (ipv4_new a b c d, s4)
   }"

text \<open>\<open>str::parse\<close> for \<open>Ipv4Addr\<close>: at most 15 bytes, all of them consumed.\<close>

definition parse_ipv4 :: "string \<Rightarrow> ipv4 option" where
  "parse_ipv4 s =
     (if length s > 15 then None
      else case read_ipv4_addr s of Some (a, []) \<Rightarrow> Some a | _ \<Rightarrow> None)"

text \<open>
  The groups of an IPv6 address: up to \<open>limit\<close> of them, a dotted IPv4 address standing
  for the last two. Gives the groups read, whether an IPv4 part ended them, and the rest.
\<close>

fun read_groups :: "nat \<Rightarrow> nat \<Rightarrow> nat \<Rightarrow> string \<Rightarrow> u16 list \<times> bool \<times> string" where
  "read_groups 0 limit i s = ([], False, s)"
| "read_groups (Suc k) limit i s =
     (case (if i < limit - 1 then read_separator (CHR '':'') i read_ipv4_addr s else None) of
        Some (a, r) \<Rightarrow> ([from_be_bytes (take 2 (octets a)), from_be_bytes (drop 2 (octets a))], True, r)
      | None \<Rightarrow>
          (case read_separator (CHR '':'') i (read_number 16 (Some 4) True 65535) s of
             None \<Rightarrow> ([], False, s)
           | Some (g, r) \<Rightarrow>
               (let (gs, v4, t) = read_groups k limit (Suc i) r in (of_nat g # gs, v4, t))))"

definition ipv6_of_groups :: "u16 list \<Rightarrow> ipv6" where
  "ipv6_of_groups gs = from_be_bytes (concat (map to_be_bytes gs))"

definition read_ipv6_addr :: "ipv6 reader" where
  "read_ipv6_addr s =
     (let (head, head_ipv4, r) = read_groups 8 8 0 s
      in if length head = 8 then Some (ipv6_of_groups head, r)
         else if head_ipv4 then None
         else do {
           (_, r1) \<leftarrow> read_given_char (CHR '':'') r;
           (_, r2) \<leftarrow> read_given_char (CHR '':'') r1;
           let limit = 8 - (length head + 1);
           let (tail, _, r3) = read_groups limit limit 0 r2;
           Some (ipv6_of_groups (head @ replicate (8 - length head - length tail) 0 @ tail), r3)
         })"

definition read_port :: "u16 reader" where
  "read_port s = do {
     (_, r) \<leftarrow> read_given_char (CHR '':'') s;
     (v, t) \<leftarrow> read_number 10 None True 65535 r;
     Some (of_nat v, t)
   }"

definition read_scope_id :: "nat reader" where
  "read_scope_id s = do {
     (_, r) \<leftarrow> read_given_char (CHR ''%'') s;
     read_number 10 None True (2 ^ 32 - 1) r
   }"

definition read_socket_addr_v4 :: "(ip_addr \<times> u16) reader" where
  "read_socket_addr_v4 s = do {
     (a, r) \<leftarrow> read_ipv4_addr s;
     (p, t) \<leftarrow> read_port r;
     Some ((V4 a, p), t)
   }"

definition read_socket_addr_v6 :: "(ip_addr \<times> u16) reader" where
  "read_socket_addr_v6 s = do {
     (_, s1) \<leftarrow> read_given_char (CHR ''['') s;
     (a, s2) \<leftarrow> read_ipv6_addr s1;
     let s3 = (case read_scope_id s2 of Some (_, r) \<Rightarrow> r | None \<Rightarrow> s2);
     (_, s4) \<leftarrow> read_given_char (CHR '']'') s3;
     (p, t) \<leftarrow> read_port s4;
     Some ((V6 a, p), t)
   }"

text \<open>\<open>str::parse\<close> for \<open>SocketAddr\<close>.\<close>

definition parse_socket_addr :: "string \<Rightarrow> (ip_addr \<times> u16) option" where
  "parse_socket_addr s =
     (case (case read_socket_addr_v4 s of Some x \<Rightarrow> Some x | None \<Rightarrow> read_socket_addr_v6 s) of
        Some (a, []) \<Rightarrow> Some a
      | _ \<Rightarrow> None)"

end
