(* ===== verification/Tcp_Stream.thy ===== *)
theory Tcp_Stream
  imports Text
begin

text \<open>
  TCP streams as the connectors and the DNS server see them. The peer is unknown code, so
  what it sends is data of the model: the segments that successive reads return, and how
  the stream ends after them. What the program writes is recorded.

  The locale \<open>byte_source\<close> is the contract of everything that is read like a socket:
  a read hands out the next bytes of the content, in order, and loses none.
\<close>

section \<open>The contract of a readable stream\<close>

type_synonym 's reads = "'s \<Rightarrow> nat \<Rightarrow> bytes io_result \<times> 's"

text \<open>Reads of the given sizes one after the other; a failed read is tried again later.\<close>

fun read_many :: "'s reads \<Rightarrow> nat list \<Rightarrow> 's \<Rightarrow> bytes \<times> 's" where
  "read_many rd [] s = ([], s)"
| "read_many rd (n # ns) s =
     (case rd s n of
        (Ok bs, s') \<Rightarrow> (let (r, t) = read_many rd ns s' in (bs @ r, t))
      | (Err e, s') \<Rightarrow> read_many rd ns s')"

locale byte_source =
  fixes rd :: "'s reads"
    and content :: "'s \<Rightarrow> bytes"
  assumes read_Ok: "rd s n = (Ok bs, s') \<Longrightarrow> content s = bs @ content s'"
    and read_bound: "rd s n = (Ok bs, s') \<Longrightarrow> length bs \<le> n"
    and read_Err: "rd s n = (Err e, s') \<Longrightarrow> content s' = content s"
begin

lemma read_many_content: "read_many rd ns s = (r, t) \<Longrightarrow> content s = r @ content t"
proof (induction ns arbitrary: s r)
  case Nil
  then show ?case by simp
next
  case (Cons n ns)
  obtain q s' where q: "rd s n = (q, s')" by fastforce
  show ?case
  proof (cases q)
    case (Ok bs)
    with q Cons.prems obtain r' where r': "read_many rd ns s' = (r', t)" "r = bs @ r'"
      by (auto split: prod.splits)
    with Cons.IH [OF r'(1)] read_Ok [of s n bs s'] q Ok show ?thesis by simp
  next
    case (Err e)
    with q Cons.prems have "read_many rd ns s' = (r, t)" by simp
    from Cons.IH [OF this] read_Err [of s n e s'] q Err show ?thesis by simp
  qed
qed

lemma read_many_prefix: "read_many rd ns s = (r, t) \<Longrightarrow> \<exists>u. content s = r @ u"
  by (blast dest: read_many_content)

end

section \<open>TCP streams\<close>

datatype stream_end = Closed | Failed io_error | Stalled

record tcp =
  rx :: "bytes list"
  rx_end :: stream_end
  tx :: bytes
  tx_fail :: "io_error option list"

definition tcp_content :: "tcp \<Rightarrow> bytes" where
  "tcp_content t = concat (rx t)"

text \<open>
  One read of at most \<open>n\<close> bytes without waiting: an empty segment is a read that would
  block. After the last segment the stream reports its end for ever.
\<close>

definition tcp_try_read :: "tcp reads" where
  "tcp_try_read t n =
     (case rx t of
        [] \<Rightarrow> (case rx_end t of
                 Closed \<Rightarrow> (Ok [], t)
               | Failed e \<Rightarrow> (Err e, t)
               | Stalled \<Rightarrow> (Err (Os EAGAIN), t))
      | [] # cs \<Rightarrow> (Err (Os EAGAIN), t\<lparr>rx := cs\<rparr>)
      | c # cs \<Rightarrow>
          if length c \<le> n then (Ok c, t\<lparr>rx := cs\<rparr>)
          else (Ok (take n c), t\<lparr>rx := drop n c # cs\<rparr>))"

lemma tcp_try_read_cases:
  obtains (empty) "rx t = []" "tcp_try_read t n \<in> {(Ok [], t)} \<union> {(Err e, t) | e. True}"
  | (block) cs where "rx t = [] # cs" "tcp_try_read t n = (Err (Os EAGAIN), t\<lparr>rx := cs\<rparr>)"
  | (all) c cs where "rx t = c # cs" "length c \<le> n" "tcp_try_read t n = (Ok c, t\<lparr>rx := cs\<rparr>)"
  | (part) c cs where "rx t = c # cs" "n < length c"
      "tcp_try_read t n = (Ok (take n c), t\<lparr>rx := drop n c # cs\<rparr>)"
proof (cases "rx t")
  case Nil
  then show ?thesis
    by (intro empty) (auto simp: tcp_try_read_def split: stream_end.split)
next
  case (Cons c cs)
  then show ?thesis
    by (cases c; cases "length c \<le> n") (auto simp: tcp_try_read_def intro: block all part)
qed

interpretation tcp_source: byte_source tcp_try_read tcp_content
proof unfold_locales
  fix t n bs t' assume r: "tcp_try_read t n = (Ok bs, t')"
  show "tcp_content t = bs @ tcp_content t'"
    by (rule tcp_try_read_cases [of t n]) (use r in \<open>auto simp: tcp_content_def\<close>)
  show "length bs \<le> n"
    by (rule tcp_try_read_cases [of t n]) (use r in auto)
next
  fix t n e t' assume r: "tcp_try_read t n = (Err e, t')"
  show "tcp_content t' = tcp_content t"
    by (rule tcp_try_read_cases [of t n]) (use r in \<open>auto simp: tcp_content_def\<close>)
qed

text \<open>
  \<open>read_exact\<close> waits for \<open>n\<close> bytes. The error \<open>Hang\<close> means that the bytes
  never come (a stalled peer), which the callers bound by a timeout.
\<close>

datatype wait_error = Io io_error | Hang

fun take_bytes :: "nat \<Rightarrow> bytes list \<Rightarrow> (bytes \<times> bytes list) option" where
  "take_bytes n [] = (if n = 0 then Some ([], []) else None)"
| "take_bytes n (c # cs) =
     (if n \<le> length c then Some (take n c, drop n c # cs)
      else map_option (\<lambda>(r, t). (c @ r, t)) (take_bytes (n - length c) cs))"

definition end_error :: "stream_end \<Rightarrow> wait_error" where
  "end_error e =
     (case e of Closed \<Rightarrow> Io (Custom UnexpectedEof) | Failed er \<Rightarrow> Io er | Stalled \<Rightarrow> Hang)"

definition read_exact :: "nat \<Rightarrow> tcp \<Rightarrow> (bytes, wait_error) result \<times> tcp" where
  "read_exact n t =
     (case take_bytes n (rx t) of
        Some (r, cs) \<Rightarrow> (Ok r, t\<lparr>rx := cs\<rparr>)
      | None \<Rightarrow> (Err (end_error (rx_end t)), t\<lparr>rx := []\<rparr>))"

text \<open>\<open>write_all\<close>: the outcomes of the successive calls are \<open>tx_fail\<close>, success beyond it.\<close>

definition write_all :: "bytes \<Rightarrow> tcp \<Rightarrow> (unit, wait_error) result \<times> tcp" where
  "write_all bs t =
     (case tx_fail t of
        Some e # fs \<Rightarrow> (Err (Io e), t\<lparr>tx_fail := fs\<rparr>)
      | None # fs \<Rightarrow> (Ok (), t\<lparr>tx := tx t @ bs, tx_fail := fs\<rparr>)
      | [] \<Rightarrow> (Ok (), t\<lparr>tx := tx t @ bs\<rparr>))"

lemma take_bytes_None_iff: "take_bytes n cs = None \<longleftrightarrow> length (concat cs) < n"
proof (induction n cs rule: take_bytes.induct)
  case (2 n c cs)
  then show ?case by (cases "n \<le> length c") (simp_all, linarith)
qed simp

lemma take_bytes_Some:
  "take_bytes n cs = Some (r, t) \<Longrightarrow> concat cs = r @ concat t \<and> length r = n"
proof (induction n cs arbitrary: r t rule: take_bytes.induct)
  case (2 n c cs)
  show ?case
  proof (cases "n \<le> length c")
    case True
    with "2.prems" show ?thesis by auto
  next
    case False
    with "2.prems" obtain r' where r': "take_bytes (n - length c) cs = Some (r', t)" "r = c @ r'"
      by auto
    with "2.IH" [OF False r'(1)] False show ?thesis by simp
  qed
qed (simp split: if_splits)

lemma read_exact_Ok:
  "read_exact n t = (Ok r, t') \<Longrightarrow>
     tcp_content t = r @ tcp_content t' \<and> length r = n \<and> tx t' = tx t \<and> tx_fail t' = tx_fail t \<and>
     rx_end t' = rx_end t"
  by (auto simp: read_exact_def tcp_content_def dest!: take_bytes_Some split: option.splits)

lemma read_exact_enough:
  assumes "n \<le> length (tcp_content t)"
  obtains t' where "read_exact n t = (Ok (take n (tcp_content t)), t')"
    and "tcp_content t' = drop n (tcp_content t)" and "tx t' = tx t"
    and "tx_fail t' = tx_fail t" and "rx_end t' = rx_end t"
proof -
  obtain r cs where tb: "take_bytes n (rx t) = Some (r, cs)"
    using assms take_bytes_None_iff [of n "rx t"]
    by (cases "take_bytes n (rx t)") (auto simp: tcp_content_def)
  from take_bytes_Some [OF this] have "take n (tcp_content t) = r"
    and "drop n (tcp_content t) = concat cs" by (auto simp: tcp_content_def)
  with tb show ?thesis
    by (intro that [of "t\<lparr>rx := cs\<rparr>"]) (simp_all add: read_exact_def tcp_content_def)
qed

text \<open>The frame of a read: everything but the bytes read stays.\<close>

definition same_peer :: "tcp \<Rightarrow> tcp \<Rightarrow> bool" where
  "same_peer t t' \<longleftrightarrow> tx t' = tx t \<and> tx_fail t' = tx_fail t \<and> rx_end t' = rx_end t"

lemma read_exact_prefix:
  assumes "tcp_content t = a @ rest" and "length a = n"
  obtains t' where "read_exact n t = (Ok a, t')" and "tcp_content t' = rest" and "same_peer t t'"
proof -
  have "n \<le> length (tcp_content t)" using assms by simp
  then obtain t' where "read_exact n t = (Ok (take n (tcp_content t)), t')"
    "tcp_content t' = drop n (tcp_content t)" "tx t' = tx t" "tx_fail t' = tx_fail t"
    "rx_end t' = rx_end t" by (rule read_exact_enough)
  with assms that [of t'] show ?thesis by (simp add: same_peer_def)
qed

lemma read_exact_short:
  "length (tcp_content t) < n \<Longrightarrow> read_exact n t = (Err (end_error (rx_end t)), t\<lparr>rx := []\<rparr>)"
  using take_bytes_None_iff [of n "rx t"] by (simp add: read_exact_def tcp_content_def)

lemma write_all_keeps:
  "write_all bs t = (r, t') \<Longrightarrow> tcp_content t' = tcp_content t \<and> rx_end t' = rx_end t"
  by (auto simp: write_all_def tcp_content_def split: list.splits option.splits)

lemma write_all_Ok_tx: "write_all bs t = (Ok u, t') \<Longrightarrow> tx t' = tx t @ bs"
  by (auto simp: write_all_def split: list.splits option.splits)

lemma write_all_Err_tx: "write_all bs t = (Err e, t') \<Longrightarrow> tx t' = tx t"
  by (auto simp: write_all_def split: list.splits option.splits)

lemma write_all_clean [simp]: "tx_fail t = [] \<Longrightarrow> write_all bs t = (Ok (), t\<lparr>tx := tx t @ bs\<rparr>)"
  by (simp add: write_all_def)

lemma tcp_content_tx [simp]: "tcp_content (t\<lparr>tx := x\<rparr>) = tcp_content t"
  by (simp add: tcp_content_def)

section \<open>Actions that may fail\<close>

text \<open>
  An operation on a state that may fail and keeps the state it reached. \<open>seq_do\<close> is the
  \<open>?\<close> operator followed by the rest of the function, \<open>in_context\<close> what
  \<open>with_context\<close> does to an error.
\<close>

type_synonym ('a, 'e, 's) action = "'s \<Rightarrow> ('a, 'e) result \<times> 's"

definition seq_do :: "('a, 'e, 's) action \<Rightarrow> ('a \<Rightarrow> ('b, 'e, 's) action) \<Rightarrow> ('b, 'e, 's) action" where
  "seq_do m f s = (case m s of (Ok a, s') \<Rightarrow> f a s' | (Err e, s') \<Rightarrow> (Err e, s'))"

definition yield :: "'a \<Rightarrow> ('a, 'e, 's) action" where
  "yield a s = (Ok a, s)"

definition fail :: "'e \<Rightarrow> ('a, 'e, 's) action" where
  "fail e s = (Err e, s)"

definition in_context :: "('e \<Rightarrow> 'f) \<Rightarrow> ('a, 'e, 's) action \<Rightarrow> ('a, 'f, 's) action" where
  "in_context f m s = (case m s of (Ok a, s') \<Rightarrow> (Ok a, s') | (Err e, s') \<Rightarrow> (Err (f e), s'))"

lemma seq_do_Ok [simp]: "m s = (Ok a, s') \<Longrightarrow> seq_do m f s = f a s'"
  by (simp add: seq_do_def)

lemma seq_do_Err [simp]: "m s = (Err e, s') \<Longrightarrow> seq_do m f s = (Err e, s')"
  by (simp add: seq_do_def)

lemma seq_do_Ok_iff:
  "seq_do m f s = (Ok b, s') \<longleftrightarrow> (\<exists>a s1. m s = (Ok a, s1) \<and> f a s1 = (Ok b, s'))"
  by (auto simp: seq_do_def split: prod.splits result.splits)

lemma yield_iff [simp]: "yield a s = (r, s') \<longleftrightarrow> r = Ok a \<and> s' = s"
  by (auto simp: yield_def)

lemma fail_iff [simp]: "fail e s = (r, s') \<longleftrightarrow> r = Err e \<and> s' = s"
  by (auto simp: fail_def)

lemma in_context_Ok_iff [simp]: "in_context f m s = (Ok a, s') \<longleftrightarrow> m s = (Ok a, s')"
  by (auto simp: in_context_def split: prod.splits result.splits)

lemma in_context_Err [simp]: "m s = (Err e, s') \<Longrightarrow> in_context f m s = (Err (f e), s')"
  by (simp add: in_context_def)

text \<open>What an action keeps of the state, whether it succeeds or fails.\<close>

definition keeps :: "('s \<Rightarrow> bool) \<Rightarrow> ('a, 'e, 's) action \<Rightarrow> bool" where
  "keeps I m \<longleftrightarrow> (\<forall>s. I s \<longrightarrow> I (snd (m s)))"

lemma keepsD: "keeps I m \<Longrightarrow> I s \<Longrightarrow> m s = (r, s') \<Longrightarrow> I s'"
  unfolding keeps_def by (metis snd_conv)

lemma keeps_seq_do: "keeps I m \<Longrightarrow> (\<And>a. keeps I (f a)) \<Longrightarrow> keeps I (seq_do m f)"
  unfolding keeps_def seq_do_def by (force split: prod.splits result.splits)

lemma keeps_simple [simp]: "keeps I (yield a)" "keeps I (fail e)"
  by (simp_all add: keeps_def yield_def fail_def)

lemma keeps_same: "(\<And>s. snd (m s) = s) \<Longrightarrow> keeps I m"
  by (simp add: keeps_def)

text \<open>
  Triples for the two ways an action can end: \<open>Q\<close> relates a value to the state after success,
  \<open>E\<close> an error to the state after a failure.
\<close>

definition triple ::
  "('s \<Rightarrow> bool) \<Rightarrow> ('a, 'e, 's) action \<Rightarrow> ('a \<Rightarrow> 's \<Rightarrow> bool) \<Rightarrow> ('e \<Rightarrow> 's \<Rightarrow> bool) \<Rightarrow> bool" where
  "triple P m Q E \<longleftrightarrow> (\<forall>s. P s \<longrightarrow> (case m s of (Ok a, s') \<Rightarrow> Q a s' | (Err e, s') \<Rightarrow> E e s'))"

lemma triple_seq:
  "triple P m Q E \<Longrightarrow> (\<And>a. triple (Q a) (f a) R E) \<Longrightarrow> triple P (seq_do m f) R E"
  unfolding triple_def seq_do_def by (fastforce split: prod.splits result.splits)

lemma triple_keeps: "keeps I m \<Longrightarrow> triple I m (\<lambda>_. I) (\<lambda>_. I)"
  unfolding triple_def by (auto dest: keepsD split: prod.splits result.splits)

lemma triple_conseq:
  "triple P m Q E \<Longrightarrow> (\<And>s. P' s \<Longrightarrow> P s) \<Longrightarrow> (\<And>a s. Q a s \<Longrightarrow> Q' a s) \<Longrightarrow>
   (\<And>e s. E e s \<Longrightarrow> E' e s) \<Longrightarrow> triple P' m Q' E'"
  unfolding triple_def by (fastforce split: prod.splits result.splits)

lemma triple_Ok: "triple P m Q E \<Longrightarrow> P s \<Longrightarrow> m s = (Ok a, s') \<Longrightarrow> Q a s'"
  unfolding triple_def by fastforce

lemma triple_Err: "triple P m Q E \<Longrightarrow> P s \<Longrightarrow> m s = (Err e, s') \<Longrightarrow> E e s'"
  unfolding triple_def by fastforce

lemma keeps_triple:
  assumes "triple I m (\<lambda>_. I) (\<lambda>_. I)"
  shows "keeps I m"
  unfolding keeps_def
proof (intro allI impI)
  fix s assume s: "I s"
  obtain r s' where "m s = (r, s')" by force
  with triple_Ok [OF assms s] triple_Err [OF assms s] show "I (snd (m s))" by (cases r) simp_all
qed

lemma triple_yield: "(\<And>s. P s \<Longrightarrow> Q a s) \<Longrightarrow> triple P (yield a) Q E"
  by (simp add: triple_def yield_def)

lemma triple_fail: "(\<And>s. P s \<Longrightarrow> E e s) \<Longrightarrow> triple P (fail e) Q E"
  by (simp add: triple_def fail_def)

end
