(* ===== verification/Proxy.thy ===== *)
theory Proxy
  imports Net_Addr Tcp_Stream
begin

text \<open>
  \<open>src/proxy/mod.rs\<close>: outbound routes and their URL syntax, connection targets, and the
  stream that a finished proxy handshake gives, which first hands out the bytes that were
  prefetched while the handshake was read.
\<close>

section \<open>Routes\<close>

datatype proxy_config =
    Direct
  | Socks5 string "(string \<times> string) option"
  | Http string "(string \<times> string) option"

datatype proxy_error =
    UnsupportedProxy string
  | EmptyUsername
  | InvalidAddress string
  | InvalidHostname string
  | InvalidPort string

datatype scheme = KSocks5 | KHttp

definition proxy_scheme :: "string \<Rightarrow> (scheme \<times> string) option" where
  "proxy_scheme value =
     (case strip_prefix ''socks5://'' value of
        Some rest \<Rightarrow> Some (KSocks5, rest)
      | None \<Rightarrow>
          (case strip_prefix ''socks://'' value of
             Some rest \<Rightarrow> Some (KSocks5, rest)
           | None \<Rightarrow>
               (case strip_prefix ''http://'' value of
                  Some rest \<Rightarrow> Some (KHttp, rest)
                | None \<Rightarrow> None)))"

definition proxy_auth :: "string \<Rightarrow> ((string \<times> string) option \<times> string, proxy_error) result" where
  "proxy_auth rest =
     (case rsplit_once (CHR ''@'') rest of
        None \<Rightarrow> Ok (None, rest)
      | Some (auth_str, host_port) \<Rightarrow>
          (let (user, pass) =
             (case split_once (CHR '':'') auth_str of Some up \<Rightarrow> up | None \<Rightarrow> (auth_str, []))
           in if user = [] then Err EmptyUsername else Ok (Some (user, pass), host_port)))"

definition bad_host :: "string \<Rightarrow> bool" where
  "bad_host host \<longleftrightarrow>
     host = [] \<or> (\<exists>c \<in> set host. c \<in> set '':/?#[]'') \<or> any_whitespace host"

definition check_host_port :: "string \<Rightarrow> (unit, proxy_error) result" where
  "check_host_port host_port =
     (if parse_socket_addr host_port \<noteq> None then Ok ()
      else case rsplit_once (CHR '':'') host_port of
        None \<Rightarrow> Err (InvalidAddress host_port)
      | Some (host, port) \<Rightarrow>
          if bad_host host then Err (InvalidHostname host)
          else if parse_uint 65535 port = None then Err (InvalidPort port)
          else Ok ())"

definition ProxyConfig_parse :: "string \<Rightarrow> (proxy_config, proxy_error) result" where
  "ProxyConfig_parse value =
     (if value = ''direct'' then Ok Direct
      else case proxy_scheme value of
        None \<Rightarrow> Err (UnsupportedProxy value)
      | Some (k, rest) \<Rightarrow>
          and_then (proxy_auth rest) (\<lambda>(auth, host_port).
          and_then (check_host_port host_port) (\<lambda>_.
            Ok (case k of KSocks5 \<Rightarrow> Socks5 host_port auth | KHttp \<Rightarrow> Http host_port auth))))"

text \<open>\<open>Display\<close>: the credentials are never printed.\<close>

fun show_proxy_config :: "proxy_config \<Rightarrow> string" where
  "show_proxy_config Direct = ''direct''"
| "show_proxy_config (Socks5 addr _) = ''socks5://'' @ addr"
| "show_proxy_config (Http addr _) = ''http://'' @ addr"

section \<open>Targets\<close>

datatype proxy_target = Domain string u16 | Ip ip_addr u16

fun show_proxy_target :: "proxy_target \<Rightarrow> string" where
  "show_proxy_target (Domain host port) = host @ '':'' @ show_nat (unat port)"
| "show_proxy_target (Ip addr port) = show_ip_addr addr @ '':'' @ show_nat (unat port)"

section \<open>The stream after a handshake\<close>

text \<open>
  \<open>ps_inner\<close> stands for the TCP socket; \<open>ps_position\<close> is the cursor into the prefetched
  bytes. The socket's own read is a parameter: what a read of at most \<open>n\<close> bytes gives
  and the socket after it.
\<close>

record 's proxy_stream =
  ps_inner :: 's
  ps_buffered :: bytes
  ps_position :: nat

definition ProxyStream_new :: "'s \<Rightarrow> bytes \<Rightarrow> 's proxy_stream" where
  "ProxyStream_new sock bs = \<lparr>ps_inner = sock, ps_buffered = bs, ps_position = 0\<rparr>"

definition has_buffered_data :: "'s proxy_stream \<Rightarrow> bool" where
  "has_buffered_data p \<longleftrightarrow> ps_position p < length (ps_buffered p)"

text \<open>\<open>Cursor::read\<close> into a buffer of \<open>n\<close> bytes.\<close>

definition cursor_read :: "'s proxy_stream \<Rightarrow> nat \<Rightarrow> bytes \<times> 's proxy_stream" where
  "cursor_read p n =
     (let bs = take n (drop (ps_position p) (ps_buffered p))
      in (bs, p\<lparr>ps_position := ps_position p + length bs\<rparr>))"

definition try_read :: "'s reads \<Rightarrow> 's proxy_stream \<Rightarrow> nat \<Rightarrow> bytes io_result \<times> 's proxy_stream" where
  "try_read rd p n =
     (if has_buffered_data p then (let (bs, p') = cursor_read p n in (Ok bs, p'))
      else (let (r, sock) = rd (ps_inner p) n in (r, p\<lparr>ps_inner := sock\<rparr>)))"

definition poll_read_ready :: "('s \<Rightarrow> unit io_result option) \<Rightarrow> 's proxy_stream \<Rightarrow> unit io_result option" where
  "poll_read_ready ready p = (if has_buffered_data p then Some (Ok ()) else ready (ps_inner p))"

definition poll_read :: "'s reads \<Rightarrow> 's proxy_stream \<Rightarrow> nat \<Rightarrow> bytes io_result \<times> 's proxy_stream" where
  "poll_read rd p n =
     (if has_buffered_data p
      then (let (bs, p') = cursor_read p n in (Ok bs, p'))
      else (let (r, sock) = rd (ps_inner p) n in (r, p\<lparr>ps_inner := sock\<rparr>)))"

text \<open>Writes, flushes and shutdowns go to the socket; the prefetched bytes stay for the reader.\<close>

definition poll_write :: "('s \<Rightarrow> bytes \<Rightarrow> nat io_result \<times> 's) \<Rightarrow> 's proxy_stream \<Rightarrow> bytes \<Rightarrow> nat io_result \<times> 's proxy_stream" where
  "poll_write wr p bs = (let (r, sock) = wr (ps_inner p) bs in (r, p\<lparr>ps_inner := sock\<rparr>))"

definition poll_flush :: "('s \<Rightarrow> unit io_result \<times> 's) \<Rightarrow> 's proxy_stream \<Rightarrow> unit io_result \<times> 's proxy_stream" where
  "poll_flush fl p = (let (r, sock) = fl (ps_inner p) in (r, p\<lparr>ps_inner := sock\<rparr>))"

definition poll_shutdown :: "('s \<Rightarrow> unit io_result \<times> 's) \<Rightarrow> 's proxy_stream \<Rightarrow> unit io_result \<times> 's proxy_stream" where
  "poll_shutdown sd p = (let (r, sock) = sd (ps_inner p) in (r, p\<lparr>ps_inner := sock\<rparr>))"

section \<open>Properties of the stream\<close>

definition ps_content :: "('s \<Rightarrow> bytes) \<Rightarrow> 's proxy_stream \<Rightarrow> bytes" where
  "ps_content content p = drop (ps_position p) (ps_buffered p) @ content (ps_inner p)"

lemma poll_write_content:
  "poll_write wr p bs = (r, p') \<Longrightarrow> wr (ps_inner p) bs = (r', sock) \<Longrightarrow> content sock = content (ps_inner p) \<Longrightarrow>
     ps_content content p' = ps_content content p"
  by (auto simp: poll_write_def ps_content_def)

lemma ps_content_new [simp]: "ps_content content (ProxyStream_new sock bs) = bs @ content sock"
  by (simp add: ps_content_def ProxyStream_new_def)

lemma cursor_read_content:
  assumes "cursor_read p n = (bs, p')"
  shows "ps_content c p = bs @ ps_content c p' \<and> length bs \<le> n"
proof -
  let ?rest = "drop (ps_position p) (ps_buffered p)"
  from assms have bs: "bs = take n ?rest"
    and p': "p' = p\<lparr>ps_position := ps_position p + length bs\<rparr>"
    by (auto simp: cursor_read_def Let_def)
  have "?rest = bs @ drop (length bs) ?rest"
    by (cases "n \<le> length ?rest") (simp_all only: bs length_take min_absorb1 min_absorb2
        append_take_drop_id linorder_not_le less_imp_le take_all drop_all append_Nil2)
  moreover have "drop (ps_position p') (ps_buffered p') = drop (length bs) ?rest"
    by (simp add: p' add.commute)
  ultimately show ?thesis
    by (simp only: ps_content_def append_assoc [symmetric]) (simp add: bs p')
qed

context byte_source
begin

lemma proxy_stream_source: "byte_source (try_read rd) (ps_content content)"
proof unfold_locales
  fix p n bs p' assume r: "try_read rd p n = (Ok bs, p')"
  have "ps_content content p = bs @ ps_content content p' \<and> length bs \<le> n"
  proof (cases "has_buffered_data p")
    case True
    with r have "cursor_read p n = (bs, p')"
      by (simp add: try_read_def split: prod.splits)
    then show ?thesis by (rule cursor_read_content)
  next
    case False
    with r obtain sock where q: "rd (ps_inner p) n = (Ok bs, sock)"
      and p': "p' = p\<lparr>ps_inner := sock\<rparr>"
      by (auto simp: try_read_def split: prod.splits)
    from False have "drop (ps_position p) (ps_buffered p) = []"
      by (simp add: has_buffered_data_def)
    with read_Ok [OF q] read_bound [OF q] show ?thesis by (simp add: ps_content_def p')
  qed
  then show "ps_content content p = bs @ ps_content content p'" and "length bs \<le> n" by simp_all
next
  fix p n e p' assume r: "try_read rd p n = (Err e, p')"
  then obtain sock where q: "rd (ps_inner p) n = (Err e, sock)" and "p' = p\<lparr>ps_inner := sock\<rparr>"
    by (auto simp: try_read_def split: prod.splits if_splits)
  with read_Err [OF q] show "ps_content content p' = ps_content content p"
    by (simp add: ps_content_def)
qed

end

interpretation tunnel: byte_source "try_read tcp_try_read" "ps_content tcp_content"
  by (rule tcp_source.proxy_stream_source)

lemma poll_read_eq_try_read: "poll_read rd p n = try_read rd p n"
  by (simp add: poll_read_def try_read_def)

section \<open>Properties of the URL syntax\<close>

definition without_auth :: "proxy_config \<Rightarrow> proxy_config" where
  "without_auth c =
     (case c of Direct \<Rightarrow> Direct | Socks5 a _ \<Rightarrow> Socks5 a None | Http a _ \<Rightarrow> Http a None)"

fun route_addr :: "proxy_config \<Rightarrow> string option" where
  "route_addr Direct = None"
| "route_addr (Socks5 a _) = Some a"
| "route_addr (Http a _) = Some a"

lemma proxy_scheme_simps [simp]:
  "proxy_scheme (''socks5://'' @ r) = Some (KSocks5, r)"
  "proxy_scheme (''http://'' @ r) = Some (KHttp, r)"
  "proxy_scheme (''socks://'' @ r) = Some (KSocks5, r)"
  by (simp_all add: proxy_scheme_def)

lemma rsplit_once_None_iff [simp]: "rsplit_once d s = None \<longleftrightarrow> d \<notin> set s"
  by (simp add: rsplit_once_def)

lemma proxy_auth_Ok:
  assumes "proxy_auth rest = Ok (auth, hp)"
  shows "CHR ''@'' \<notin> set hp"
    and "auth = Some (u, p) \<Longrightarrow>
      u \<noteq> [] \<and> CHR '':'' \<notin> set u \<and>
      (rest = u @ '':'' @ p @ ''@'' @ hp \<or> p = [] \<and> rest = u @ ''@'' @ hp)"
    and "auth = None \<Longrightarrow> rest = hp"
  using assms
  by (auto simp: proxy_auth_def rsplit_once_Some_iff split_once_Some_iff
      split: option.splits prod.splits if_splits)

lemma proxy_auth_none: "CHR ''@'' \<notin> set hp \<Longrightarrow> proxy_auth hp = Ok (None, hp)"
  by (simp add: proxy_auth_def rsplit_once_None_iff [THEN iffD2])

lemma proxy_auth_some:
  assumes "u \<noteq> []" and "CHR '':'' \<notin> set u" and "CHR ''@'' \<notin> set hp"
  shows "proxy_auth (u @ '':'' @ p @ ''@'' @ hp) = Ok (Some (u, p), hp)"
proof -
  have "rsplit_once (CHR ''@'') (u @ '':'' @ p @ ''@'' @ hp) = Some (u @ '':'' @ p, hp)"
    using assms by (simp add: rsplit_once_Some_iff)
  moreover have "split_once (CHR '':'') (u @ '':'' @ p) = Some (u, p)"
    using assms by (simp add: split_once_Some_iff)
  ultimately show ?thesis using assms by (simp add: proxy_auth_def)
qed

lemma ProxyConfig_parse_Ok_cases:
  assumes "ProxyConfig_parse v = Ok c"
  obtains (direct) "v = ''direct''" "c = Direct"
  | (socks) rest auth hp where "proxy_scheme v = Some (KSocks5, rest)"
      "proxy_auth rest = Ok (auth, hp)" "check_host_port hp = Ok ()" "c = Socks5 hp auth"
  | (http) rest auth hp where "proxy_scheme v = Some (KHttp, rest)"
      "proxy_auth rest = Ok (auth, hp)" "check_host_port hp = Ok ()" "c = Http hp auth"
proof (cases "v = ''direct''")
  case True
  with assms show ?thesis by (intro direct) (simp_all add: ProxyConfig_parse_def)
next
  case False
  with assms obtain k rest where k: "proxy_scheme v = Some (k, rest)"
    by (auto simp: ProxyConfig_parse_def split: option.splits)
  with False assms obtain auth hp where "proxy_auth rest = Ok (auth, hp)" "check_host_port hp = Ok ()"
    and c: "c = (case k of KSocks5 \<Rightarrow> Socks5 hp auth | KHttp \<Rightarrow> Http hp auth)"
    by (auto simp: ProxyConfig_parse_def and_then_Ok_iff)
  with k c show ?thesis by (cases k) (auto intro: socks http)
qed

lemma ProxyConfig_parse_socks:
  assumes "proxy_auth rest = Ok (auth, hp)" and "check_host_port hp = Ok ()"
  shows "ProxyConfig_parse (''socks5://'' @ rest) = Ok (Socks5 hp auth)"
    and "ProxyConfig_parse (''http://'' @ rest) = Ok (Http hp auth)"
proof -
  have "''socks5://'' @ rest \<noteq> ''direct''" and "''http://'' @ rest \<noteq> ''direct''" by simp_all
  with assms proxy_scheme_simps [of rest]
  show "ProxyConfig_parse (''socks5://'' @ rest) = Ok (Socks5 hp auth)"
    and "ProxyConfig_parse (''http://'' @ rest) = Ok (Http hp auth)"
    by (simp_all only: ProxyConfig_parse_def if_False option.case prod.case and_then.simps scheme.case)
qed

text \<open>
  Printing a parsed route and parsing it again gives the same route without its
  credentials: \<open>Display\<close> names exactly the route and never leaks the password.
\<close>

lemma show_route_reparses:
  assumes "ProxyConfig_parse v = Ok c"
  shows "ProxyConfig_parse (show_proxy_config c) = Ok (without_auth c)"
  using assms
proof (cases rule: ProxyConfig_parse_Ok_cases)
  case direct
  then show ?thesis by (simp add: without_auth_def ProxyConfig_parse_def)
next
  case (socks rest auth hp)
  from ProxyConfig_parse_socks(1) [OF proxy_auth_none [OF proxy_auth_Ok(1) [OF socks(2)]] socks(3)]
  show ?thesis by (simp add: socks(4) without_auth_def)
next
  case (http rest auth hp)
  from ProxyConfig_parse_socks(2) [OF proxy_auth_none [OF proxy_auth_Ok(1) [OF http(2)]] http(3)]
  show ?thesis by (simp add: http(4) without_auth_def)
qed

lemmas url_eval =
  ProxyConfig_parse_def proxy_scheme_def proxy_auth_def check_host_port_def bad_host_def
  rsplit_once_def parse_socket_addr_def read_socket_addr_v4_def read_socket_addr_v6_def
  read_port_def parse_ipv4_def read_ipv4_addr_def read_octet_def read_separator_def
  read_number_def to_digit_radix_def read_given_char_def to_digit_def

end
