(* ===== verification/Prefix_Trie.thy ===== *)
theory Prefix_Trie
  imports Prelude
begin

text \<open>
  \<open>PrefixTrie\<close> of \<open>src/rule.rs\<close>: the binary trie behind the IP and CIDR rules. The
  specification is longest-prefix matching over the list of inserted rules, the first one
  winning among equal prefixes; the locale \<open>prefix_table\<close> states the contract the rule
  matcher relies on and derives the specification from it, and the trie is its
  interpretation.
\<close>

section \<open>The trie and its operations\<close>

datatype 'a prefix_trie =
  PrefixTrie "'a prefix_trie option" "'a prefix_trie option" "'a option"

fun trie_action :: "'a prefix_trie \<Rightarrow> 'a option" where
  "trie_action (PrefixTrie c0 c1 act) = act"

fun trie_child :: "'a prefix_trie \<Rightarrow> nat \<Rightarrow> 'a prefix_trie option" where
  "trie_child (PrefixTrie c0 c1 act) b = (if b = 0 then c0 else c1)"

definition PrefixTrie_default :: "'a prefix_trie" where
  "PrefixTrie_default = PrefixTrie None None None"

text \<open>\<open>((value >> (31 - i)) & 1) as usize\<close>\<close>

definition trie_bit :: "u32 \<Rightarrow> nat \<Rightarrow> nat" where
  "trie_bit v i = unat (drop_bit (31 - i) v AND 1)"

text \<open>The loop of \<open>insert\<close> from bit \<open>i\<close> on; \<open>get_or_insert_with\<close> makes missing nodes.\<close>

function insert_from :: "nat \<Rightarrow> u32 \<Rightarrow> nat \<Rightarrow> 'a \<Rightarrow> 'a prefix_trie \<Rightarrow> 'a prefix_trie" where
  "insert_from i v p a (PrefixTrie c0 c1 act) =
     (if i < p
      then (if trie_bit v i = 0
            then PrefixTrie
                   (Some (insert_from (Suc i) v p a
                      (case c0 of None \<Rightarrow> PrefixTrie_default | Some t \<Rightarrow> t))) c1 act
            else PrefixTrie c0
                   (Some (insert_from (Suc i) v p a
                      (case c1 of None \<Rightarrow> PrefixTrie_default | Some t \<Rightarrow> t))) act)
      else PrefixTrie c0 c1 (case act of None \<Rightarrow> Some a | Some b \<Rightarrow> Some b))"
  by pat_completeness auto
termination
  by (relation "measure (\<lambda>(i, v, p, a, t). p - i)") auto

definition PrefixTrie_insert :: "'a prefix_trie \<Rightarrow> u32 \<Rightarrow> nat \<Rightarrow> 'a \<Rightarrow> 'a prefix_trie" where
  "PrefixTrie_insert t v p a = insert_from 0 v p a t"

text \<open>The loop of \<open>get\<close>: the last action seen on the way down is the best one.\<close>

function get_from :: "nat \<Rightarrow> u32 \<Rightarrow> 'a option \<Rightarrow> 'a prefix_trie \<Rightarrow> 'a option" where
  "get_from i v best node =
     (if i < 32
      then (case trie_child node (trie_bit v i) of
              None \<Rightarrow> best
            | Some child \<Rightarrow>
                get_from (Suc i) v
                  (if trie_action child \<noteq> None then trie_action child else best) child)
      else best)"
  by pat_completeness auto
termination
  by (relation "measure (\<lambda>(i, v, best, node). 32 - i)") auto

declare insert_from.simps [simp del] get_from.simps [simp del]

definition PrefixTrie_get :: "'a prefix_trie \<Rightarrow> u32 \<Rightarrow> 'a option" where
  "PrefixTrie_get t v = get_from 0 v (trie_action t) t"

section \<open>Longest-prefix matching\<close>

text \<open>
  A rule covers an address when their first \<open>p\<close> bits agree. Among the rules that cover
  it, the first one with the longest prefix decides.
\<close>

type_synonym 'a cidr_rule = "u32 \<times> nat \<times> 'a"

definition covers :: "u32 \<Rightarrow> nat \<Rightarrow> u32 \<Rightarrow> bool" where
  "covers n p v \<longleftrightarrow> drop_bit (32 - p) n = drop_bit (32 - p) v"

fun better :: "'a cidr_rule option \<Rightarrow> 'a cidr_rule \<Rightarrow> 'a cidr_rule option" where
  "better None r = Some r"
| "better (Some (n, p, a)) (n', p', a') =
     (if p < p' then Some (n', p', a') else Some (n, p, a))"

definition lpm_rule :: "'a cidr_rule list \<Rightarrow> u32 \<Rightarrow> 'a cidr_rule option" where
  "lpm_rule rs v = foldl better None (filter (\<lambda>(n, p, a). covers n p v) rs)"

definition lpm :: "'a cidr_rule list \<Rightarrow> u32 \<Rightarrow> 'a option" where
  "lpm rs v = map_option (\<lambda>(n, p, a). a) (lpm_rule rs v)"

text \<open>The bits of an address from the most significant one on, and its prefixes.\<close>

definition bits_of :: "u32 \<Rightarrow> bool list" where
  "bits_of v = map (\<lambda>i. bit v (31 - i)) [0..<32]"

definition prefix_of :: "u32 \<Rightarrow> nat \<Rightarrow> bool list" where
  "prefix_of v p = take p (bits_of v)"

text \<open>The deepest action on the path of an address, down to depth \<open>k\<close>.\<close>

fun deepest :: "(bool list \<Rightarrow> 'a option) \<Rightarrow> u32 \<Rightarrow> nat \<Rightarrow> 'a option" where
  "deepest f v 0 = f []"
| "deepest f v (Suc k) =
     (case f (prefix_of v (Suc k)) of Some a \<Rightarrow> Some a | None \<Rightarrow> deepest f v k)"

lemma length_bits_of [simp]: "length (bits_of v) = 32"
  by (simp add: bits_of_def)

lemma prefix_of_0 [simp]: "prefix_of v 0 = []"
  by (simp add: prefix_of_def)

lemma length_prefix_of [simp]: "p \<le> 32 \<Longrightarrow> length (prefix_of v p) = p"
  by (simp add: prefix_of_def)

lemma prefix_of_Suc: "i < 32 \<Longrightarrow> prefix_of v (Suc i) = prefix_of v i @ [bit v (31 - i)]"
  by (simp add: prefix_of_def take_Suc_conv_app_nth) (simp add: bits_of_def)

lemma covers_iff: 
  assumes "p \<le> 32"
  shows "covers n p v \<longleftrightarrow> prefix_of n p = prefix_of v p"
proof
  assume c: "covers n p v"
  show "prefix_of n p = prefix_of v p"
  proof (rule nth_equalityI)
    fix i assume "i < length (prefix_of n p)"
    then have i: "i < p" using assms by simp
    have "bit (drop_bit (32 - p) n) (p - Suc i) = bit (drop_bit (32 - p) v) (p - Suc i)"
      using c by (simp add: covers_def)
    moreover have "32 - p + (p - Suc i) = 31 - i" using i assms by simp
    ultimately show "prefix_of n p ! i = prefix_of v p ! i"
      using i assms by (simp add: prefix_of_def bits_of_def bit_drop_bit_eq)
  qed (use assms in simp)
next
  assume e: "prefix_of n p = prefix_of v p"
  show "covers n p v"
    unfolding covers_def
  proof (rule bit_word_eqI)
    fix k assume "k < LENGTH(32)"
    show "bit (drop_bit (32 - p) n) k = bit (drop_bit (32 - p) v) k"
    proof (cases "32 - p + k < 32")
      case True
      then have "31 - (32 - p + k) < p" "31 - (31 - (32 - p + k)) = 32 - p + k" using assms by auto
      with arg_cong [OF e, of "\<lambda>l. l ! (31 - (32 - p + k))"] assms show ?thesis
        by (simp add: prefix_of_def bits_of_def bit_drop_bit_eq)
    next
      case False
      then show ?thesis by (auto simp: bit_drop_bit_eq dest!: bit_imp_le_length)
    qed
  qed
qed

section \<open>The contract of a prefix table\<close>

text \<open>
  \<open>act_at t q\<close> is the action stored for the prefix \<open>q\<close>. An insertion never replaces
  an action; a lookup returns the deepest one on the path of the address.
\<close>

lemma deepest_None_iff: "deepest f v k = None \<longleftrightarrow> (\<forall>j \<le> k. f (prefix_of v j) = None)"
  by (induction k) (auto simp: le_Suc_eq split: option.splits)

lemma deepest_Some_iff:
  "deepest f v k = Some a \<longleftrightarrow>
     (\<exists>j \<le> k. f (prefix_of v j) = Some a \<and> (\<forall>i. j < i \<and> i \<le> k \<longrightarrow> f (prefix_of v i) = None))"
proof (induction k)
  case (Suc k)
  show ?case
  proof (cases "f (prefix_of v (Suc k))")
    case None
    then have "(\<exists>j \<le> Suc k. f (prefix_of v j) = Some a \<and> (\<forall>i. j < i \<and> i \<le> Suc k \<longrightarrow> f (prefix_of v i) = None))
        \<longleftrightarrow> (\<exists>j \<le> k. f (prefix_of v j) = Some a \<and> (\<forall>i. j < i \<and> i \<le> k \<longrightarrow> f (prefix_of v i) = None))"
      by (metis le_Suc_eq option.distinct(1))
    with None Suc show ?thesis by simp
  next
    case (Some b)
    then show ?thesis by (auto simp: not_less_eq_eq intro: exI [of _ "Suc k"])
        (metis le_Suc_eq le_neq_implies_less option.distinct(1) order_refl option.inject)
  qed
qed simp

definition add_rule :: "(bool list \<Rightarrow> 'a option) \<Rightarrow> 'a cidr_rule \<Rightarrow> bool list \<Rightarrow> 'a option" where
  "add_rule f r q =
     (case r of (n, p, a) \<Rightarrow> if q = prefix_of n p \<and> f q = None then Some a else f q)"

definition agrees :: "'a cidr_rule option \<Rightarrow> (bool list \<Rightarrow> 'a option) \<Rightarrow> u32 \<Rightarrow> bool" where
  "agrees r f v \<longleftrightarrow>
     (case r of
        None \<Rightarrow> \<forall>j \<le> 32. f (prefix_of v j) = None
      | Some (n, p, a) \<Rightarrow> p \<le> 32 \<and> f (prefix_of v p) = Some a \<and>
          (\<forall>i. p < i \<and> i \<le> 32 \<longrightarrow> f (prefix_of v i) = None))"

lemma agrees_deepest: "agrees r f v \<Longrightarrow> map_option (\<lambda>(n, p, a). a) r = deepest f v 32"
  by (cases r) (auto simp: agrees_def deepest_None_iff [THEN iffD2]
      intro!: deepest_Some_iff [THEN iffD2, symmetric])

lemma prefix_of_eq_iff:
  "p \<le> 32 \<Longrightarrow> j \<le> 32 \<Longrightarrow> prefix_of v j = prefix_of n p \<longleftrightarrow> j = p \<and> covers n p v"
  by (metis covers_iff length_prefix_of)

lemma agrees_add_rule:
  assumes "agrees r f v" and "p \<le> 32"
  shows "agrees (if covers n p v then better r (n, p, a) else r) (add_rule f (n, p, a)) v"
  using assms
  by (cases r) (auto simp: agrees_def add_rule_def prefix_of_eq_iff not_less)

locale prefix_table =
  fixes empty :: 't
    and insert :: "'t \<Rightarrow> u32 \<Rightarrow> nat \<Rightarrow> 'a \<Rightarrow> 't"
    and get :: "'t \<Rightarrow> u32 \<Rightarrow> 'a option"
    and act_at :: "'t \<Rightarrow> bool list \<Rightarrow> 'a option"
  assumes act_empty: "act_at empty q = None"
    and act_insert: "p \<le> 32 \<Longrightarrow> act_at (insert t n p a) = add_rule (act_at t) (n, p, a)"
    and get_deepest: "get t v = deepest (act_at t) v 32"
begin

lemma build_agrees:
  "\<forall>(n, p, a) \<in> set rs. p \<le> 32 \<Longrightarrow>
     agrees (lpm_rule rs v) (act_at (foldl (\<lambda>t (n, p, a). insert t n p a) empty rs)) v"
proof (induction rs rule: rev_induct)
  case Nil
  then show ?case by (simp add: lpm_rule_def agrees_def act_empty)
next
  case (snoc r rs)
  obtain n p a where r: "r = (n, p, a)" by (cases r)
  with snoc.prems have p: "p \<le> 32" and rs: "\<forall>(n, p, a) \<in> set rs. p \<le> 32" by simp_all
  have "lpm_rule (rs @ [r]) v =
      (if covers n p v then better (lpm_rule rs v) (n, p, a) else lpm_rule rs v)"
    by (simp add: lpm_rule_def r)
  with agrees_add_rule [OF snoc.IH [OF rs] p, of n a] p r show ?case
    by (simp add: act_insert)
qed

lemma get_build:
  "\<forall>(n, p, a) \<in> set rs. p \<le> 32 \<Longrightarrow>
     get (foldl (\<lambda>t (n, p, a). insert t n p a) empty rs) v = lpm rs v"
  by (simp add: get_deepest lpm_def agrees_deepest [OF build_agrees])

end

section \<open>The trie implements it\<close>

fun trie_at :: "'a prefix_trie \<Rightarrow> bool list \<Rightarrow> 'a option" where
  "trie_at t [] = trie_action t"
| "trie_at t (b # bs) =
     (case trie_child t (if b then 1 else 0) of None \<Rightarrow> None | Some c \<Rightarrow> trie_at c bs)"

lemma trie_bit_eq: "trie_bit v i = (if bit v (31 - i) then 1 else 0)"
  by (simp add: trie_bit_def and_one_eq bit_iff_odd_drop_bit mod_2_eq_odd)

lemma trie_at_default [simp]: "trie_at PrefixTrie_default q = None"
  by (cases q) (simp_all add: PrefixTrie_default_def)

lemma drop_prefix_of:
  "i < p \<Longrightarrow> p \<le> 32 \<Longrightarrow> drop i (prefix_of v p) = bit v (31 - i) # drop (Suc i) (prefix_of v p)"
  by (subst Cons_nth_drop_Suc [symmetric]) (simp_all add: prefix_of_def bits_of_def)

lemma trie_at_insert_from:
  assumes "i \<le> p" and "p \<le> 32"
  shows "trie_at (insert_from i v p a t) q =
    (if q = drop i (prefix_of v p) \<and> trie_at t q = None then Some a else trie_at t q)"
  using assms
proof (induction i v p a t arbitrary: q rule: insert_from.induct)
  case (1 i v p a c0 c1 act)
  show ?case
  proof (cases "i < p")
    case False
    with "1.prems" show ?thesis
      by (cases q) (auto simp: insert_from.simps split: option.splits)
  next
    case True
    note path = drop_prefix_of [OF True "1.prems"(2), of v]
    show ?thesis
    proof (cases "trie_bit v i = 0")
      case zero: True
      with "1.IH"(1) [OF True zero] True "1.prems" path show ?thesis
        by (cases q) (auto simp: insert_from.simps trie_bit_eq split: option.splits if_splits)
    next
      case one: False
      with "1.IH"(2) [OF True one] True "1.prems" path show ?thesis
        by (cases q) (auto simp: insert_from.simps trie_bit_eq split: option.splits if_splits)
    qed
  qed
qed

definition last_some :: "(nat \<Rightarrow> 'a option) \<Rightarrow> 'a option \<Rightarrow> nat list \<Rightarrow> 'a option" where
  "last_some g b ks = foldl (\<lambda>b k. case g k of None \<Rightarrow> b | Some a \<Rightarrow> Some a) b ks"

lemma last_some_None: "(\<And>k. k \<in> set ks \<Longrightarrow> g k = None) \<Longrightarrow> last_some g b ks = b"
  unfolding last_some_def by (induction ks) simp_all

lemma last_some_cong: "(\<And>k. k \<in> set ks \<Longrightarrow> g k = h k) \<Longrightarrow> last_some g b ks = last_some h b ks"
  unfolding last_some_def by (induction ks arbitrary: b) simp_all

lemma deepest_last_some: "deepest f v k = last_some (\<lambda>j. f (prefix_of v j)) (f []) [1..<Suc k]"
  by (induction k) (simp_all add: last_some_def split: option.splits)

lemma get_from_last_some:
  "i \<le> 32 \<Longrightarrow>
     get_from i v best t = last_some (\<lambda>k. trie_at t (drop i (prefix_of v k))) best [Suc i..<33]"
proof (induction i v best t rule: get_from.induct)
  case (1 i v best t)
  show ?case
  proof (cases "i < 32")
    case False
    with 1 show ?thesis by (subst get_from.simps) (simp add: last_some_def)
  next
    case True
    have at: "trie_at t (drop i (prefix_of v k)) =
        (case trie_child t (trie_bit v i) of
           None \<Rightarrow> None | Some c \<Rightarrow> trie_at c (drop (Suc i) (prefix_of v k)))"
      if "k \<in> set [Suc i..<33]" for k
      using that by (simp add: drop_prefix_of trie_bit_eq)
    show ?thesis
    proof (cases "trie_child t (trie_bit v i)")
      case None
      have "last_some (\<lambda>k. trie_at t (drop i (prefix_of v k))) best [Suc i..<33] = best"
        by (rule last_some_None) (simp add: at None)
      with True None show ?thesis by (simp add: get_from.simps [of i])
    next
      case (Some c)
      let ?g = "\<lambda>k. trie_at c (drop (Suc i) (prefix_of v k))"
      have "last_some (\<lambda>k. trie_at t (drop i (prefix_of v k))) best [Suc i..<33] =
          last_some ?g best [Suc i..<33]"
        by (rule last_some_cong) (simp add: at Some)
      also have "\<dots> = last_some ?g (if trie_action c \<noteq> None then trie_action c else best) [Suc (Suc i)..<33]"
        using True by (simp add: upt_conv_Cons last_some_def split: option.splits)
      also have "\<dots> = get_from i v best t"
        using True "1.IH" [OF True Some] by (simp add: get_from.simps [of i] Some)
      finally show ?thesis by simp
    qed
  qed
qed

interpretation ip_rules: prefix_table PrefixTrie_default PrefixTrie_insert PrefixTrie_get trie_at
proof unfold_locales
  fix p t n q and a :: 'a assume "p \<le> (32 :: nat)"
  then show "trie_at (PrefixTrie_insert t n p a) = add_rule (trie_at t) (n, p, a)"
    by (auto simp: fun_eq_iff PrefixTrie_insert_def trie_at_insert_from add_rule_def)
next
  fix t :: "'a prefix_trie" and v
  show "PrefixTrie_get t v = deepest (trie_at t) v 32"
    by (simp add: PrefixTrie_get_def get_from_last_some deepest_last_some)
qed simp

end
