(* ===== verification/Rule.thy ===== *)
theory Rule
  imports Proxy Prefix_Trie
begin

text \<open>
  \<open>src/rule.rs\<close> above the trie: the syntax of \<open>--rule\<close>, the matcher built from the
  rules in command-line order, and its two lookups. The regex crate is a parameter
  (\<open>regex_api\<close>): whether an expression compiles, how a literal is escaped, and which
  members of a set match a host.
\<close>

section \<open>Rules\<close>

record match_action =
  ma_proxy :: proxy_config

datatype rule_match =
    RuleIp ipv4
  | RuleCidr ipv4 nat
  | RuleDomain string
  | RuleDomainRegex string

datatype rule_error =
    MissingKind string
  | BadIp string
  | BadCidr string
  | BadNetwork string
  | BadPrefix string
  | PrefixOutOfRange string nat
  | EmptyDomain string
  | BadRegex string
  | UnknownKind string string
  | MissingProxy string
  | EmptyMatch string
  | EmptyProxy string
  | BadProxy string proxy_error
  | BadRegexSet

record regex_api =
  re_ok :: "string \<Rightarrow> bool"
  re_escape :: "string \<Rightarrow> string"
  re_set_ok :: "string list \<Rightarrow> bool"
  re_set_matches :: "string list \<Rightarrow> string \<Rightarrow> nat list"

definition RuleMatch_parse :: "regex_api \<Rightarrow> string \<Rightarrow> (rule_match, rule_error) result" where
  "RuleMatch_parse re spec =
     (case split_once (CHR '':'') spec of
        None \<Rightarrow> Err (MissingKind spec)
      | Some (k, value) \<Rightarrow>
          if k = ''ip'' then
            and_then (ok_or (parse_ipv4 value) (BadIp spec)) (\<lambda>addr. Ok (RuleIp addr))
          else if k = ''cidr'' then
            (case split_once (CHR ''/'') value of
               None \<Rightarrow> Err (BadCidr spec)
             | Some (network, prefix) \<Rightarrow>
                 and_then (ok_or (parse_ipv4 network) (BadNetwork spec)) (\<lambda>n.
                 and_then (ok_or (parse_uint 255 prefix) (BadPrefix spec)) (\<lambda>p.
                   if p > 32 then Err (PrefixOutOfRange spec p) else Ok (RuleCidr n p))))
          else if k = ''domain'' then
            (if value = [] then Err (EmptyDomain spec) else Ok (RuleDomain value))
          else if k = ''domain-regex'' then
            (if re_ok re value then Ok (RuleDomainRegex value) else Err (BadRegex spec))
          else Err (UnknownKind spec k))"

section \<open>The matcher\<close>

record rule_matcher =
  rm_domains :: "string list option"
  rm_domain_actions :: "match_action list"
  rm_cidr :: "match_action prefix_trie"

definition RuleMatcher_default :: rule_matcher where
  "RuleMatcher_default =
     \<lparr>rm_domains = None, rm_domain_actions = [], rm_cidr = PrefixTrie_default\<rparr>"

text \<open>One full specification \<open>MATCH=ROUTE\<close>: the head of the loop body of \<open>from_specs\<close>.\<close>

definition parse_spec ::
  "regex_api \<Rightarrow> string \<Rightarrow> (rule_match \<times> match_action, rule_error) result" where
  "parse_spec re full_spec =
     (case split_once (CHR ''='') full_spec of
        None \<Rightarrow> Err (MissingProxy full_spec)
      | Some (match_spec, proxy_spec) \<Rightarrow>
          if match_spec = [] then Err (EmptyMatch full_spec)
          else if proxy_spec = [] then Err (EmptyProxy full_spec)
          else and_then (map_err (BadProxy full_spec) (ProxyConfig_parse proxy_spec)) (\<lambda>proxy.
               and_then (RuleMatch_parse re match_spec) (\<lambda>m. Ok (m, \<lparr>ma_proxy = proxy\<rparr>))))"

definition exact_pattern :: "regex_api \<Rightarrow> string \<Rightarrow> string" where
  "exact_pattern re domain = ''(?i)^'' @ re_escape re domain @ ''$''"

record rule_acc =
  ra_patterns :: "string list"
  ra_actions :: "match_action list"
  ra_cidr :: "match_action prefix_trie"

text \<open>The tail of the loop body: where a parsed rule goes.\<close>

fun add_match :: "regex_api \<Rightarrow> rule_acc \<Rightarrow> rule_match \<times> match_action \<Rightarrow> rule_acc" where
  "add_match re acc (RuleIp addr, action) =
     acc\<lparr>ra_cidr := PrefixTrie_insert (ra_cidr acc) addr 32 action\<rparr>"
| "add_match re acc (RuleCidr network prefix, action) =
     acc\<lparr>ra_cidr := PrefixTrie_insert (ra_cidr acc) network prefix action\<rparr>"
| "add_match re acc (RuleDomain domain, action) =
     acc\<lparr>ra_patterns := ra_patterns acc @ [exact_pattern re domain],
         ra_actions := ra_actions acc @ [action]\<rparr>"
| "add_match re acc (RuleDomainRegex pattern, action) =
     acc\<lparr>ra_patterns := ra_patterns acc @ [pattern],
         ra_actions := ra_actions acc @ [action]\<rparr>"

fun specs_loop :: "regex_api \<Rightarrow> string list \<Rightarrow> rule_acc \<Rightarrow> (rule_acc, rule_error) result" where
  "specs_loop re [] acc = Ok acc"
| "specs_loop re (spec # specs) acc =
     and_then (parse_spec re spec) (\<lambda>m. specs_loop re specs (add_match re acc m))"

definition from_specs :: "regex_api \<Rightarrow> string list \<Rightarrow> (rule_matcher, rule_error) result" where
  "from_specs re specs =
     and_then (specs_loop re specs
                \<lparr>ra_patterns = [], ra_actions = [], ra_cidr = PrefixTrie_default\<rparr>) (\<lambda>acc.
     and_then (if ra_patterns acc = [] then Ok None
               else if re_set_ok re (ra_patterns acc) then Ok (Some (ra_patterns acc))
               else Err BadRegexSet) (\<lambda>domains.
       Ok \<lparr>rm_domains = domains, rm_domain_actions = ra_actions acc, rm_cidr = ra_cidr acc\<rparr>))"

definition match_domain :: "regex_api \<Rightarrow> rule_matcher \<Rightarrow> string \<Rightarrow> proxy_config option" where
  "match_domain re m host =
     (case rm_domains m of
        None \<Rightarrow> None
      | Some ps \<Rightarrow>
          (case re_set_matches re ps host of
             [] \<Rightarrow> None
           | i # _ \<Rightarrow> Some (ma_proxy (rm_domain_actions m ! i))))"

definition match_ip :: "rule_matcher \<Rightarrow> ipv4 \<Rightarrow> proxy_config option" where
  "match_ip m a = map_option ma_proxy (PrefixTrie_get (rm_cidr m) a)"

section \<open>Specification\<close>

text \<open>
  The rules a list of specifications denotes, in command-line order, split into address
  rules and domain rules.
\<close>

fun ip_rule :: "rule_match \<times> match_action \<Rightarrow> match_action cidr_rule list" where
  "ip_rule (RuleIp addr, action) = [(addr, 32, action)]"
| "ip_rule (RuleCidr network prefix, action) = [(network, prefix, action)]"
| "ip_rule (RuleDomain d, action) = []"
| "ip_rule (RuleDomainRegex r, action) = []"

fun domain_rule :: "regex_api \<Rightarrow> rule_match \<times> match_action \<Rightarrow> (string \<times> match_action) list" where
  "domain_rule re (RuleIp addr, action) = []"
| "domain_rule re (RuleCidr network prefix, action) = []"
| "domain_rule re (RuleDomain d, action) = [(exact_pattern re d, action)]"
| "domain_rule re (RuleDomainRegex r, action) = [(r, action)]"

fun parse_all :: "regex_api \<Rightarrow> string list \<Rightarrow> (rule_match \<times> match_action) list option" where
  "parse_all re [] = Some []"
| "parse_all re (s # ss) =
     (case parse_spec re s of
        Err e \<Rightarrow> None
      | Ok m \<Rightarrow> map_option ((#) m) (parse_all re ss))"

definition ip_rules_of :: "regex_api \<Rightarrow> string list \<Rightarrow> proxy_config cidr_rule list" where
  "ip_rules_of re specs =
     (case parse_all re specs of
        None \<Rightarrow> []
      | Some ms \<Rightarrow> map (\<lambda>(n, p, a). (n, p, ma_proxy a)) (concat (map ip_rule ms)))"

definition domain_rules_of :: "regex_api \<Rightarrow> string list \<Rightarrow> (string \<times> proxy_config) list" where
  "domain_rules_of re specs =
     (case parse_all re specs of
        None \<Rightarrow> []
      | Some ms \<Rightarrow> map (\<lambda>(p, a). (p, ma_proxy a)) (concat (map (domain_rule re) ms)))"

text \<open>
  What the documentation of the regex crate says of \<open>RegexSet::matches\<close>: the indices of
  the members that match, in ascending order, for a given notion of a match.
\<close>

definition regex_set_documented :: "regex_api \<Rightarrow> (string \<Rightarrow> string \<Rightarrow> bool) \<Rightarrow> bool" where
  "regex_set_documented re is_match \<longleftrightarrow>
     (\<forall>ps host. re_set_matches re ps host =
        filter (\<lambda>i. is_match (ps ! i) host) [0..<length ps])"

section \<open>Properties\<close>

lemma RuleMatch_parse_prefix: "RuleMatch_parse re s = Ok (RuleCidr n p) \<Longrightarrow> p \<le> 32"
  by (auto simp: RuleMatch_parse_def and_then_Ok_iff split: option.splits if_splits)

lemma parse_spec_prefix: "parse_spec re s = Ok (RuleCidr n p, a) \<Longrightarrow> p \<le> 32"
  by (auto simp: parse_spec_def and_then_Ok_iff split: option.splits if_splits
      dest: RuleMatch_parse_prefix)

lemma parse_spec_ip_rule:
  "parse_spec re s = Ok m \<Longrightarrow> (n, p, a) \<in> set (ip_rule m) \<Longrightarrow> p \<le> 32"
  by (induction m rule: ip_rule.induct) (auto dest: parse_spec_prefix)

lemma parse_all_ip_rule:
  "parse_all re specs = Some ms \<Longrightarrow> \<forall>(n, p, a) \<in> set (concat (map ip_rule ms)). p \<le> 32"
proof (induction specs arbitrary: ms)
  case (Cons s ss)
  then obtain m ms' where "parse_spec re s = Ok m" "parse_all re ss = Some ms'" "ms = m # ms'"
    by (auto split: result.splits)
  with Cons.IH [of ms'] parse_spec_ip_rule [of re s m] show ?case by fastforce
qed simp

lemma add_match_cidr:
  "ra_cidr (add_match re acc m) =
     foldl (\<lambda>t (n, p, a). PrefixTrie_insert t n p a) (ra_cidr acc) (ip_rule m)"
  by (cases "(re, acc, m)" rule: add_match.cases) simp_all

lemma add_match_domain:
  "ra_patterns (add_match re acc m) = ra_patterns acc @ map fst (domain_rule re m)"
  "ra_actions (add_match re acc m) = ra_actions acc @ map snd (domain_rule re m)"
  by (cases "(re, acc, m)" rule: add_match.cases; simp)+

lemma specs_loop_Ok_iff:
  "specs_loop re specs acc = Ok acc' \<longleftrightarrow>
     (\<exists>ms. parse_all re specs = Some ms \<and> acc' = foldl (add_match re) acc ms)"
  by (induction specs arbitrary: acc) (auto simp: and_then_Ok_iff split: result.splits)

lemma foldl_add_match:
  "ra_cidr (foldl (add_match re) acc ms) =
     foldl (\<lambda>t (n, p, a). PrefixTrie_insert t n p a) (ra_cidr acc) (concat (map ip_rule ms))"
  "ra_patterns (foldl (add_match re) acc ms) =
     ra_patterns acc @ map fst (concat (map (domain_rule re) ms))"
  "ra_actions (foldl (add_match re) acc ms) =
     ra_actions acc @ map snd (concat (map (domain_rule re) ms))"
  by (induction ms arbitrary: acc) (simp_all add: add_match_cidr add_match_domain)

lemma from_specs_OkE:
  assumes "from_specs re specs = Ok m"
  obtains ms where "parse_all re specs = Some ms"
    and "rm_cidr m = foldl (\<lambda>t (n, p, a). PrefixTrie_insert t n p a) PrefixTrie_default
           (concat (map ip_rule ms))"
    and "rm_domains m =
           (let ps = map fst (concat (map (domain_rule re) ms)) in if ps = [] then None else Some ps)"
    and "rm_domain_actions m = map snd (concat (map (domain_rule re) ms))"
  using assms
  by (auto simp: from_specs_def and_then_Ok_iff specs_loop_Ok_iff foldl_add_match Let_def
      split: if_splits)

lemma from_specs_accepts:
  assumes "parse_all re specs = Some ms" and "\<And>ps. ps \<noteq> [] \<Longrightarrow> re_set_ok re ps"
  shows "\<exists>m. from_specs re specs = Ok m"
proof -
  let ?acc0 = "\<lparr>ra_patterns = [], ra_actions = [], ra_cidr = PrefixTrie_default\<rparr>"
  have "specs_loop re specs ?acc0 = Ok (foldl (add_match re) ?acc0 ms)"
    using assms(1) by (simp add: specs_loop_Ok_iff)
  with assms(2) show ?thesis by (simp add: from_specs_def)
qed

lemma map_option_better:
  "map_option (\<lambda>(n, p, a). (n, p, f a)) (better r (n, p, a)) =
     better (map_option (\<lambda>(n, p, a). (n, p, f a)) r) (n, p, f a)"
  by (cases r) auto

lemma lpm_rule_map:
  "lpm_rule (map (\<lambda>(n, p, a). (n, p, f a)) rs) v =
     map_option (\<lambda>(n, p, a). (n, p, f a)) (lpm_rule rs v)"
  unfolding lpm_rule_def
  by (induction rs rule: rev_induct) (auto simp: map_option_better split: prod.splits)

lemma lpm_map: "lpm (map (\<lambda>(n, p, a). (n, p, f a)) rs) v = map_option f (lpm rs v)"
  by (simp add: lpm_def lpm_rule_map option.map_comp o_def case_prod_beta)

text \<open>
  C20. Address rules. Whatever rules are accepted, looking an address up in the trie is
  longest-prefix matching over the address rules in command-line order, the first rule
  winning among equal prefix lengths.
\<close>

theorem match_ip_longest_prefix:
  assumes "from_specs re specs = Ok m"
  shows "match_ip m a = lpm (ip_rules_of re specs) a"
  using assms
proof (rule from_specs_OkE)
  fix ms assume ms: "parse_all re specs = Some ms"
    and cidr: "rm_cidr m = foldl (\<lambda>t (n, p, a). PrefixTrie_insert t n p a) PrefixTrie_default
           (concat (map ip_rule ms))"
  from ip_rules.get_build [OF parse_all_ip_rule [OF ms]] cidr
  show ?thesis by (simp add: match_ip_def ip_rules_of_def ms lpm_map)
qed

lemma hd_filter_index:
  "(case filter (\<lambda>i. P (xs ! i)) [0..<length xs] of [] \<Rightarrow> None | i # _ \<Rightarrow> Some (f (xs ! i))) =
     map_option f (find P xs)"
proof (induction xs)
  case (Cons x xs)
  have "filter (\<lambda>i. P ((x # xs) ! i)) [0..<length (x # xs)] =
      (if P x then [0] else []) @ map Suc (filter (\<lambda>i. P (xs ! i)) [0..<length xs])"
    by (simp add: upt_conv_Cons map_Suc_upt [symmetric] filter_map o_def del: upt_Suc)
  with Cons show ?case by (auto split: list.splits)
qed simp

lemma find_map: "find P (map f xs) = map_option f (find (P \<circ> f) xs)"
  by (induction xs) simp_all

lemma filter_upt_ConsD: "filter P [0..<n] = i # r \<Longrightarrow> i < n"
proof -
  assume "filter P [0..<n] = i # r"
  then have "i \<in> set (filter P [0..<n])" by simp
  then show "i < n" by simp
qed

text \<open>
  C21. Domain rules. Under the documented behaviour of \<open>RegexSet\<close>, the route of a host
  is that of the first domain rule on the command line whose expression matches it, and
  no index falls outside the list of actions.
\<close>

theorem match_domain_first_rule:
  assumes "from_specs re specs = Ok m" and "regex_set_documented re is_match"
  shows "match_domain re m host =
    map_option snd (find (\<lambda>(p, r). is_match p host) (domain_rules_of re specs))"
  using assms(1)
proof (rule from_specs_OkE)
  fix ms
  let ?ds = "concat (map (domain_rule re) ms)"
  assume ms: "parse_all re specs = Some ms"
    and dom: "rm_domains m = (let ps = map fst ?ds in if ps = [] then None else Some ps)"
    and acts: "rm_domain_actions m = map snd ?ds"
  have f: "re_set_matches re (map fst ?ds) host =
      filter (\<lambda>i. (\<lambda>(p, a). is_match p host) (?ds ! i)) [0..<length ?ds]"
    using assms(2) by (auto simp: regex_set_documented_def case_prod_beta intro!: filter_cong)
  have "match_domain re m host =
      (case filter (\<lambda>i. (\<lambda>(p, a). is_match p host) (?ds ! i)) [0..<length ?ds] of
         [] \<Rightarrow> None | i # _ \<Rightarrow> Some (ma_proxy (snd (?ds ! i))))"
  proof (cases "?ds = []")
    case True
    then show ?thesis by (simp add: match_domain_def dom)
  next
    case False
    then have "rm_domains m = Some (map fst ?ds)" by (simp only: dom Let_def) simp
    then show ?thesis
      by (simp only: match_domain_def option.case f acts)
         (auto split: list.splits dest!: filter_upt_ConsD)
  qed
  also have "\<dots> = map_option (\<lambda>d. ma_proxy (snd d)) (find (\<lambda>(p, a). is_match p host) ?ds)"
    by (rule hd_filter_index)
  also have "\<dots> = map_option snd (find (\<lambda>(p, r). is_match p host) (domain_rules_of re specs))"
    by (simp add: domain_rules_of_def ms find_map o_def case_prod_unfold option.map_comp)
  finally show ?thesis .
qed

lemma parse_all_None_iff: "parse_all re specs = None \<longleftrightarrow> (\<exists>s \<in> set specs. \<not> is_ok (parse_spec re s))"
  by (induction specs) (auto split: result.splits)

lemma specs_loop_Err:
  "\<forall>s \<in> set pre. is_ok (parse_spec re s) \<Longrightarrow> parse_spec re bad = Err e \<Longrightarrow>
     specs_loop re (pre @ bad # post) acc = Err e"
  by (induction pre arbitrary: acc) (auto simp: is_ok_iff)

text \<open>
  Rejection. The first bad rule on the command line stops the construction with its
  own error, whatever follows it.
\<close>

lemma from_specs_first_error:
  assumes "\<forall>s \<in> set pre. is_ok (parse_spec re s)" and "parse_spec re bad = Err e"
  shows "from_specs re (pre @ bad # post) = Err e"
  using specs_loop_Err [OF assms] by (simp add: from_specs_def)

section \<open>Concrete rules\<close>

text \<open>
  A regex engine that compiles everything and matches literally, to run the model on
  command lines of the tests.
\<close>

definition literal_re :: regex_api where
  "literal_re = \<lparr>re_ok = (\<lambda>s. True), re_escape = (\<lambda>s. s), re_set_ok = (\<lambda>ps. True),
     re_set_matches = (\<lambda>ps host. filter (\<lambda>i. ps ! i = host) [0..<length ps])\<rparr>"

lemmas parse_eval = url_eval parse_spec_def RuleMatch_parse_def

lemma literal_re_simps [simp]:
  "re_ok literal_re s" "re_escape literal_re s = s" "re_set_ok literal_re ps"
  by (simp_all add: literal_re_def)

lemma literal_re_documented: "regex_set_documented literal_re (=)"
  by (simp add: regex_set_documented_def literal_re_def)

lemma parse_two_rules:
  "parse_all literal_re [''cidr:10.0.0.0/8=direct'', ''ip:10.1.2.3=http://127.0.0.1:8080''] =
     Some [(RuleCidr (ipv4_new 10 0 0 0) 8, \<lparr>ma_proxy = Direct\<rparr>),
           (RuleIp (ipv4_new 10 1 2 3), \<lparr>ma_proxy = Http ''127.0.0.1:8080'' None\<rparr>)]"
  by (simp add: parse_eval)

lemma domain_two_rules:
  "parse_all literal_re [''domain:a.test=socks://127.0.0.1:1080'', ''domain-regex:b=direct''] =
     Some [(RuleDomain ''a.test'', \<lparr>ma_proxy = Socks5 ''127.0.0.1:1080'' None\<rparr>),
           (RuleDomainRegex ''b'', \<lparr>ma_proxy = Direct\<rparr>)]"
  by (simp add: parse_eval)

lemma ip_two_rules:
  "ip_rules_of literal_re [''cidr:10.0.0.0/8=direct'', ''ip:10.1.2.3=http://127.0.0.1:8080''] =
     [(ipv4_new 10 0 0 0, 8, Direct), (ipv4_new 10 1 2 3, 32, Http ''127.0.0.1:8080'' None)]"
  by (simp only: ip_rules_of_def parse_two_rules) simp

lemma domain_rules_two:
  "domain_rules_of literal_re [''domain:a.test=socks://127.0.0.1:1080'', ''domain-regex:b=direct''] =
     [(''(?i)^a.test$'', Socks5 ''127.0.0.1:1080'' None), (''b'', Direct)]"
  by (simp only: domain_rules_of_def domain_two_rules) (simp add: exact_pattern_def)

theorem match_ip_longest_prefix_witness:
  "\<exists>m. from_specs literal_re [''cidr:10.0.0.0/8=direct'', ''ip:10.1.2.3=http://127.0.0.1:8080''] = Ok m
     \<and> match_ip m (ipv4_new 10 1 2 3) = Some (Http ''127.0.0.1:8080'' None)
     \<and> match_ip m (ipv4_new 10 9 9 9) = Some Direct
     \<and> match_ip m (ipv4_new 11 0 0 1) = None"
proof -
  obtain m where m: "from_specs literal_re
      [''cidr:10.0.0.0/8=direct'', ''ip:10.1.2.3=http://127.0.0.1:8080''] = Ok m"
    using from_specs_accepts [OF parse_two_rules] by auto
  show ?thesis
    using m match_ip_longest_prefix [OF m]
    by (simp add: ip_two_rules lpm_def lpm_rule_def covers_def ipv4_new_def from_be_bytes_def)
qed

theorem match_domain_first_rule_witness:
  "\<exists>m. from_specs literal_re [''domain:a.test=socks://127.0.0.1:1080'', ''domain-regex:b=direct''] = Ok m
     \<and> regex_set_documented literal_re (=)
     \<and> match_domain literal_re m ''b'' = Some Direct
     \<and> match_domain literal_re m ''c'' = None"
proof -
  obtain m where m: "from_specs literal_re
      [''domain:a.test=socks://127.0.0.1:1080'', ''domain-regex:b=direct''] = Ok m"
    using from_specs_accepts [OF domain_two_rules] by auto
  show ?thesis
    using m literal_re_documented match_domain_first_rule [OF m literal_re_documented]
    by (simp add: domain_rules_two)
qed

end
