(* ===== verification/Config.thy ===== *)
theory Config
  imports Rule
begin

text \<open>
  \<open>src/config.rs\<close>: the route of a target. Explicit rules come first, then the direct
  default for local addresses, then the route of \<open>-x\<close>.
\<close>

record config =
  cfg_default_proxy :: proxy_config
  cfg_command :: "string list"
  cfg_rules :: rule_matcher

definition DNS_ADDR :: ipv4 where
  "DNS_ADDR = ipv4_new 198 18 0 1"

definition DNS_PORT :: u16 where
  "DNS_PORT = 53"

fun proxy_for :: "regex_api \<Rightarrow> config \<Rightarrow> proxy_target \<Rightarrow> proxy_config" where
  "proxy_for re cfg (Domain host p) =
     (case match_domain re (cfg_rules cfg) host of Some r \<Rightarrow> r | None \<Rightarrow> cfg_default_proxy cfg)"
| "proxy_for re cfg (Ip (V4 a) p) =
     (case match_ip (cfg_rules cfg) a of
        Some r \<Rightarrow> r
      | None \<Rightarrow> if is_loopback a \<or> is_unspecified a then Direct else cfg_default_proxy cfg)"
| "proxy_for re cfg (Ip (V6 a) p) = cfg_default_proxy cfg"

lemma is_loopback_covers: "is_loopback a \<longleftrightarrow> covers (ipv4_new 127 0 0 0) 8 a"
proof -
  have "octets a ! 0 = ucast (drop_bit 24 a)"
    by (simp add: octets_def to_be_bytes_u32)
  moreover have "(ucast (drop_bit 24 a) :: u8) = 127 \<longleftrightarrow> drop_bit 24 a = 127"
  proof
    have m: "(127 :: u32) = mask 7" "(127 :: u8) = mask 7" by (simp_all add: mask_eq_exp_minus_1)
    assume u: "(ucast (drop_bit 24 a) :: u8) = 127"
    show "drop_bit 24 a = 127"
    proof (rule bit_word_eqI)
      fix n assume "n < LENGTH(32)"
      show "bit (drop_bit 24 a) n = bit (127 :: u32) n"
      proof (cases "n < 8")
        case True
        with arg_cong [OF u, of "\<lambda>w. bit w n"] show ?thesis
          by (simp add: bit_simps m)
      next
        case False
        then show ?thesis by (auto simp: bit_simps m dest: bit_imp_le_length)
      qed
    qed
  qed simp
  moreover have "drop_bit 24 (ipv4_new 127 0 0 0) = 127"
    by (simp add: ipv4_new_def from_be_bytes_def)
  ultimately show ?thesis by (auto simp: is_loopback_def covers_def)
qed

lemma is_unspecified_iff: "is_unspecified a \<longleftrightarrow> a = 0"
proof -
  have "octets 0 = [0, 0, 0, 0]" by (simp add: octets_def to_be_bytes_u32)
  then have "is_unspecified a \<longleftrightarrow> octets a = octets 0" by (simp add: is_unspecified_def)
  then show ?thesis by (simp only: octets_inject)
qed

text \<open>
  Routing order for a numeric destination: an explicit address rule decides by longest
  prefix; without one, the addresses of 127.0.0.0/8 and 0.0.0.0 are direct; everything
  else takes the default route.
\<close>

lemma proxy_for_numeric:
  assumes "from_specs re specs = Ok (cfg_rules cfg)"
  shows "proxy_for re cfg (Ip (V4 a) p) =
    (case lpm (ip_rules_of re specs) a of
       Some r \<Rightarrow> r
     | None \<Rightarrow> if covers (ipv4_new 127 0 0 0) 8 a \<or> a = 0 then Direct else cfg_default_proxy cfg)"
  using match_ip_longest_prefix [OF assms]
  by (simp add: is_loopback_covers is_unspecified_iff)

end
