(* ===== verification/Fake_Dns.thy ===== *)
theory Fake_Dns
  imports Config
begin

text \<open>
  \<open>src/fake_dns.rs\<close>: the pool of synthetic addresses with its two mappings, and the DNS
  packet reader and writers.
\<close>

section \<open>The address pool\<close>

definition POOL_START :: u32 where
  "POOL_START = from_be_bytes (octets DNS_ADDR) + 1"

definition POOL_END :: u32 where
  "POOL_END = from_be_bytes [198, 19, 255, 254]"

definition POOL_SIZE :: u32 where
  "POOL_SIZE = POOL_END - POOL_START + 1"

record fake_dns =
  domain_to_ip :: "string \<rightharpoonup> ipv4"
  ip_to_domain :: "ipv4 \<rightharpoonup> string"
  next_offset :: u32

definition FakeDns_new :: fake_dns where
  "FakeDns_new = \<lparr>domain_to_ip = Map.empty, ip_to_domain = Map.empty, next_offset = 0\<rparr>"

text \<open>\<open>ip_to_domain.remove\<close>, and with it the other direction of the evicted mapping.\<close>

definition evict :: "fake_dns \<Rightarrow> ipv4 \<Rightarrow> fake_dns" where
  "evict s a =
     (case ip_to_domain s a of
        None \<Rightarrow> s
      | Some old_domain \<Rightarrow>
          s\<lparr>ip_to_domain := (ip_to_domain s)(a := None),
            domain_to_ip := (domain_to_ip s)(old_domain := None)\<rparr>)"

definition FakeDns_resolve :: "fake_dns \<Rightarrow> string \<Rightarrow> ipv4 \<times> fake_dns" where
  "FakeDns_resolve s domain =
     (case domain_to_ip s domain of
        Some a \<Rightarrow> (a, s)
      | None \<Rightarrow>
          (let a = POOL_START + next_offset s;
               s1 = evict (s\<lparr>next_offset := (next_offset s + 1) mod POOL_SIZE\<rparr>) a
           in (a, s1\<lparr>ip_to_domain := (ip_to_domain s1)(a \<mapsto> domain),
                     domain_to_ip := (domain_to_ip s1)(domain \<mapsto> a)\<rparr>)))"

definition FakeDns_lookup :: "fake_dns \<Rightarrow> ipv4 \<Rightarrow> string option" where
  "FakeDns_lookup s a = ip_to_domain s a"

definition is_fake_ip :: "ipv4 \<Rightarrow> bool" where
  "is_fake_ip a \<longleftrightarrow> a = DNS_ADDR \<or> (POOL_START \<le> a \<and> a \<le> POOL_END)"

section \<open>DNS packets\<close>

text \<open>The QNAME loop: the labels read so far and the position behind the root label.\<close>

function read_labels :: "bytes \<Rightarrow> nat \<Rightarrow> string list \<Rightarrow> (string list \<times> nat) option" where
  "read_labels data pos labels =
     (if pos \<ge> length data then None
      else let label_len = unat (data ! pos)
           in if label_len = 0 then Some (labels, pos + 1)
              else if data ! pos AND 0xC0 \<noteq> 0 then None
              else let start = pos + 1; fin = start + label_len
                   in if fin > length data then None
                      else (case from_utf8 (take label_len (drop start data)) of
                              None \<Rightarrow> None
                            | Some l \<Rightarrow> read_labels data fin (labels @ [l])))"
  by pat_completeness auto
termination
  by (relation "measure (\<lambda>(data, pos, labels). length data - pos)") auto

declare read_labels.simps [simp del]

definition parse_query :: "bytes \<Rightarrow> (u16 \<times> string \<times> u16) option" where
  "parse_query data =
     (if length data < 12 then None
      else let ident = from_be_bytes [data ! 0, data ! 1];
               flags = from_be_bytes [data ! 2, data ! 3] :: u16;
               qdcount = from_be_bytes [data ! 4, data ! 5] :: u16
           in if flags AND 0x8000 \<noteq> 0 then None
              else if qdcount = 0 then None
              else (case read_labels data 12 [] of
                      None \<Rightarrow> None
                    | Some (labels, pos) \<Rightarrow>
                        if pos + 4 > length data then None
                        else let qtype = from_be_bytes [data ! pos, data ! (pos + 1)];
                                 domain = join_with (CHR ''.'') labels
                             in if length domain > 253 then None
                                else Some (ident, domain, qtype)))"

definition encode_label :: "string \<Rightarrow> bytes" where
  "encode_label l = of_nat (length l) # as_bytes l"

definition encode_name :: "string \<Rightarrow> bytes" where
  "encode_name domain =
     (if domain \<noteq> [] then concat (map encode_label (split_on (CHR ''.'') domain)) else []) @ [0]"

definition build_empty_response :: "u16 \<Rightarrow> string \<Rightarrow> u16 \<Rightarrow> bytes" where
  "build_empty_response ident domain qtype =
     to_be_bytes ident @ to_be_bytes (0x8180 :: u16) @ to_be_bytes (1 :: u16) @
     to_be_bytes (0 :: u16) @ to_be_bytes (0 :: u16) @ to_be_bytes (0 :: u16) @
     encode_name domain @ to_be_bytes qtype @ to_be_bytes (1 :: u16)"

definition build_a_response :: "u16 \<Rightarrow> string \<Rightarrow> ipv4 \<Rightarrow> bytes" where
  "build_a_response ident domain a =
     copy_at 6 (to_be_bytes (1 :: u16)) (build_empty_response ident domain 1) @
     to_be_bytes (0xC00C :: u16) @ to_be_bytes (1 :: u16) @ to_be_bytes (1 :: u16) @
     to_be_bytes (300 :: u32) @ to_be_bytes (4 :: u16) @ octets a"

section \<open>Properties of the pool\<close>

lemma DNS_ADDR_val: "DNS_ADDR = 3323068417"
  by (simp add: DNS_ADDR_def ipv4_new_def from_be_bytes_def)

lemma POOL_START_val: "POOL_START = 3323068418"
  by (simp add: POOL_START_def DNS_ADDR_val)

lemma POOL_END_val: "POOL_END = 3323199486"
  by (simp add: POOL_END_def from_be_bytes_def)

lemma POOL_SIZE_val: "POOL_SIZE = 131069"
  by (simp add: POOL_SIZE_def POOL_START_val POOL_END_val)

lemmas pool_vals = DNS_ADDR_val POOL_START_val POOL_END_val POOL_SIZE_val

text \<open>The two mappings are inverse to each other and stay inside the pool.\<close>

definition fake_dns_inv :: "fake_dns \<Rightarrow> bool" where
  "fake_dns_inv s \<longleftrightarrow>
     next_offset s < POOL_SIZE \<and>
     (\<forall>d a. domain_to_ip s d = Some a \<longleftrightarrow> ip_to_domain s a = Some d) \<and>
     (\<forall>a d. ip_to_domain s a = Some d \<longrightarrow> POOL_START \<le> a \<and> a \<le> POOL_END)"

lemma fake_dns_inv_new: "fake_dns_inv FakeDns_new"
  by (simp add: fake_dns_inv_def FakeDns_new_def POOL_SIZE_val)

lemma slot_in_pool:
  assumes "n < POOL_SIZE"
  shows "POOL_START \<le> POOL_START + n" and "POOL_START + n \<le> POOL_END"
proof -
  have "unat n < 131069" using assms by (simp add: word_less_nat_alt POOL_SIZE_val)
  then have "unat (POOL_START + n) = 3323068418 + unat n"
    by (simp add: POOL_START_val unat_word_ariths)
  with \<open>unat n < 131069\<close> show "POOL_START \<le> POOL_START + n" and "POOL_START + n \<le> POOL_END"
    by (simp_all add: word_le_nat_alt POOL_START_val POOL_END_val)
qed

lemma next_slot_bound: "(n :: u32) mod POOL_SIZE < POOL_SIZE"
  by (simp add: POOL_SIZE_val word_mod_less_divisor)

text \<open>A fresh allocation, spelled out on the two maps.\<close>

definition forget :: "fake_dns \<Rightarrow> ipv4 \<Rightarrow> string \<rightharpoonup> ipv4" where
  "forget s a =
     (case ip_to_domain s a of None \<Rightarrow> domain_to_ip s | Some d \<Rightarrow> (domain_to_ip s)(d := None))"

lemma resolve_fresh:
  assumes "domain_to_ip s d = None"
  shows "FakeDns_resolve s d =
    (let a = POOL_START + next_offset s
     in (a, \<lparr>domain_to_ip = (forget s a)(d \<mapsto> a), ip_to_domain = (ip_to_domain s)(a \<mapsto> d),
             next_offset = (next_offset s + 1) mod POOL_SIZE\<rparr>))"
  using assms
  by (cases s) (auto simp: FakeDns_resolve_def Let_def evict_def forget_def split: option.splits)

lemma resolve_known: "domain_to_ip s d = Some a \<Longrightarrow> FakeDns_resolve s d = (a, s)"
  by (simp add: FakeDns_resolve_def)

lemma inverse_maps_update:
  assumes "\<forall>d a. f d = Some a \<longleftrightarrow> g a = Some d" and "f d = None"
    and "h = (case g a of None \<Rightarrow> f | Some e \<Rightarrow> f(e := None))"
  shows "\<forall>e b. (h(d \<mapsto> a)) e = Some b \<longleftrightarrow> (g(a \<mapsto> d)) b = Some e"
proof (intro allI)
  fix e b
  from assms(1,2) have "g b \<noteq> Some d" for b by (metis option.distinct(1))
  moreover have "g a = Some e \<Longrightarrow> f e = Some a" using assms(1) by blast
  moreover have "f e = Some b \<longleftrightarrow> g b = Some e" using assms(1) by blast
  ultimately show "(h(d \<mapsto> a)) e = Some b \<longleftrightarrow> (g(a \<mapsto> d)) b = Some e"
    by (cases "g a") (auto simp: assms(3))
qed

lemma fake_dns_inv_resolve:
  assumes inv: "fake_dns_inv s" and r: "FakeDns_resolve s d = (a, s')"
  shows "fake_dns_inv s'"
proof (cases "domain_to_ip s d")
  case (Some b)
  with r inv show ?thesis by (simp add: resolve_known)
next
  case None
  let ?a = "POOL_START + next_offset s"
  have pool: "POOL_START \<le> ?a" "?a \<le> POOL_END"
    using inv slot_in_pool by (simp_all add: fake_dns_inv_def)
  have "\<forall>e b. ((forget s ?a)(d \<mapsto> ?a)) e = Some b \<longleftrightarrow> ((ip_to_domain s)(?a \<mapsto> d)) b = Some e"
    using inv None by (intro inverse_maps_update) (auto simp: fake_dns_inv_def forget_def)
  moreover have "domain_to_ip s' = (forget s ?a)(d \<mapsto> ?a)"
    and "ip_to_domain s' = (ip_to_domain s)(?a \<mapsto> d)"
    and "next_offset s' = (next_offset s + 1) mod POOL_SIZE"
    using r by (auto simp: resolve_fresh [OF None] Let_def)
  moreover have "((ip_to_domain s)(?a \<mapsto> d)) b = Some e \<longrightarrow> POOL_START \<le> b \<and> b \<le> POOL_END" for b e
    using inv pool by (simp add: fake_dns_inv_def)
  ultimately show ?thesis
    by (simp only: fake_dns_inv_def next_slot_bound) simp
qed

interpretation pool: two_way_map fake_dns_inv domain_to_ip FakeDns_lookup
  by unfold_locales (simp add: fake_dns_inv_def FakeDns_lookup_def)

section \<open>Runs of the pool\<close>

fun resolve_all :: "fake_dns \<Rightarrow> string list \<Rightarrow> fake_dns" where
  "resolve_all s [] = s"
| "resolve_all s (d # ds) = resolve_all (snd (FakeDns_resolve s d)) ds"

lemma fake_dns_inv_resolve_all: "fake_dns_inv s \<Longrightarrow> fake_dns_inv (resolve_all s ds)"
  by (induction ds arbitrary: s) (auto intro: fake_dns_inv_resolve prod.collapse [symmetric])

text \<open>
  C22. The pool invariant holds in every reachable state: both directions of the mapping
  agree, every fake address lies in the pool, none is the reserved DNS address, and the
  next slot is a valid one.
\<close>

theorem pool_bijection:
  "let s = resolve_all FakeDns_new ds
   in next_offset s < POOL_SIZE
      \<and> (\<forall>d a. domain_to_ip s d = Some a \<longleftrightarrow> FakeDns_lookup s a = Some d)
      \<and> ran (domain_to_ip s) \<subseteq> {POOL_START..POOL_END}
      \<and> DNS_ADDR \<notin> ran (domain_to_ip s)"
proof -
  have inv: "fake_dns_inv (resolve_all FakeDns_new ds)"
    by (intro fake_dns_inv_resolve_all fake_dns_inv_new)
  then have "ran (domain_to_ip (resolve_all FakeDns_new ds)) \<subseteq> {POOL_START..POOL_END}"
    by (auto simp: pool.ran_fwd fake_dns_inv_def FakeDns_lookup_def)
  moreover have "\<not> POOL_START \<le> DNS_ADDR" by (simp add: pool_vals)
  moreover have "next_offset (resolve_all FakeDns_new ds) < POOL_SIZE"
    using inv by (simp add: fake_dns_inv_def)
  ultimately show ?thesis by (auto simp: Let_def pool.inverse [OF inv])
qed

section \<open>How long a mapping lives\<close>

text \<open>
  Slots are handed out in a ring. The distance of an address from the next slot is the number
  of allocations that happen before its slot is reused.
\<close>

definition slot_of :: "ipv4 \<Rightarrow> nat" where
  "slot_of a = unat (a - POOL_START)"

definition slot_distance :: "fake_dns \<Rightarrow> ipv4 \<Rightarrow> nat" where
  "slot_distance s a = (slot_of a + 131069 - unat (next_offset s)) mod 131069"

lemma slot_of_next: "slot_of (POOL_START + n) = unat n"
  by (simp add: slot_of_def)

lemma inv_offset: "fake_dns_inv s \<Longrightarrow> unat (next_offset s) < 131069"
  by (simp add: fake_dns_inv_def word_less_nat_alt POOL_SIZE_val)

lemma unat_next_slot:
  "unat n < 131069 \<Longrightarrow> unat ((n + 1) mod POOL_SIZE) = (unat n + 1) mod 131069"
  by (simp add: unat_mod_distrib POOL_SIZE_val unat_word_ariths)

lemma resolve_distance:
  assumes inv: "fake_dns_inv s" and r: "FakeDns_resolve s e = (b, s')"
    and a: "ip_to_domain s a = Some d" and far: "0 < slot_distance s a"
  shows "ip_to_domain s' a = Some d" and "slot_distance s a \<le> slot_distance s' a + 1"
proof -
  have "ip_to_domain s' a = Some d \<and> slot_distance s a \<le> slot_distance s' a + 1"
  proof (cases "domain_to_ip s e")
    case (Some c)
    with r a show ?thesis by (simp add: resolve_known)
  next
    case None
    let ?n = "unat (next_offset s)"
    have n: "?n < 131069" by (rule inv_offset [OF inv])
    have "POOL_START \<le> a" "a \<le> POOL_END" using inv a by (auto simp: fake_dns_inv_def)
    then have k: "slot_of a < 131069"
      by (simp add: slot_of_def POOL_START_val POOL_END_val word_le_nat_alt unat_sub)
    have ne: "slot_of a \<noteq> ?n" using far n by (auto simp: slot_distance_def)
    then have "a \<noteq> POOL_START + next_offset s" by (auto simp: slot_of_next)
    with r None a have "ip_to_domain s' a = Some d"
      and "next_offset s' = (next_offset s + 1) mod POOL_SIZE"
      by (auto simp: resolve_fresh Let_def)
    moreover from this n have next': "unat (next_offset s') = (?n + 1) mod 131069"
      by (simp add: unat_next_slot)
    moreover have "slot_distance s a \<le> slot_distance s' a + 1"
    proof (cases "?n + 1 < 131069")
      case True
      then show ?thesis using next' k n ne
        by (cases "slot_of a < ?n") (auto simp: slot_distance_def mod_if)
    next
      case False
      with n have "?n = 131068" by simp
      then show ?thesis using next' k ne by (auto simp: slot_distance_def mod_if)
    qed
    ultimately show ?thesis by simp
  qed
  then show "ip_to_domain s' a = Some d" and "slot_distance s a \<le> slot_distance s' a + 1"
    by simp_all
qed

lemma resolve_all_survives:
  "fake_dns_inv s \<Longrightarrow> ip_to_domain s a = Some d \<Longrightarrow> length es \<le> slot_distance s a \<Longrightarrow>
     ip_to_domain (resolve_all s es) a = Some d"
proof (induction es arbitrary: s)
  case (Cons e es)
  obtain b s' where r: "FakeDns_resolve s e = (b, s')" by fastforce
  have "0 < slot_distance s a" using Cons.prems(3) by auto
  note step = resolve_distance [OF Cons.prems(1) r Cons.prems(2) this]
  have "length es \<le> slot_distance s' a" using step(2) Cons.prems(3) by simp
  with Cons.IH [OF fake_dns_inv_resolve [OF Cons.prems(1) r] step(1)] r show ?case by simp
qed simp

lemma fresh_distance:
  assumes "fake_dns_inv s" and "domain_to_ip s d = None" and "FakeDns_resolve s d = (a, s')"
  shows "slot_distance s' a = 131068" and "ip_to_domain s' a = Some d"
proof -
  let ?n = "unat (next_offset s)"
  have n: "?n < 131069" by (rule inv_offset [OF assms(1)])
  from assms(2,3) have a: "a = POOL_START + next_offset s"
    and "next_offset s' = (next_offset s + 1) mod POOL_SIZE" and "ip_to_domain s' a = Some d"
    by (auto simp: resolve_fresh Let_def)
  then have "unat (next_offset s') = (?n + 1) mod 131069" using n by (simp add: unat_next_slot)
  with n a show "slot_distance s' a = 131068"
    by (cases "?n = 131068") (simp_all add: slot_distance_def slot_of_next mod_if)
  show "ip_to_domain s' a = Some d" by fact
qed

lemma resolve_all_append: "resolve_all s (ds @ es) = resolve_all (resolve_all s ds) es"
  by (induction ds arbitrary: s) auto

text \<open>
  C23. A fake address keeps its meaning while it is in use: after any history, the address
  handed out for a new domain is translated back to that domain, and the domain keeps that
  address, through fewer than 131069 further resolutions, whatever they ask for.
\<close>

theorem mapping_survives:
  assumes "domain_to_ip (resolve_all FakeDns_new ds) d = None"
    and "FakeDns_resolve (resolve_all FakeDns_new ds) d = (a, s)"
    and "length es < unat POOL_SIZE"
  shows "FakeDns_lookup (resolve_all s es) a = Some d
         \<and> FakeDns_resolve (resolve_all s es) d = (a, resolve_all s es)"
proof -
  have inv: "fake_dns_inv (resolve_all FakeDns_new ds)"
    by (intro fake_dns_inv_resolve_all fake_dns_inv_new)
  note inv_s = fake_dns_inv_resolve [OF this assms(2)]
  note fresh = fresh_distance [OF inv assms(1,2)]
  have "length es \<le> slot_distance s a" using assms(3) fresh(1) by (simp add: POOL_SIZE_val)
  then have "ip_to_domain (resolve_all s es) a = Some d"
    by (rule resolve_all_survives [OF inv_s fresh(2)])
  moreover from this have "domain_to_ip (resolve_all s es) d = Some a"
    using fake_dns_inv_resolve_all [OF inv_s, of es] by (simp add: pool.inverse FakeDns_lookup_def)
  ultimately show ?thesis by (simp add: FakeDns_lookup_def resolve_known)
qed

theorem mapping_survives_witness:
  "FakeDns_lookup (resolve_all (snd (FakeDns_resolve (resolve_all FakeDns_new [''a'']) ''b''))
     [''c'', ''a'']) 3323068419 = Some ''b''"
  using mapping_survives [of "[''a'']" "''b''" 3323068419
      "snd (FakeDns_resolve (resolve_all FakeDns_new [''a'']) ''b'')" "[''c'', ''a'']"]
  by (simp add: FakeDns_resolve_def FakeDns_new_def evict_def Let_def pool_vals)

section \<open>Queries and responses\<close>

text \<open>
  A name on the wire is its labels and the root label. The reader accepts a name exactly when
  every label is 1 to 63 bytes of UTF-8.
\<close>

definition wire_name :: "string list \<Rightarrow> bytes" where
  "wire_name labels = concat (map encode_label labels) @ [0]"

definition wire_label :: "string \<Rightarrow> bool" where
  "wire_label l \<longleftrightarrow> 1 \<le> length l \<and> length l \<le> 63 \<and> utf8_valid (as_bytes l)"

lemma length_byte: "n < 256 \<Longrightarrow> unat (of_nat n :: u8) = n"
  by (simp add: unat_of_nat)

lemma high_bits_clear_iff: "(b :: u8) AND 0xC0 = 0 \<longleftrightarrow> unat b \<le> 63"
proof -
  have "b AND 0xC0 = 0 \<longleftrightarrow> \<not> bit b 6 \<and> \<not> bit b 7"
    by (auto simp: word_eq_iff_bits numeral_eq_Suc All_less_Suc bit_simps dest: bit_imp_le_length)
  also have "\<dots> \<longleftrightarrow> drop_bit 6 b = 0"
    by (auto simp: word_eq_iff_bits numeral_eq_Suc All_less_Suc bit_simps dest: bit_imp_le_length)
  also have "\<dots> \<longleftrightarrow> unat b div 64 = 0"
    by (simp add: word_unat_eq_iff drop_bit_eq_div unat_div_distrib)
  finally show ?thesis by auto
qed

lemma wire_name_simps [simp]:
  "wire_name [] = [0]"
  "wire_name (l # ls) = of_nat (length l) # as_bytes l @ wire_name ls"
  by (simp_all add: wire_name_def encode_label_def)

lemma read_labels_wire:
  "\<forall>l \<in> set ls. wire_label l \<Longrightarrow> data = pre @ wire_name ls @ rest \<Longrightarrow>
     read_labels data (length pre) acc = Some (acc @ ls, length pre + length (wire_name ls))"
proof (induction ls arbitrary: pre acc)
  case Nil
  then show ?case by (subst read_labels.simps) (simp add: Let_def)
next
  case (Cons l ls)
  let ?n = "of_nat (length l) :: u8"
  let ?pre = "pre @ ?n # as_bytes l"
  from Cons.prems have l: "1 \<le> length l" "length l \<le> 63" "utf8_valid (as_bytes l)"
    by (simp_all add: wire_label_def)
  then have n: "unat ?n = length l" by (simp add: unat_of_nat_small)
  have at: "data ! length pre = ?n" and len: "length pre < length data"
    and piece: "take (length l) (drop (length pre + 1) data) = as_bytes l"
    and fits: "length pre + 1 + length l \<le> length data"
    using Cons.prems(2) by (simp_all add: nth_append)
  have clear: "?n AND 0xC0 = 0" using l n by (simp add: high_bits_clear_iff)
  have "read_labels data (length pre) acc = read_labels data (length ?pre) (acc @ [l])"
    using l n at len piece fits clear
    by (subst read_labels.simps) (auto simp: Let_def from_utf8_def)
  also have "\<dots> = Some ((acc @ [l]) @ ls, length ?pre + length (wire_name ls))"
    using Cons.prems by (intro Cons.IH) simp_all
  finally show ?case by simp
qed

lemma read_labels_sound:
  "read_labels data pos acc = Some (ls, fin) \<Longrightarrow>
     \<exists>ms. ls = acc @ ms \<and> (\<forall>l \<in> set ms. wire_label l) \<and> fin \<le> length data
          \<and> drop pos data = wire_name ms @ drop fin data"
proof (induction data pos acc rule: read_labels.induct)
  case (1 data pos acc)
  let ?n = "unat (data ! pos)"
  from "1.prems" have pos: "pos < length data" by (subst (asm) read_labels.simps) (auto split: if_splits)
  have head: "drop pos data = data ! pos # drop (pos + 1) data"
    using pos by (simp add: Cons_nth_drop_Suc)
  show ?case
  proof (cases "?n = 0")
    case True
    with "1.prems" pos have "ls = acc" "fin = pos + 1"
      by (subst (asm) read_labels.simps, simp add: Let_def)+
    moreover have "data ! pos = 0" using True by (simp add: unat_eq_0)
    ultimately show ?thesis using head pos by (intro exI [of _ "[]"]) simp
  next
    case False
    with "1.prems" pos obtain l where clear: "data ! pos AND 0xC0 = 0"
      and fits: "pos + 1 + ?n \<le> length data"
      and l: "from_utf8 (take ?n (drop (pos + 1) data)) = Some l"
      and rest: "read_labels data (pos + 1 + ?n) (acc @ [l]) = Some (ls, fin)"
      by (subst (asm) read_labels.simps) (auto simp: Let_def split: if_splits option.splits)
    from l have b: "as_bytes l = take ?n (drop (pos + 1) data)" and u: "utf8_valid (as_bytes l)"
      by (auto simp: from_utf8_Some_iff)
    have len: "length l = ?n" using arg_cong [OF b, of length] fits by simp
    then have "wire_label l"
      using False u clear by (simp add: wire_label_def high_bits_clear_iff)
    moreover obtain ms where "ls = acc @ [l] @ ms" "\<forall>l \<in> set ms. wire_label l" "fin \<le> length data"
      "drop (pos + 1 + ?n) data = wire_name ms @ drop fin data"
      using "1.IH" [of ?n "pos + 1" "pos + 1 + ?n" l] pos False clear fits l rest by auto
    moreover have "drop (pos + 1) data = as_bytes l @ drop (pos + 1 + ?n) data"
      using b by (metis append_take_drop_id drop_drop add.commute)
    ultimately show ?thesis using head len by (intro exI [of _ "l # ms"]) simp
  qed
qed

lemma high_bit_u16: "(w :: u16) AND 0x8000 = 0 \<longleftrightarrow> \<not> bit w 15"
  by (auto simp: word_eq_iff_bits numeral_eq_Suc All_less_Suc bit_simps dest: bit_imp_le_length)

lemma two_bytes: "to_be_bytes (from_be_bytes [a, b] :: u16) = [a, b]"
  by simp

lemma parse_query_header:
  fixes ident flags qdcount :: u16
  assumes "length counts = 6"
    and "data = to_be_bytes ident @ to_be_bytes flags @ to_be_bytes qdcount @ counts @ body"
  shows "parse_query data =
    (if bit flags 15 \<or> qdcount = 0 then None
     else (case read_labels data 12 [] of
             None \<Rightarrow> None
           | Some (labels, pos) \<Rightarrow>
               if pos + 4 > length data \<or> length (join_with (CHR ''.'') labels) > 253 then None
               else Some (ident, join_with (CHR ''.'') labels,
                          from_be_bytes [data ! pos, data ! (pos + 1)])))"
proof -
  from assms have "12 \<le> length data" by simp
  moreover from assms have "[data ! 0, data ! 1] = to_be_bytes ident"
    "[data ! 2, data ! 3] = to_be_bytes flags" "[data ! 4, data ! 5] = to_be_bytes qdcount"
    by (simp_all add: to_be_bytes_u16 nth_Cons')
  then have "from_be_bytes [data ! 0, data ! 1] = ident"
    "from_be_bytes [data ! 2, data ! 3] = flags" "from_be_bytes [data ! 4, data ! 5] = qdcount"
    by simp_all
  ultimately show ?thesis
    by (simp add: parse_query_def Let_def high_bit_u16 split: option.split)
qed

lemma query_split:
  assumes "12 \<le> length data"
  obtains ident flags qdcount :: u16 and counts body where
    "data = to_be_bytes ident @ to_be_bytes flags @ to_be_bytes qdcount @ counts @ body"
    and "length counts = 6" and "body = drop 12 data"
proof -
  obtain a b c d e f g where data: "data = a # b # c # d # e # f # g"
    using assms by (auto simp: numeral_eq_Suc Suc_le_length_iff)
  show ?thesis
  proof (rule that [of "from_be_bytes [a, b]" "from_be_bytes [c, d]" "from_be_bytes [e, f]"
          "take 6 g" "drop 6 g"])
  qed (use data assms in simp_all)
qed

text \<open>
  C26. Which packets are accepted as queries, and what is read from them: exactly those with
  a header of a query, at least one question, a name whose labels are 1 to 63 bytes of UTF-8
  and at most 253 bytes when joined by dots, and a type and a class behind the name.
\<close>

theorem parse_query_exact:
  "parse_query data = Some (ident, domain, qtype) \<longleftrightarrow>
     (\<exists>flags qdcount counts labels rest.
        data = to_be_bytes ident @ to_be_bytes (flags :: u16) @ to_be_bytes (qdcount :: u16)
               @ counts @ wire_name labels @ to_be_bytes qtype @ rest
        \<and> length counts = 6 \<and> 2 \<le> length rest
        \<and> \<not> bit flags 15 \<and> qdcount \<noteq> 0
        \<and> list_all wire_label labels
        \<and> domain = join_with (CHR ''.'') labels \<and> length domain \<le> 253)"
    (is "?parse \<longleftrightarrow> ?wire")
proof
  assume p: ?parse
  then have len: "12 \<le> length data" by (simp add: parse_query_def Let_def split: if_splits)
  obtain i flags qdcount :: u16 and counts body where
    data: "data = to_be_bytes i @ to_be_bytes flags @ to_be_bytes qdcount @ counts @ body"
    and c: "length counts = 6" and body: "body = drop 12 data"
    using len by (rule query_split)
  from p obtain labels pos where rd: "read_labels data 12 [] = Some (labels, pos)"
    and ok: "\<not> bit flags 15" "qdcount \<noteq> 0" "pos + 4 \<le> length data"
    and dom: "domain = join_with (CHR ''.'') labels" "length domain \<le> 253" and id: "i = ident"
    and qt: "qtype = from_be_bytes [data ! pos, data ! (pos + 1)]"
    by (auto simp: parse_query_header [OF c data] split: if_splits option.splits)
  from read_labels_sound [OF rd] have wl: "\<forall>l \<in> set labels. wire_label l"
    and nm: "body = wire_name labels @ drop pos data" by (auto simp: body)
  have "drop pos data = [data ! pos, data ! (pos + 1)] @ drop (pos + 2) data"
    using ok(3) by (simp add: Cons_nth_drop_Suc)
  also have "[data ! pos, data ! (pos + 1)] = to_be_bytes qtype" by (simp add: qt)
  finally have tail: "drop pos data = to_be_bytes qtype @ drop (pos + 2) data" .
  have "data = to_be_bytes ident @ to_be_bytes flags @ to_be_bytes qdcount @ counts
        @ wire_name labels @ to_be_bytes qtype @ drop (pos + 2) data"
    by (subst data) (simp only: nm tail id)
  then show ?wire using ok c dom wl
    by (intro exI [of _ flags] exI [of _ qdcount] exI [of _ counts] exI [of _ labels]
        exI [of _ "drop (pos + 2) data"]) (simp add: list_all_iff)
next
  assume ?wire
  then obtain flags qdcount :: u16 and counts labels rest where
    data: "data = to_be_bytes ident @ to_be_bytes flags @ to_be_bytes qdcount @ counts
           @ wire_name labels @ to_be_bytes qtype @ rest"
    and c: "length counts = 6" and r: "2 \<le> length rest" and ok: "\<not> bit flags 15" "qdcount \<noteq> 0"
    and wl: "\<forall>l \<in> set labels. wire_label l"
    and dom: "domain = join_with (CHR ''.'') labels" "length domain \<le> 253"
    by (auto simp: list_all_iff)
  let ?pre = "to_be_bytes ident @ to_be_bytes flags @ to_be_bytes qdcount @ counts"
  have pre: "length ?pre = 12" using c by simp
  have "read_labels data (length ?pre) [] = Some ([] @ labels, length ?pre + length (wire_name labels))"
    by (rule read_labels_wire [OF wl, where rest = "to_be_bytes qtype @ rest"]) (simp add: data)
  moreover have "drop (length ?pre + length (wire_name labels)) data = to_be_bytes qtype @ rest"
    by (simp add: data)
  moreover from this have "[data ! (length ?pre + length (wire_name labels)),
      data ! (length ?pre + length (wire_name labels) + 1)] = to_be_bytes qtype"
    by (simp add: data nth_append to_be_bytes_u16)
  ultimately show ?parse
    using r ok dom unfolding pre parse_query_header [OF c data]
    by (simp add: data c)
qed

lemma join_with_not_Nil: "l \<noteq> [] \<Longrightarrow> join_with d (l # ls) \<noteq> []"
  by (cases ls) simp_all

lemma encode_name_join:
  assumes "list_all wire_label labels" and "list_all (\<lambda>l. CHR ''.'' \<notin> set l) labels"
  shows "encode_name (join_with (CHR ''.'') labels) = wire_name labels"
proof (cases labels)
  case (Cons l ls)
  then have "join_with (CHR ''.'') labels \<noteq> []"
    using assms(1) join_with_not_Nil [of l "CHR ''.''" ls] by (cases l) (simp_all add: wire_label_def)
  moreover have "split_on (CHR ''.'') (join_with (CHR ''.'') labels) = labels"
    using Cons assms(2) by (intro split_join_with) (auto simp: list_all_iff)
  ultimately show ?thesis by (simp add: encode_name_def wire_name_def)
qed (simp add: encode_name_def)

lemma length_encode_labels:
  "ws \<noteq> [] \<Longrightarrow> length (concat (map encode_label ws)) = length (join_with d ws) + 1"
  by (induction d ws rule: join_with.induct) (simp_all add: encode_label_def)

lemma length_encode_name: "length (encode_name d) = (if d = [] then 1 else length d + 2)"
  using length_encode_labels [of "split_on (CHR ''.'') d" "CHR ''.''"]
  by (simp add: encode_name_def del: length_concat)

lemma length_build_empty_response [simp]:
  "length (build_empty_response ident d qtype) = 16 + length (encode_name d)"
  by (simp add: build_empty_response_def)

lemma length_build_a_response [simp]:
  "length (build_a_response ident d a) = 32 + length (encode_name d)"
  by (simp add: build_a_response_def)

lemma parse_query_fields:
  assumes "parse_query data = Some (ident, domain, qtype)"
    and "read_labels data 12 [] = Some (labels, pos)"
  shows "to_be_bytes ident = take 2 data" and "domain = join_with (CHR ''.'') labels"
    and "take (pos - 12 + 2) (drop 12 data) = wire_name labels @ to_be_bytes qtype"
    and "list_all wire_label labels" and "length domain \<le> 253"
proof -
  have len: "12 \<le> length data"
    using assms(1) by (simp add: parse_query_def Let_def split: if_splits)
  then obtain a b r where data: "data = a # b # r" by (auto simp: numeral_eq_Suc Suc_le_length_iff)
  have pos: "pos + 4 \<le> length data" and ident: "ident = from_be_bytes [data ! 0, data ! 1]"
    and qtype: "qtype = from_be_bytes [data ! pos, data ! (pos + 1)]"
    and "domain = join_with (CHR ''.'') labels" "length domain \<le> 253"
    using assms by (auto simp: parse_query_def Let_def split: if_splits)
  then show "domain = join_with (CHR ''.'') labels" and "length domain \<le> 253" by simp_all
  show "to_be_bytes ident = take 2 data" by (simp add: ident data)
  from read_labels_sound [OF assms(2)] show "list_all wire_label labels"
    by (auto simp: list_all_iff)
  from read_labels_sound [OF assms(2)] have d: "drop 12 data = wire_name labels @ drop pos data"
    by simp
  have "12 + length (wire_name labels) + (length data - pos) = length data"
    using arg_cong [OF d, of length] len by simp
  with pos have p: "pos - 12 = length (wire_name labels)" by linarith
  have "take 2 (drop pos data) = [data ! pos, data ! (pos + 1)]"
    using pos by (simp add: take_Suc_conv_app_nth numeral_2_eq_2)
  then show "take (pos - 12 + 2) (drop 12 data) = wire_name labels @ to_be_bytes qtype"
    unfolding d p by (simp add: qtype)
qed

lemmas response_bytes =
  build_empty_response_def build_a_response_def copy_at_def to_be_bytes_u16 to_be_bytes_u32


text \<open>
  Sizes: every response to an accepted query fits in 287 bytes, so the 16-bit length in
  front of a DNS message over TCP never overflows, and no response is accepted as a query.
\<close>

lemma response_bounds:
  assumes "parse_query data = Some (ident, domain, qtype)"
  shows "length (build_a_response ident domain a) \<le> 287
         \<and> length (build_empty_response ident domain qtype) \<le> 271
         \<and> parse_query (build_a_response ident domain a) = None
         \<and> parse_query (build_empty_response ident domain qtype) = None"
proof -
  have "length domain \<le> 253"
    using assms by (auto simp: parse_query_def Let_def split: if_splits option.splits)
  moreover have "parse_query (build_a_response ident domain a) = None"
    "parse_query (build_empty_response ident domain qtype) = None"
    by (simp_all add: response_bytes parse_query_def Let_def from_be_bytes_def)
  ultimately show ?thesis by (simp add: length_encode_name)
qed

subsection \<open>Concrete packets\<close>

lemmas packet_eval =
  parse_query_def read_labels.simps Let_def from_be_bytes_def from_utf8_def of_bytes_def
  char_of_byte_def char_of_def bit_0 nth_Cons' drop_Cons' take_Cons'

lemma read_labels_ab:
  "read_labels [0, 7, 1, 0, 0, 1, 0, 0, 0, 0, 0, 0, 1, 97, 1, 98, 0, 0, 1, 0, 1] 12 [] =
     Some ([''a'', ''b''], 17)"
  by (simp add: packet_eval)

lemma parse_query_ab:
  "parse_query [0, 7, 1, 0, 0, 1, 0, 0, 0, 0, 0, 0, 1, 97, 1, 98, 0, 0, 1, 0, 1] =
     Some (7, ''a.b'', 1)"
  by (subst parse_query_def, subst read_labels_ab) (simp add: Let_def from_be_bytes_def nth_Cons')



end
