(* ===== verification/Dns.thy ===== *)
theory Dns
  imports Fake_Dns "HOL-Library.AList"
begin

text \<open>
  \<open>src/broker/dns.rs\<close>: the resolver over the fake address pool, the table of virtual DNS
  servers, and the UDP and TCP service loops.

  What the kernel returns is an argument: the outcome of binding a socket, the datagrams
  received, the bytes of a connection. A hash map whose size the code reads is an association
  list with distinct keys.
\<close>

section \<open>The resolver\<close>

definition virtual_address :: sock_addr_v4 where
  "virtual_address = sock_addr DNS_ADDR DNS_PORT"

definition is_dns :: "sock_addr_v4 \<Rightarrow> bool" where
  "is_dns address \<longleftrightarrow> sa_port address = DNS_PORT"

record resolver =
  mapping :: fake_dns

definition Resolver_default :: resolver where
  "Resolver_default = \<lparr>mapping = FakeDns_new\<rparr>"

definition Resolver_target :: "resolver \<Rightarrow> sock_addr_v4 \<Rightarrow> proxy_target io_result" where
  "Resolver_target r address =
     (if is_fake_ip (sa_ip address)
      then and_then (ok_or (FakeDns_lookup (mapping r) (sa_ip address)) (Os ENETUNREACH))
             (\<lambda>domain. Ok (Domain domain (sa_port address)))
      else Ok (Ip (V4 (sa_ip address)) (sa_port address)))"

definition Resolver_answer :: "resolver \<Rightarrow> bytes \<Rightarrow> bytes option \<times> resolver" where
  "Resolver_answer r query =
     (case parse_query query of
        None \<Rightarrow> (None, r)
      | Some (ident, domain, qtype) \<Rightarrow>
          if qtype = 1
          then (let (ip, m) = FakeDns_resolve (mapping r) domain
                in (Some (build_a_response ident domain ip), r\<lparr>mapping := m\<rparr>))
          else (Some (build_empty_response ident domain qtype), r))"

section \<open>The servers\<close>

record servers =
  forward :: "(sock_addr_v4 \<times> sock_addr_v4) list"
  reverse :: "(sock_addr_v4 \<times> sock_addr_v4) list"

record dns =
  dns_resolver :: resolver
  dns_servers :: servers
  dns_tasks :: "sock_addr_v4 list"

text \<open>
  \<open>bound\<close> is the outcome of binding, naming and registering the local UDP socket. A
  task is named by the socket it serves.
\<close>

definition server_for :: "sock_addr_v4 io_result \<Rightarrow> dns \<Rightarrow> sock_addr_v4 \<Rightarrow> sock_addr_v4 io_result \<times> dns" where
  "server_for bound d destination =
     (if \<not> is_dns destination then (Err (Os ENETUNREACH), d)
      else case map_of (forward (dns_servers d)) destination of
        Some local \<Rightarrow> (Ok local, d)
      | None \<Rightarrow>
          if length (forward (dns_servers d)) \<ge> 128 then (Err (Os ENOBUFS), d)
          else case bound of
            Err e \<Rightarrow> (Err e, d)
          | Ok local \<Rightarrow>
              (Ok local,
               d\<lparr>dns_tasks := local # dns_tasks d,
                 dns_servers :=
                   \<lparr>forward = AList.update destination local (forward (dns_servers d)),
                    reverse = AList.update local destination (reverse (dns_servers d))\<rparr>\<rparr>))"

definition Dns_new :: "sock_addr_v4 io_result \<Rightarrow> dns io_result" where
  "Dns_new bound =
     (let d = \<lparr>dns_resolver = Resolver_default, dns_servers = \<lparr>forward = [], reverse = []\<rparr>,
               dns_tasks = []\<rparr>
      in case server_for bound d virtual_address of
           (Ok local, d') \<Rightarrow> Ok d'
         | (Err e, d') \<Rightarrow> Err e)"

definition original_server :: "dns \<Rightarrow> sock_addr_v4 \<Rightarrow> sock_addr_v4 option" where
  "original_server d local = map_of (reverse (dns_servers d)) local"

definition Dns_target :: "dns \<Rightarrow> sock_addr_v4 \<Rightarrow> proxy_target io_result" where
  "Dns_target d address = Resolver_target (dns_resolver d) address"

text \<open>
  \<open>run\<close> waits for the first service task that ends: \<open>None\<close> is an empty set, the inner
  error a task that panicked or was cancelled. Every outcome is an error.
\<close>

definition Dns_run :: "(unit io_result, unit) result option \<Rightarrow> unit io_result" where
  "Dns_run joined =
     (case joined of
        Some (Ok (Err e)) \<Rightarrow> Err e
      | Some (Err p) \<Rightarrow> Err (Custom OtherKind)
      | _ \<Rightarrow> Err (Custom OtherKind))"

section \<open>The service loops\<close>

text \<open>
  \<open>serve_udp\<close> over the outcomes of the successive \<open>recv_from\<close> calls. It gives the
  replies it sends in order (whether the kernel takes them is ignored by the code), the
  resolver, and the error it stops with; \<open>None\<close> when it is waiting for the next datagram.
\<close>

fun serve_udp ::
  "(bytes \<times> sock_addr_v4) io_result list \<Rightarrow> resolver
     \<Rightarrow> (bytes \<times> sock_addr_v4) list \<times> resolver \<times> io_error option" where
  "serve_udp [] r = ([], r, None)"
| "serve_udp (Err e # ps) r =
     (if raw_os_error e = Some ENOMEM \<or> raw_os_error e = Some ENOBUFS then serve_udp ps r
      else ([], r, Some e))"
| "serve_udp (Ok (packet, source) # ps) r =
     (let (response, r1) = Resolver_answer r packet;
          (sent, r2, stop) = serve_udp ps r1
      in (case response of None \<Rightarrow> sent | Some bs \<Rightarrow> (bs, source) # sent, r2, stop))"

text \<open>
  One exchange of \<open>serve_tcp\<close>: read a length, a query of that length, write the length of
  the response and the response. \<open>Hang\<close> is an exchange that the timeout cuts off.
\<close>

definition exchange :: "tcp \<Rightarrow> resolver \<Rightarrow> (bool, wait_error) result \<times> tcp \<times> resolver" where
  "exchange t r =
     (case read_exact 2 t of
        (Err e, t1) \<Rightarrow>
          (case e of
             Io er \<Rightarrow> (if kind er = UnexpectedEof then Ok False else Err e, t1, r)
           | Hang \<Rightarrow> (Err Hang, t1, r))
      | (Ok prefix, t1) \<Rightarrow>
          (case read_exact (unat (from_be_bytes prefix :: u16)) t1 of
             (Err e, t2) \<Rightarrow> (Err e, t2, r)
           | (Ok query, t2) \<Rightarrow>
               (case Resolver_answer r query of
                  (None, r1) \<Rightarrow> (Err (Io (Custom InvalidData)), t2, r1)
                | (Some response, r1) \<Rightarrow>
                    if length response \<ge> 2 ^ 16 then (Err (Io (Custom InvalidData)), t2, r1)
                    else (case write_all (to_be_bytes (of_nat (length response) :: u16)) t2 of
                            (Err e, t3) \<Rightarrow> (Err e, t3, r1)
                          | (Ok u, t3) \<Rightarrow>
                              (case write_all response t3 of
                                 (Err e, t4) \<Rightarrow> (Err e, t4, r1)
                               | (Ok u, t4) \<Rightarrow> (Ok True, t4, r1))))))"

fun timed :: "wait_error \<Rightarrow> io_error" where
  "timed (Io e) = e"
| "timed Hang = Custom TimedOut"

lemma exchange_shrinks:
  assumes "exchange t r = (Ok True, t', r')"
  shows "length (tcp_content t') < length (tcp_content t)"
proof -
  obtain a t1 where r1: "read_exact 2 t = (Ok a, t1)"
    using assms by (auto simp: exchange_def split: prod.splits result.splits wait_error.splits if_splits)
  then obtain q t2 where r2: "read_exact (unat (from_be_bytes a :: u16)) t1 = (Ok q, t2)"
    using assms by (auto simp: exchange_def split: prod.splits result.splits)
  with r1 have "tcp_content t' = tcp_content t2"
    using assms write_all_keeps
    by (fastforce simp: exchange_def split: prod.splits result.splits option.splits if_splits)
  moreover have "tcp_content t = a @ q @ tcp_content t2" "length a = 2"
    using read_exact_Ok [OF r1] read_exact_Ok [OF r2] by simp_all
  ultimately show ?thesis by simp
qed

text \<open>The loop of \<open>serve_tcp\<close>: it ends because every further exchange consumes bytes.\<close>

function serve_tcp :: "tcp \<Rightarrow> resolver \<Rightarrow> unit io_result \<times> tcp \<times> resolver" where
  "serve_tcp t r =
     (case exchange t r of
        (Ok True, t1, r1) \<Rightarrow> serve_tcp t1 r1
      | (Ok False, t1, r1) \<Rightarrow> (Ok (), t1, r1)
      | (Err e, t1, r1) \<Rightarrow> (Err (timed e), t1, r1))"
  by pat_completeness auto
termination
  by (relation "measure (\<lambda>(t, r). length (tcp_content t))") (auto dest: exchange_shrinks [OF sym])

declare serve_tcp.simps [simp del]

section \<open>The table of servers\<close>

definition servers_inv :: "dns \<Rightarrow> bool" where
  "servers_inv d \<longleftrightarrow>
     length (forward (dns_servers d)) \<le> 128 \<and>
     list_all (\<lambda>(destination, local). is_dns destination) (forward (dns_servers d)) \<and>
     (\<forall>destination local. map_of (forward (dns_servers d)) destination = Some local \<longleftrightarrow>
        original_server d local = Some destination)"

abbreviation server_at :: "dns \<Rightarrow> sock_addr_v4 \<Rightarrow> sock_addr_v4 option" where
  "server_at d \<equiv> map_of (forward (dns_servers d))"

interpretation server_table: two_way_map servers_inv server_at original_server
  by unfold_locales (simp add: servers_inv_def)

text \<open>The kernel does not bind two open sockets to one address.\<close>

definition fresh_local :: "dns \<Rightarrow> sock_addr_v4 io_result \<Rightarrow> bool" where
  "fresh_local d bound \<longleftrightarrow> (\<forall>local. bound = Ok local \<longrightarrow> original_server d local = None)"

lemma fresh_localI:
  "(\<And>l x. original_server d l = Some x \<Longrightarrow> bound \<noteq> Ok l) \<Longrightarrow> fresh_local d bound"
  unfolding fresh_local_def by (metis option.exhaust)

lemma server_for_cases:
  obtains (kept) res where "server_for bound d destination = (res, d)"
      "\<And>local. res = Ok local \<Longrightarrow> server_at d destination = Some local"
  | (added) local where "bound = Ok local" "is_dns destination" "server_at d destination = None"
      "length (forward (dns_servers d)) < 128"
      "server_for bound d destination =
         (Ok local, d\<lparr>dns_tasks := local # dns_tasks d,
            dns_servers := \<lparr>forward = AList.update destination local (forward (dns_servers d)),
                            reverse = AList.update local destination (reverse (dns_servers d))\<rparr>\<rparr>)"
  by (cases "is_dns destination"; cases "server_at d destination";
      cases "length (forward (dns_servers d)) \<ge> 128"; cases bound)
    (auto simp: server_for_def intro: kept added)

lemma update_new_append: "map_of xs k = None \<Longrightarrow> AList.update k v xs = xs @ [(k, v)]"
  by (induction xs) (auto split: if_splits)

lemma servers_inv_server_for:
  assumes inv: "servers_inv d" and fresh: "fresh_local d bound"
    and s: "server_for bound d destination = (res, d')"
  shows "servers_inv d'" and "res = Ok local \<Longrightarrow> server_at d' destination = Some local"
proof -
  have "servers_inv d' \<and> (res = Ok local \<longrightarrow> server_at d' destination = Some local)"
  proof (cases rule: server_for_cases [of bound d destination])
    case (kept r)
    with s inv show ?thesis by auto
  next
    case (added l)
    from fresh added(1) have r: "map_of (reverse (dns_servers d)) l = None"
      by (simp add: fresh_local_def original_server_def)
    have inverse: "server_at d x = Some y \<longleftrightarrow> map_of (reverse (dns_servers d)) y = Some x" for x y
      using inv by (simp add: servers_inv_def original_server_def)
    have "server_at d' x = Some y \<longleftrightarrow> original_server d' y = Some x" for x y
      using s added inverse [of x y] inverse [of x l] inverse [of destination y] r
      by (auto simp: update_conv' original_server_def)
    moreover have "length (forward (dns_servers d')) \<le> 128"
      "list_all (\<lambda>(destination, local). is_dns destination) (forward (dns_servers d'))"
      using s added inv by (auto simp: servers_inv_def update_new_append)
    moreover have "res = Ok l" "server_at d' destination = Some l"
      using s added by (auto simp: update_conv')
    ultimately show ?thesis by (auto simp: servers_inv_def)
  qed
  then show "servers_inv d'" and "res = Ok local \<Longrightarrow> server_at d' destination = Some local"
    by simp_all
qed

text \<open>A history of calls, each with the outcome of its bind.\<close>

fun server_calls :: "(sock_addr_v4 io_result \<times> sock_addr_v4) list \<Rightarrow> dns \<Rightarrow> dns" where
  "server_calls [] d = d"
| "server_calls ((bound, destination) # cs) d =
     server_calls cs (snd (server_for bound d destination))"

lemma server_for_locals:
  "server_for bound d destination = (res, d') \<Longrightarrow> original_server d' l = Some x \<Longrightarrow>
     original_server d l = Some x \<or> bound = Ok l"
  by (cases rule: server_for_cases [of bound d destination])
    (auto simp: original_server_def update_conv' split: if_splits)

lemma server_calls_inv:
  "servers_inv d \<Longrightarrow> distinct (ok_values (map fst cs)) \<Longrightarrow>
     (\<And>l x. original_server d l = Some x \<Longrightarrow> l \<notin> set (ok_values (map fst cs))) \<Longrightarrow>
     servers_inv (server_calls cs d) \<and>
     (\<forall>l x. original_server (server_calls cs d) l = Some x \<longrightarrow>
        original_server d l = Some x \<or> l \<in> set (ok_values (map fst cs)))"
proof (induction cs arbitrary: d)
  case (Cons c cs)
  obtain bound destination where c: "c = (bound, destination)" by fastforce
  obtain res d' where s: "server_for bound d destination = (res, d')" by fastforce
  have fresh: "fresh_local d bound"
    using Cons.prems(3) c by (intro fresh_localI) force
  have "l \<notin> set (ok_values (map fst cs))" if "original_server d' l = Some x" for l x
    using server_for_locals [OF s that] Cons.prems(2,3) c by (cases bound) auto
  moreover have "distinct (ok_values (map fst cs))" using Cons.prems(2) c by (cases bound) auto
  ultimately have "servers_inv (server_calls cs d') \<and>
     (\<forall>l x. original_server (server_calls cs d') l = Some x \<longrightarrow>
        original_server d' l = Some x \<or> l \<in> set (ok_values (map fst cs)))"
    using Cons.IH [of d'] servers_inv_server_for(1) [OF Cons.prems(1) fresh s] by blast
  moreover have "server_calls (c # cs) d = server_calls cs d'" using c s by simp
  moreover have "set (ok_values (map fst (c # cs))) =
    set (ok_values (map fst cs)) \<union> {l. bound = Ok l}" using c by (cases bound) auto
  ultimately show ?case using server_for_locals [OF s] by simp blast
qed simp

lemma servers_inv_new:
  assumes "Dns_new bound = Ok d"
  shows "servers_inv d" and "original_server d l = Some x \<Longrightarrow> bound = Ok l"
  using assms
  by (cases bound; auto simp: Dns_new_def server_for_def is_dns_def virtual_address_def Let_def
      servers_inv_def original_server_def split: if_splits)+

text \<open>
  C25. Replies come from the server the application asked: after any history of calls in which
  the kernel never bound one address twice, the local server handed out for a destination is
  translated back to that destination and to no other, the destination is a DNS port, and at
  most 128 servers exist.
\<close>

theorem virtual_server_reversed:
  assumes "Dns_new bound0 = Ok d0"
    and "distinct (ok_values (bound0 # map fst calls @ [bound]))"
    and "server_for bound (server_calls calls d0) destination = (Ok local, d)"
  shows "original_server d local = Some destination
         \<and> (\<forall>l. original_server d l = Some destination \<longleftrightarrow> l = local)
         \<and> is_dns destination \<and> length (forward (dns_servers d)) \<le> 128"
proof -
  have start: "\<And>l x. original_server d0 l = Some x \<Longrightarrow> l \<notin> set (ok_values (map fst calls))"
    and dist: "distinct (ok_values (map fst calls))"
    using assms(2) servers_inv_new(2) [OF assms(1)] by (cases bound0; force)+
  have run: "servers_inv (server_calls calls d0) \<and>
      (\<forall>l x. original_server (server_calls calls d0) l = Some x \<longrightarrow>
         original_server d0 l = Some x \<or> l \<in> set (ok_values (map fst calls)))"
    using start by (intro server_calls_inv servers_inv_new(1) [OF assms(1)] dist) auto
  have "fresh_local (server_calls calls d0) bound"
  proof (rule fresh_localI)
    fix l x assume "original_server (server_calls calls d0) l = Some x"
    with run have "original_server d0 l = Some x \<or> l \<in> set (ok_values (map fst calls))" by blast
    with servers_inv_new(2) [OF assms(1)] assms(2) show "bound \<noteq> Ok l" by (cases bound0) auto
  qed
  note step = servers_inv_server_for [OF run [THEN conjunct1] this assms(3)]
  have at: "server_at d destination = Some local" using step(2) by simp
  then have "is_dns destination"
    using step(1) by (auto simp: servers_inv_def list_all_iff dest!: map_of_SomeD)
  moreover have "length (forward (dns_servers d)) \<le> 128" using step(1) by (simp add: servers_inv_def)
  moreover have "original_server d l = Some destination \<longleftrightarrow> l = local" for l
    using at server_table.inverse [OF step(1), of destination l] by auto
  ultimately show ?thesis by blast
qed

definition port_at :: "u16 \<Rightarrow> sock_addr_v4 io_result" where
  "port_at p = Ok (sock_addr LOCALHOST p)"

theorem virtual_server_reversed_witness:
  "\<exists>d0 d. Dns_new (port_at 4000) = Ok d0
     \<and> server_for (port_at 4002) (server_calls [(port_at 4001, sock_addr 7 DNS_PORT)] d0)
           (sock_addr 9 DNS_PORT) = (Ok (sock_addr LOCALHOST 4002), d)
     \<and> original_server d (sock_addr LOCALHOST 4002) = Some (sock_addr 9 DNS_PORT)"
proof -
  obtain d0 where d0: "Dns_new (port_at 4000) = Ok d0"
    by (simp add: Dns_new_def server_for_def is_dns_def virtual_address_def port_at_def Let_def)
  let ?calls = "[(port_at 4001, sock_addr 7 DNS_PORT)]"
  have s: "server_for (port_at 4002) (server_calls ?calls d0) (sock_addr 9 DNS_PORT) =
    (Ok (sock_addr LOCALHOST 4002),
     snd (server_for (port_at 4002) (server_calls ?calls d0) (sock_addr 9 DNS_PORT)))"
    using d0 by (auto simp: Dns_new_def server_for_def is_dns_def virtual_address_def Let_def
        port_at_def DNS_ADDR_val split: result.splits)
  have "distinct (ok_values (port_at 4000 # map fst ?calls @ [port_at 4002]))"
    by (simp add: port_at_def)
  from virtual_server_reversed [OF d0 this s] d0 s show ?thesis by blast
qed

section \<open>From the answer to the connection\<close>

text \<open>The mapping the resolver keeps is a reachable one.\<close>

lemma resolver_inv_answer:
  "fake_dns_inv (mapping r) \<Longrightarrow> Resolver_answer r q = (res, r') \<Longrightarrow> fake_dns_inv (mapping r')"
  by (auto simp: Resolver_answer_def Let_def intro: fake_dns_inv_resolve
      split: option.splits if_splits prod.splits)

fun answers :: "resolver \<Rightarrow> bytes list \<Rightarrow> bytes list \<times> resolver" where
  "answers r [] = ([], r)"
| "answers r (q # qs) =
     (let (res, r1) = Resolver_answer r q; (rs, r2) = answers r1 qs
      in (case res of None \<Rightarrow> rs | Some bs \<Rightarrow> bs # rs, r2))"

lemma resolver_inv_answers: "fake_dns_inv (mapping r) \<Longrightarrow> fake_dns_inv (mapping (snd (answers r qs)))"
  by (induction qs arbitrary: r) (auto simp: Let_def case_prod_unfold intro: resolver_inv_answer prod.collapse [symmetric])

lemma last_build_a_response: "drop (length (build_a_response i d a) - 4) (build_a_response i d a) = octets a"
  by (simp add: build_a_response_def)

lemma resolve_result:
  assumes "fake_dns_inv s" and "FakeDns_resolve s d = (a, s')"
  shows "FakeDns_lookup s' a = Some d" and "is_fake_ip a"
proof -
  have inv: "fake_dns_inv s'" by (rule fake_dns_inv_resolve [OF assms])
  have "domain_to_ip s' d = Some a"
    using assms(2) by (auto simp: FakeDns_resolve_def Let_def split: option.splits)
  with inv show "FakeDns_lookup s' a = Some d" by (simp add: pool.inverse)
  then show "is_fake_ip a" using inv
    by (auto simp: fake_dns_inv_def is_fake_ip_def FakeDns_lookup_def)
qed

text \<open>
  A name survives the detour through DNS: after any history of queries, the address in the
  answer to an A query leads a connection to exactly the queried domain, at the port connected
  to.
\<close>

lemma answered_address_routes_to_domain:
  assumes "parse_query q = Some (ident, domain, 1)"
    and "Resolver_answer (snd (answers Resolver_default qs)) q = (res, r)"
  shows "\<exists>response a. res = Some response
           \<and> drop (length response - 4) response = octets a
           \<and> Resolver_target r (sock_addr a port) = Ok (Domain domain port)"
proof -
  let ?r = "snd (answers Resolver_default qs)"
  have inv: "fake_dns_inv (mapping ?r)"
    by (rule resolver_inv_answers) (simp add: Resolver_default_def fake_dns_inv_new)
  obtain a m where m: "FakeDns_resolve (mapping ?r) domain = (a, m)" by fastforce
  with assms have "res = Some (build_a_response ident domain a)" "r = ?r\<lparr>mapping := m\<rparr>"
    by (simp_all add: Resolver_answer_def)
  moreover have "FakeDns_lookup m a = Some domain" "is_fake_ip a"
    by (rule resolve_result [OF inv m])+
  ultimately show ?thesis
    using last_build_a_response [of ident domain a]
    by (intro exI [of _ "build_a_response ident domain a"] exI [of _ a])
      (simp add: Resolver_target_def)
qed

section \<open>What the service loops send\<close>

text \<open>A message on a TCP connection follows its 16-bit length.\<close>

definition dns_frame :: "bytes \<Rightarrow> bytes" where
  "dns_frame bs = to_be_bytes (of_nat (length bs) :: u16) @ bs"

lemma length_dns_frame [simp]: "length (dns_frame bs) = length bs + 2"
  by (simp add: dns_frame_def)

lemma answer_size: "Resolver_answer r q = (Some bs, r') \<Longrightarrow> length bs \<le> 287"
proof -
  assume a: "Resolver_answer r q = (Some bs, r')"
  then obtain ident domain qtype where p: "parse_query q = Some (ident, domain, qtype)"
    by (auto simp: Resolver_answer_def split: option.splits)
  then have "length domain \<le> 253"
    by (auto simp: parse_query_def Let_def split: if_splits option.splits)
  with a p show ?thesis
    by (auto simp: Resolver_answer_def length_encode_name split: if_splits prod.splits)
qed

lemma answer_exists: "parse_query q \<noteq> None \<Longrightarrow> \<exists>bs r'. Resolver_answer r q = (Some bs, r')"
  by (auto simp: Resolver_answer_def split: prod.split)

lemma exchange_framed:
  assumes c: "tcp_content t = dns_frame q @ rest" and len: "length q < 2 ^ 16"
    and a: "Resolver_answer r q = (Some bs, r')" and w: "tx_fail t = []"
  obtains t' where "exchange t r = (Ok True, t', r')" and "tcp_content t' = rest"
    and "tx t' = tx t @ dns_frame bs" and "tx_fail t' = []" and "rx_end t' = rx_end t"
proof -
  let ?p = "to_be_bytes (of_nat (length q) :: u16)"
  have c': "tcp_content t = ?p @ q @ rest" using c by (simp add: dns_frame_def)
  obtain t1 where t1: "read_exact 2 t = (Ok ?p, t1)" "tcp_content t1 = q @ rest" "same_peer t t1"
    by (rule read_exact_prefix [OF c']) simp
  obtain t2 where t2: "read_exact (length q) t1 = (Ok q, t2)" "tcp_content t2 = rest" "same_peer t1 t2"
    by (rule read_exact_prefix [OF t1(2)]) simp
  have n: "unat (from_be_bytes ?p :: u16) = length q"
    using len by (simp add: unat_of_nat_small)
  have "length bs < 65536" using answer_size [OF a] by simp
  with t1 t2 n a w show ?thesis
    by (intro that [of "t2\<lparr>tx := tx t2 @ dns_frame bs\<rparr>"])
      (simp_all add: exchange_def dns_frame_def same_peer_def)
qed

lemma exchange_closed:
  assumes "tcp_content t = []" and "rx_end t = Closed"
  shows "exchange t r = (Ok False, t\<lparr>rx := []\<rparr>, r)"
  using read_exact_short [of t 2] assms by (simp add: exchange_def end_error_def)

text \<open>
  C24. DNS over TCP serves pipelined queries: whatever the segmentation of the stream, a client
  that sends well-formed queries and closes gets exactly one framed response per query, in the
  order of the queries, and the service ends without an error.
\<close>

theorem serve_tcp_answers_all:
  assumes "tcp_content t = concat (map dns_frame qs)" and "rx_end t = Closed" and "tx_fail t = []"
    and "\<forall>q \<in> set qs. length q < 2 ^ 16 \<and> parse_query q \<noteq> None"
  shows "\<exists>t'. serve_tcp t r = (Ok (), t', snd (answers r qs))
           \<and> tx t' = tx t @ concat (map dns_frame (fst (answers r qs)))
           \<and> length (fst (answers r qs)) = length qs"
  using assms
proof (induction qs arbitrary: t r)
  case Nil
  then show ?case by (subst serve_tcp.simps) (simp add: exchange_closed)
next
  case (Cons q qs)
  from Cons.prems(4) obtain bs r' where a: "Resolver_answer r q = (Some bs, r')"
    using answer_exists [of q r] by auto
  from Cons.prems a obtain t' where t': "exchange t r = (Ok True, t', r')"
    "tcp_content t' = concat (map dns_frame qs)" "tx t' = tx t @ dns_frame bs" "tx_fail t' = []"
    "rx_end t' = Closed"
    by (auto elim: exchange_framed [of t q "concat (map dns_frame qs)" r bs r'])
  from Cons.IH [of t' r'] t' Cons.prems(4) obtain t'' where
    "serve_tcp t' r' = (Ok (), t'', snd (answers r' qs))"
    "tx t'' = tx t @ dns_frame bs @ concat (map dns_frame (fst (answers r' qs)))"
    "length (fst (answers r' qs)) = length qs" by auto
  then show ?case using t'(1) a
    by (subst serve_tcp.simps) (simp add: Let_def case_prod_unfold)
qed

definition sample_query :: bytes where
  "sample_query = [0, 7, 1, 0, 0, 1, 0, 0, 0, 0, 0, 0, 1, 97, 1, 98, 0, 0, 1, 0, 1]"

theorem serve_tcp_answers_all_witness:
  "\<exists>t'. serve_tcp \<lparr>rx = [[0], 21 # sample_query], rx_end = Closed, tx = [], tx_fail = []\<rparr>
          Resolver_default = (Ok (), t', snd (answers Resolver_default [sample_query]))
     \<and> tx t' = concat (map dns_frame (fst (answers Resolver_default [sample_query])))"
proof -
  let ?t = "\<lparr>rx = [[0], 21 # sample_query], rx_end = Closed, tx = [], tx_fail = []\<rparr>"
  have "tcp_content ?t = concat (map dns_frame [sample_query])"
    by (simp add: tcp_content_def dns_frame_def sample_query_def to_be_bytes_u16)
  moreover have "\<forall>q \<in> set [sample_query]. length q < 2 ^ 16 \<and> parse_query q \<noteq> None"
    using parse_query_ab by (simp add: sample_query_def)
  ultimately show ?thesis
    using serve_tcp_answers_all [of ?t "[sample_query]" Resolver_default] by auto
qed

text \<open>The UDP loop gives the same answers, each to the source of its query.\<close>

lemma serve_udp_answers:
  "serve_udp (map Ok ps) r = (sent, r', stop) \<Longrightarrow>
     map fst sent = fst (answers r (map fst ps)) \<and> r' = snd (answers r (map fst ps))
     \<and> stop = None \<and> set (map snd sent) \<subseteq> set (map snd ps)"
proof (induction ps arbitrary: r sent)
  case (Cons p ps)
  obtain packet source where p: "p = (packet, source)" by fastforce
  obtain reply r1 where a: "Resolver_answer r packet = (reply, r1)" by fastforce
  obtain sent' where s: "serve_udp (map Ok ps) r1 = (sent', r', stop)"
    and sent: "sent = (case reply of None \<Rightarrow> sent' | Some bs \<Rightarrow> (bs, source) # sent')"
    using Cons.prems p a by (auto simp: Let_def split: prod.splits)
  from Cons.IH [OF s] show ?case
    using sent p a by (cases reply) (auto simp: case_prod_unfold Let_def)
qed simp

end
