(* ===== verification/Access.thy ===== *)
theory Access
  imports Text
begin

text \<open>
  \<open>src/broker/access.rs\<close>: duplicating descriptors of a notifying thread and copying its
  memory.

  The kernel is an argument throughout: the files behind descriptors, the outcomes of the
  pidfd calls, and how many bytes each \<open>process_vm_readv\<close> or \<open>process_vm_writev\<close> moves.
\<close>

section \<open>Descriptors\<close>

datatype access_method = Thread | Process

record socket_access =
  sa_method :: access_method

text \<open>
  The calls on the kernel. \<open>'p\<close> are pidfds and \<open>'f\<close> open files: \<open>pidfd_open\<close> takes the
  id and whether it names a thread, \<open>pidfd_getfd\<close> gives the file behind a descriptor,
  \<open>kcmp\<close> compares a file with the one behind a descriptor of a thread (zero means equal).
\<close>

record ('p, 'f) proc_kernel =
  pk_pidfd_open :: "u32 \<Rightarrow> bool \<Rightarrow> 'p io_result"
  pk_pidfd_getfd :: "'p \<Rightarrow> int \<Rightarrow> 'f io_result"
  pk_status :: "u32 \<Rightarrow> string io_result"
  pk_kcmp :: "'f \<Rightarrow> u32 \<Rightarrow> int \<Rightarrow> nat io_result"

abbreviation PID_MAX :: u32 where "PID_MAX \<equiv> 0x7fffffff"

definition choose_method :: "'p io_result \<Rightarrow> (access_method \<times> 'p option) io_result" where
  "choose_method opened =
     (case opened of
        Ok fd \<Rightarrow> Ok (Thread, Some fd)
      | Err e \<Rightarrow> if raw_os_error e = Some EINVAL then Ok (Process, None) else Err e)"

definition check_tid :: "u32 \<Rightarrow> unit io_result" where
  "check_tid tid = (if tid = 0 \<or> tid > PID_MAX then Err (Os ESRCH) else Ok ())"

definition pidfd_open :: "('p, 'f) proc_kernel \<Rightarrow> u32 \<Rightarrow> bool \<Rightarrow> 'p io_result" where
  "pidfd_open k tid thread = and_then (check_tid tid) (\<lambda>_. pk_pidfd_open k tid thread)"

fun find_map :: "('a \<Rightarrow> 'b option) \<Rightarrow> 'a list \<Rightarrow> 'b option" where
  "find_map f [] = None"
| "find_map f (x # xs) = (case f x of Some y \<Rightarrow> Some y | None \<Rightarrow> find_map f xs)"

definition parse_thread_group :: "string \<Rightarrow> u32 io_result" where
  "parse_thread_group status =
     ok_or (case find_map (strip_prefix ''Tgid:'') (str_lines status) of
              None \<Rightarrow> None
            | Some value \<Rightarrow>
                (case parse_uint (2 ^ 32 - 1) (trim value) of
                   None \<Rightarrow> None
                 | Some n \<Rightarrow> if 0 < n \<and> n \<le> unat PID_MAX then Some (of_nat n) else None))
       (Custom InvalidData)"

definition thread_group :: "('p, 'f) proc_kernel \<Rightarrow> u32 \<Rightarrow> u32 io_result" where
  "thread_group k tid = and_then (pk_status k tid) parse_thread_group"

definition verify_file :: "('p, 'f) proc_kernel \<Rightarrow> u32 \<Rightarrow> int \<Rightarrow> 'f \<Rightarrow> unit io_result" where
  "verify_file k tid target_fd duplicate =
     and_then (pk_kcmp k duplicate tid target_fd) (\<lambda>result.
       if result \<noteq> 0 then Err (Os EOPNOTSUPP) else Ok ())"

definition SocketAccess_get :: "('p, 'f) proc_kernel \<Rightarrow> socket_access \<Rightarrow> u32 \<Rightarrow> int \<Rightarrow> 'f io_result" where
  "SocketAccess_get k s tid fd =
     and_then (check_tid tid) (\<lambda>_.
       if fd < 0 then Err (Os EBADF)
       else case sa_method s of
         Thread \<Rightarrow> and_then (pidfd_open k tid True) (\<lambda>pidfd. pk_pidfd_getfd k pidfd fd)
       | Process \<Rightarrow>
           and_then (thread_group k tid) (\<lambda>tgid.
           and_then (pidfd_open k tgid False) (\<lambda>pidfd.
           and_then (pk_pidfd_getfd k pidfd fd) (\<lambda>duplicate.
           and_then (verify_file k tid fd duplicate) (\<lambda>_. Ok duplicate)))))"

text \<open>
  The documented behaviour of the kernel over the descriptor tables \<open>files\<close>: a pidfd opened
  for a thread reaches the table of that thread, and \<open>kcmp\<close> reports zero only for the file
  the thread's own descriptor refers to.
\<close>

definition descriptors_documented ::
  "('p, 'f) proc_kernel \<Rightarrow> (u32 \<Rightarrow> int \<Rightarrow> 'f option) \<Rightarrow> bool" where
  "descriptors_documented k files \<longleftrightarrow>
     (\<forall>tid p fd f. pk_pidfd_open k tid True = Ok p \<longrightarrow> pk_pidfd_getfd k p fd = Ok f \<longrightarrow>
        files tid fd = Some f)
     \<and> (\<forall>f tid fd. pk_kcmp k f tid fd = Ok 0 \<longrightarrow> files tid fd = Some f)"

text \<open>
  C33. A duplicate is the descriptor of the thread that asked: with either method, also when the
  thread has a descriptor table of its own, the file returned is the one behind that descriptor
  in the table of that thread.
\<close>

theorem access_returns_own_file:
  assumes "descriptors_documented k files" and "SocketAccess_get k s tid fd = Ok f"
  shows "files tid fd = Some f \<and> 0 \<le> fd \<and> tid \<noteq> 0 \<and> tid \<le> PID_MAX"
proof -
  from assms(2) have "tid \<noteq> 0" "tid \<le> PID_MAX" "0 \<le> fd"
    by (auto simp: SocketAccess_get_def and_then_Ok_iff check_tid_def split: if_splits)
  moreover have "files tid fd = Some f"
    using assms
    by (cases "sa_method s")
      (auto simp: SocketAccess_get_def and_then_Ok_iff pidfd_open_def verify_file_def
        descriptors_documented_def split: if_splits)
  ultimately show ?thesis by simp
qed

definition private_tables :: "(nat, string) proc_kernel" where
  "private_tables = \<lparr>pk_pidfd_open = \<lambda>tid thread. Ok (unat tid),
     pk_pidfd_getfd = \<lambda>p fd. if p = 8 then Ok ''own'' else Ok ''leader'',
     pk_status = \<lambda>tid. Ok ''Tgid:7'',
     pk_kcmp = \<lambda>f tid fd. Ok (if f = (if tid = 8 then ''own'' else ''leader'') then 0 else 1)\<rparr>"

theorem access_returns_own_file_witness:
  "SocketAccess_get private_tables \<lparr>sa_method = Thread\<rparr> 8 3 = Ok ''own''
   \<and> (\<lambda>tid fd. Some (if tid = 8 then ''own'' else ''leader'')) (8 :: u32) (3 :: int) = Some ''own''"
proof -
  have "descriptors_documented private_tables (\<lambda>tid fd. Some (if tid = 8 then ''own'' else ''leader''))"
    by (auto simp: descriptors_documented_def private_tables_def word_unat_eq_iff)
  moreover have "SocketAccess_get private_tables \<lparr>sa_method = Thread\<rparr> 8 3 = Ok ''own''"
    by (simp add: SocketAccess_get_def check_tid_def pidfd_open_def private_tables_def)
  ultimately show ?thesis
    using access_returns_own_file [of private_tables "\<lambda>tid fd. Some (if tid = 8 then ''own'' else ''leader'')"]
    by blast
qed

section \<open>Memory\<close>

text \<open>
  The memory of the target is a partial map from addresses to bytes. What the kernel decides
  about a copy is a schedule of events, one per call: a signal interrupts the call, or it moves
  at most a given number of bytes. Past the end of the schedule every call moves all it can.
  A call moves bytes of the mapped prefix of its range only and fails when there are none. The
  contents are those of the time the copy starts: a target that races with its own system call
  is outside the model.
\<close>

type_synonym memory = "u64 \<Rightarrow> u8 option"

datatype vm_event = Signal | Upto nat

record target =
  tg_mem :: memory
  tg_vm :: "vm_event list"

fun mapped :: "memory \<Rightarrow> u64 \<Rightarrow> nat \<Rightarrow> nat" where
  "mapped m a 0 = 0"
| "mapped m a (Suc n) = (if m a = None then 0 else Suc (mapped m (a + 1) n))"

fun bytes_at :: "memory \<Rightarrow> u64 \<Rightarrow> nat \<Rightarrow> bytes" where
  "bytes_at m a 0 = []"
| "bytes_at m a (Suc n) = (case m a of Some b \<Rightarrow> b | None \<Rightarrow> 0) # bytes_at m (a + 1) n"

fun poke :: "memory \<Rightarrow> u64 \<Rightarrow> bytes \<Rightarrow> memory" where
  "poke m a [] = m"
| "poke m a (b # bs) = poke (m(a \<mapsto> b)) (a + 1) bs"

definition vm_count :: "memory \<Rightarrow> u64 \<Rightarrow> nat \<Rightarrow> nat \<Rightarrow> nat io_result" where
  "vm_count m a n limit =
     (if mapped m a n = 0 then Err (Os EFAULT) else Ok (min (max 1 limit) (mapped m a n)))"

definition process_vm :: "target \<Rightarrow> u64 \<Rightarrow> nat \<Rightarrow> nat io_result \<times> target" where
  "process_vm t a n =
     (case tg_vm t of
        [] \<Rightarrow> (vm_count (tg_mem t) a n n, t)
      | Signal # es \<Rightarrow> (Err (Os EINTR), t\<lparr>tg_vm := es\<rparr>)
      | Upto limit # es \<Rightarrow> (vm_count (tg_mem t) a n limit, t\<lparr>tg_vm := es\<rparr>))"

lemma mapped_le: "mapped m a n \<le> n"
  by (induction m a n rule: mapped.induct) auto

lemma mapped_add: "k \<le> mapped m a n \<Longrightarrow> mapped m a n = k + mapped m (a + of_nat k) (n - k)"
proof (induction k arbitrary: a n)
  case (Suc k)
  show ?case
  proof (cases n)
    case (Suc n')
    with Suc.prems have "k \<le> mapped m (a + 1) n'" "m a \<noteq> None" by (auto split: if_splits)
    from Suc.IH [OF this(1)] this(2) Suc show ?thesis by (simp add: algebra_simps)
  qed (use Suc.prems in simp)
qed simp

lemma length_bytes_at [simp]: "length (bytes_at m a n) = n"
  by (induction m a n rule: bytes_at.induct) simp_all

lemma bytes_at_add: "bytes_at m a (k + n) = bytes_at m a k @ bytes_at m (a + of_nat k) n"
  by (induction k arbitrary: a) (simp_all add: algebra_simps)

lemma poke_append: "poke m a (xs @ ys) = poke (poke m a xs) (a + of_nat (length xs)) ys"
  by (induction xs arbitrary: m a) (simp_all add: algebra_simps)

lemma process_vm_mem [simp]: "tg_mem (snd (process_vm t a n)) = tg_mem t"
  by (auto simp: process_vm_def split: list.splits vm_event.splits)

lemma process_vm_Err:
  "process_vm t a n = (Err e, t') \<Longrightarrow> kind e = Interrupted \<Longrightarrow> length (tg_vm t') < length (tg_vm t)"
  by (auto simp: process_vm_def vm_count_def split: list.splits vm_event.splits if_splits)

lemma process_vm_Ok:
  assumes "process_vm t a n = (Ok k, t')"
  shows "0 < k" "k \<le> mapped (tg_mem t) a n" "k \<le> n" "length (tg_vm t') \<le> length (tg_vm t)"
  using assms mapped_le [of "tg_mem t" a n]
  by (auto simp: process_vm_def vm_count_def split: list.splits vm_event.splits if_splits)

text \<open>The loop of \<open>copy_memory\<close>, with the local buffer and the bytes already copied.\<close>

function copy_loop :: "bool \<Rightarrow> u64 \<Rightarrow> nat \<Rightarrow> bytes \<Rightarrow> target \<Rightarrow> unit io_result \<times> bytes \<times> target" where
  "copy_loop write address copied buffer t =
     (if length buffer \<le> copied then (Ok (), buffer, t)
      else case process_vm t (address + of_nat copied) (length buffer - copied) of
        (Err e, t') \<Rightarrow>
          if kind e = Interrupted then copy_loop write address copied buffer t'
          else (Err e, buffer, t')
      | (Ok count, t') \<Rightarrow>
          if count = 0 then (Err (Os EFAULT), buffer, t')
          else if write then
            copy_loop write address (copied + count) buffer
              (t'\<lparr>tg_mem := poke (tg_mem t') (address + of_nat copied) (take count (drop copied buffer))\<rparr>)
          else
            copy_loop write address (copied + count)
              (take copied buffer @ bytes_at (tg_mem t') (address + of_nat copied) count
                 @ drop (copied + count) buffer) t')"
  by pat_completeness auto
termination
  by (relation "measure (\<lambda>(w, a, c, b, t). length b - c + length (tg_vm t))")
    (auto dest: process_vm_Err process_vm_Ok(3,4) dest!: sym [of "(_, _)"]
      intro: diff_less_mono2 add_less_le_mono)

declare copy_loop.simps [simp del]

definition copy_memory :: "u32 \<Rightarrow> u64 \<Rightarrow> bytes \<Rightarrow> bool \<Rightarrow> target \<Rightarrow> unit io_result \<times> bytes \<times> target" where
  "copy_memory tid address buffer write t =
     (if length buffer = 0 then (Ok (), buffer, t)
      else case check_tid tid of
        Err e \<Rightarrow> (Err e, buffer, t)
      | Ok _ \<Rightarrow>
          if address = 0 \<or> 2 ^ 64 \<le> unat address + length buffer then (Err (Os EFAULT), buffer, t)
          else copy_loop write address 0 buffer t)"

definition read_exact_at :: "u32 \<Rightarrow> u64 \<Rightarrow> nat \<Rightarrow> target \<Rightarrow> bytes io_result \<times> target" where
  "read_exact_at tid address len t =
     (case copy_memory tid address (replicate len 0) False t of
        (r, buffer, t') \<Rightarrow> (and_then r (\<lambda>_. Ok buffer), t'))"

definition write_exact_at :: "u32 \<Rightarrow> u64 \<Rightarrow> bytes \<Rightarrow> target \<Rightarrow> unit io_result \<times> target" where
  "write_exact_at tid address buffer t =
     (case copy_memory tid address buffer True t of (r, _, t') \<Rightarrow> (r, t'))"

lemma copy_loop_done: "length buffer \<le> copied \<Longrightarrow> copy_loop w a copied buffer t = (Ok (), buffer, t)"
  by (simp add: copy_loop.simps)

text \<open>What a call of the kernel can answer, with the consequence for the mapped bytes.\<close>

lemma process_vm_cases:
  obtains (signal) t' where "process_vm t a n = (Err (Os EINTR), t')" "tg_mem t' = tg_mem t"
      "length (tg_vm t') < length (tg_vm t)"
  | (fault) t' where "process_vm t a n = (Err (Os EFAULT), t')" "tg_mem t' = tg_mem t"
      "mapped (tg_mem t) a n = 0"
  | (moved) k t' where "process_vm t a n = (Ok k, t')" "tg_mem t' = tg_mem t" "0 < k" "k \<le> n"
      "length (tg_vm t') \<le> length (tg_vm t)"
      "mapped (tg_mem t) a n = k + mapped (tg_mem t) (a + of_nat k) (n - k)"
proof -
  obtain r t' where p: "process_vm t a n = (r, t')" by force
  then have m: "tg_mem t' = tg_mem t" using process_vm_mem [of t a n] by simp
  show ?thesis
  proof (cases r)
    case (Ok k)
    with p m process_vm_Ok [of t a n k t'] show ?thesis
      by (intro moved [of k t']) (simp_all add: mapped_add [symmetric])
  next
    case (Err e)
    with p consider "e = Os EINTR" "length (tg_vm t') < length (tg_vm t)"
      | "e = Os EFAULT" "mapped (tg_mem t) a n = 0"
      by (auto simp: process_vm_def vm_count_def split: list.splits vm_event.splits if_splits)
    with p m Err show ?thesis by cases (auto intro: signal fault)
  qed
qed

definition copy_outcome :: "target \<Rightarrow> u64 \<Rightarrow> nat \<Rightarrow> unit io_result" where
  "copy_outcome t a n = (if mapped (tg_mem t) a n = n then Ok () else Err (Os EFAULT))"

lemma copy_outcome_step:
  "mapped (tg_mem t) a n = k + mapped (tg_mem t) (a + of_nat k) (n - k) \<Longrightarrow> k \<le> n \<Longrightarrow>
   copy_outcome t a n = copy_outcome t (a + of_nat k) (n - k)"
  by (auto simp: copy_outcome_def)

lemma mapped_dom: "dom m = dom m' \<Longrightarrow> mapped m a n = mapped m' a n"
proof (induction m a n rule: mapped.induct)
  case (2 m a n)
  then have "m a = None \<longleftrightarrow> m' a = None" by (metis domIff)
  with 2 show ?case by simp
qed simp

lemma copy_outcome_dom: "dom (tg_mem t) = dom (tg_mem t') \<Longrightarrow> copy_outcome t a n = copy_outcome t' a n"
  using mapped_dom [of "tg_mem t" "tg_mem t'" a n] by (simp add: copy_outcome_def)

lemma copy_read:
  assumes "c \<le> length b"
  shows "fst (copy_loop False a c b t) = copy_outcome t (a + of_nat c) (length b - c)
    \<and> tg_mem (snd (snd (copy_loop False a c b t))) = tg_mem t
    \<and> (fst (copy_loop False a c b t) = Ok () \<longrightarrow> fst (snd (copy_loop False a c b t)) =
        take c b @ bytes_at (tg_mem t) (a + of_nat c) (length b - c))"
  using assms
proof (induction "length b - c + length (tg_vm t)" arbitrary: c b t rule: less_induct)
  case less
  let ?n = "length b - c" and ?a = "a + of_nat c"
  show ?case
  proof (cases "c = length b")
    case True
    then show ?thesis by (simp add: copy_loop_done copy_outcome_def)
  next
    case False
    with less.prems have c: "c < length b" by simp
    show ?thesis
    proof (cases rule: process_vm_cases [of t ?a ?n])
      case (signal t')
      then have "copy_loop False a c b t = copy_loop False a c b t'"
        using c by (subst copy_loop.simps) simp
      with signal c less.hyps [of b c t'] copy_outcome_dom [of t' t] show ?thesis by simp
    next
      case (fault t')
      with c show ?thesis by (subst (1 2 3 4) copy_loop.simps) (simp add: copy_outcome_def)
    next
      case (moved k t')
      let ?b = "take c b @ bytes_at (tg_mem t) ?a k @ drop (c + k) b"
      from moved c have l: "length ?b = length b" "length b - (c + k) = ?n - k" by auto
      have step: "copy_loop False a c b t = copy_loop False a (c + k) ?b t'"
        using moved(1,2,3) c by (subst copy_loop.simps) simp
      have "length ?b - (c + k) + length (tg_vm t') < ?n + length (tg_vm t)" "c + k \<le> length ?b"
        using moved(3,4,5) c l by linarith+
      note ih = less.hyps [OF this]
      have ad: "a + of_nat (c + k) = ?a + of_nat k" by simp
      have buf: "take (c + k) ?b @ bytes_at (tg_mem t) (?a + of_nat k) (?n - k)
          = take c b @ bytes_at (tg_mem t) ?a ?n"
        using bytes_at_add [of "tg_mem t" ?a k "?n - k"] moved(2,4) c by simp
      have out: "copy_outcome t' (?a + of_nat k) (?n - k) = copy_outcome t ?a ?n"
        using copy_outcome_step [OF moved(6,4)] copy_outcome_dom [of t' t] moved(2) by simp
      show ?thesis
        using ih unfolding step moved(2) l ad buf out .
    qed
  qed
qed

lemma dom_poke: "length bs \<le> mapped m a n \<Longrightarrow> dom (poke m a bs) = dom m"
proof (induction bs arbitrary: m a n)
  case (Cons b bs)
  from Cons.prems obtain n' where n: "n = Suc n'" "a \<in> dom m" "length bs \<le> mapped m (a + 1) n'"
    by (cases n) (auto split: if_splits)
  then have d: "dom (m(a \<mapsto> b)) = dom m" by auto
  have "length bs \<le> mapped (m(a \<mapsto> b)) (a + 1) n'"
    using n(3) unfolding mapped_dom [OF d] .
  from Cons.IH [OF this] show ?case unfolding d by (simp del: fun_upd_apply)
qed simp

lemma copy_write:
  assumes "c \<le> length b"
  shows "fst (copy_loop True a c b t) = copy_outcome t (a + of_nat c) (length b - c)
    \<and> tg_mem (snd (snd (copy_loop True a c b t))) =
        poke (tg_mem t) (a + of_nat c)
          (take (mapped (tg_mem t) (a + of_nat c) (length b - c)) (drop c b))"
  using assms
proof (induction "length b - c + length (tg_vm t)" arbitrary: c t rule: less_induct)
  case less
  let ?n = "length b - c" and ?a = "a + of_nat c"
  show ?case
  proof (cases "c = length b")
    case True
    then show ?thesis by (simp add: copy_loop_done copy_outcome_def)
  next
    case False
    with less.prems have c: "c < length b" by simp
    show ?thesis
    proof (cases rule: process_vm_cases [of t ?a ?n])
      case (signal t')
      then have "copy_loop True a c b t = copy_loop True a c b t'"
        using c by (subst copy_loop.simps) simp
      with signal c less.hyps [of c t'] copy_outcome_dom [of t' t] show ?thesis by simp
    next
      case (fault t')
      with c show ?thesis by (subst (1 2) copy_loop.simps) (simp add: copy_outcome_def)
    next
      case (moved k t')
      let ?m = "poke (tg_mem t) ?a (take k (drop c b))"
      let ?t = "t'\<lparr>tg_mem := ?m\<rparr>"
      have step: "copy_loop True a c b t = copy_loop True a (c + k) b ?t"
        using moved(1,2,3) c by (subst copy_loop.simps) simp
      have l: "length b - (c + k) = ?n - k" by simp
      have "length b - (c + k) + length (tg_vm ?t) < ?n + length (tg_vm t)" "c + k \<le> length b"
        using moved(3,4,5) c by simp_all
      note ih = less.hyps [OF this]
      have ad: "a + of_nat (c + k) = ?a + of_nat k" by simp
      have d: "dom ?m = dom (tg_mem t)"
        using dom_poke [of "take k (drop c b)" "tg_mem t" ?a ?n] moved(6) by simp
      have mm: "mapped ?m (?a + of_nat k) (?n - k) = mapped (tg_mem t) (?a + of_nat k) (?n - k)"
        using d by (rule mapped_dom)
      have out: "copy_outcome ?t (?a + of_nat k) (?n - k) = copy_outcome t ?a ?n"
        using copy_outcome_step [OF moved(6,4)] copy_outcome_dom [of ?t t] d by simp
      have sel: "tg_mem ?t = ?m" by simp
      have "poke ?m (?a + of_nat k) (take (mapped (tg_mem t) (?a + of_nat k) (?n - k)) (drop (c + k) b))
          = poke (tg_mem t) ?a (take (mapped (tg_mem t) ?a ?n) (drop c b))"
        using poke_append [of "tg_mem t" ?a "take k (drop c b)"
            "take (mapped (tg_mem t) (?a + of_nat k) (?n - k)) (drop (c + k) b)"] moved(4)
        unfolding moved(6) by (simp add: take_add drop_drop add.commute)
      then show ?thesis
        using ih unfolding step l ad sel mm out by (simp only:)
    qed
  qed
qed

text \<open>What one copy amounts to, whatever the schedule of the kernel.\<close>

definition reachable :: "memory \<Rightarrow> u32 \<Rightarrow> u64 \<Rightarrow> nat \<Rightarrow> unit io_result" where
  "reachable m tid a n =
     (if n = 0 then Ok ()
      else and_then (check_tid tid) (\<lambda>_.
        if a = 0 \<or> 2 ^ 64 \<le> unat a + n \<or> mapped m a n \<noteq> n then Err (Os EFAULT) else Ok ()))"

lemma read_exact_at_spec:
  "fst (read_exact_at tid a n t) = and_then (reachable (tg_mem t) tid a n) (\<lambda>_. Ok (bytes_at (tg_mem t) a n))"
  "tg_mem (snd (read_exact_at tid a n t)) = tg_mem t"
  using copy_read [of 0 "replicate n 0" a t]
  by (auto simp: read_exact_at_def copy_memory_def reachable_def copy_outcome_def
      split: result.split prod.split if_splits)

lemma write_exact_at_spec:
  "fst (write_exact_at tid a bs t) = reachable (tg_mem t) tid a (length bs)"
  "reachable (tg_mem t) tid a (length bs) = Ok () \<Longrightarrow>
     tg_mem (snd (write_exact_at tid a bs t)) = poke (tg_mem t) a bs"
  using copy_write [of 0 bs a t]
  by (auto simp: write_exact_at_def copy_memory_def reachable_def copy_outcome_def
      split: result.split prod.split if_splits)

lemma reachable_dom: "dom m = dom m' \<Longrightarrow> reachable m = reachable m'"
  using mapped_dom [of m m'] by (intro ext) (simp add: reachable_def)

lemma dom_poke_reachable: "reachable m tid a (length bs) = Ok () \<Longrightarrow> dom (poke m a bs) = dom m"
  by (rule dom_poke [of _ _ _ "length bs"])
    (auto simp: reachable_def and_then_Ok_iff split: if_splits)

lemma poke_outside: "(\<And>i. i < length bs \<Longrightarrow> x \<noteq> a + of_nat i) \<Longrightarrow> poke m a bs x = m x"
proof (induction bs arbitrary: m a)
  case (Cons b bs)
  have "x \<noteq> a" using Cons.prems [of 0] by simp
  moreover have "x \<noteq> a + 1 + of_nat i" if "i < length bs" for i
    using Cons.prems [of "Suc i"] that by (simp add: algebra_simps)
  ultimately show ?case using Cons.IH [of "a + 1" "m(a \<mapsto> b)"]
    by (metis fun_upd_other poke.simps(2))
qed simp

lemma bytes_at_cong:
  "(\<And>i. i < n \<Longrightarrow> m (a + of_nat i) = m' (a + of_nat i)) \<Longrightarrow> bytes_at m a n = bytes_at m' a n"
proof (induction n arbitrary: a)
  case (Suc n)
  have "m a = m' a" using Suc.prems [of 0] by simp
  moreover have "bytes_at m (a + 1) n = bytes_at m' (a + 1) n"
  proof (rule Suc.IH)
    fix i assume "i < n"
    then show "m (a + 1 + of_nat i) = m' (a + 1 + of_nat i)"
      using Suc.prems [of "Suc i"] by (simp add: algebra_simps)
  qed
  ultimately show ?case by simp
qed simp

lemma bytes_at_poke: "length bs < 2 ^ 64 \<Longrightarrow> bytes_at (poke m a bs) a (length bs) = bs"
proof (induction bs arbitrary: m a)
  case (Cons b bs)
  have "poke (m(a \<mapsto> b)) (a + 1) bs a = Some b"
  proof (subst poke_outside)
    fix i assume i: "i < length bs"
    have "1 + of_nat i \<noteq> (0 :: u64)"
    proof
      assume "1 + of_nat i = (0 :: u64)"
      then have "unat (of_nat (Suc i) :: u64) = 0" by simp
      then show False using i Cons.prems by (subst (asm) unat_of_nat_small) simp_all
    qed
    then show "a \<noteq> a + 1 + of_nat i" by (simp add: add.assoc)
  qed simp
  then show ?case using Cons by simp
qed simp

text \<open>The contract of the two copies towards the code that reads arguments and writes results.\<close>

locale target_memory =
  fixes rd :: "u32 \<Rightarrow> u64 \<Rightarrow> nat \<Rightarrow> 's \<Rightarrow> bytes io_result \<times> 's"
    and wr :: "u32 \<Rightarrow> u64 \<Rightarrow> bytes \<Rightarrow> 's \<Rightarrow> unit io_result \<times> 's"
    and view :: "'s \<Rightarrow> memory"
  assumes rd_value: "fst (rd tid a n s) =
      and_then (reachable (view s) tid a n) (\<lambda>_. Ok (bytes_at (view s) a n))"
    and rd_view: "view (snd (rd tid a n s)) = view s"
    and wr_result: "fst (wr tid a bs s) = reachable (view s) tid a (length bs)"
    and wr_view: "reachable (view s) tid a (length bs) = Ok () \<Longrightarrow>
      view (snd (wr tid a bs s)) = poke (view s) a bs"
begin

lemma rd_Ok_iff:
  "fst (rd tid a n s) = Ok bs \<longleftrightarrow> reachable (view s) tid a n = Ok () \<and> bs = bytes_at (view s) a n"
  by (auto simp: rd_value and_then_Ok_iff)

lemma rd_length: "fst (rd tid a n s) = Ok bs \<Longrightarrow> length bs = n"
  by (simp add: rd_Ok_iff)

lemma wr_reachable:
  "fst (wr tid a bs s) = Ok () \<Longrightarrow> reachable (view (snd (wr tid a bs s))) = reachable (view s)"
  by (simp add: wr_result wr_view dom_poke_reachable cong: reachable_dom)

lemma rd_back:
  assumes "fst (wr tid a bs s) = Ok ()"
  shows "fst (rd tid a (length bs) (snd (wr tid a bs s))) = Ok bs"
proof -
  from assms have r: "reachable (view s) tid a (length bs) = Ok ()" by (simp add: wr_result)
  then have "length bs < 2 ^ 64"
    by (auto simp: reachable_def and_then_Ok_iff split: if_splits)
  with r assms show ?thesis
    by (simp add: rd_Ok_iff wr_reachable) (simp add: wr_view bytes_at_poke)
qed

lemma rd_elsewhere:
  assumes "fst (wr tid a bs s) = Ok ()"
    and "\<And>i j. i < n \<Longrightarrow> j < length bs \<Longrightarrow> c + of_nat i \<noteq> a + of_nat j"
  shows "fst (rd tid c n (snd (wr tid a bs s))) = fst (rd tid c n s)"
proof -
  have "bytes_at (poke (view s) a bs) c n = bytes_at (view s) c n"
    using assms(2) by (intro bytes_at_cong poke_outside) blast
  with assms(1) show ?thesis
    by (simp add: rd_value wr_reachable) (simp add: wr_result wr_view)
qed

end

interpretation remote: target_memory read_exact_at write_exact_at tg_mem
  by unfold_locales (simp_all add: read_exact_at_spec write_exact_at_spec)

text \<open>
  C28. A copy is exact under every behaviour of the kernel: however \<open>process_vm_readv\<close> splits
  the range and however often signals interrupt it, reading gives the bytes of the whole range
  when all of it is mapped and \<open>EFAULT\<close> otherwise, and it leaves the memory as it was.
\<close>

theorem copy_schedule_independent:
  "read_exact_at tid a n \<lparr>tg_mem = m, tg_vm = es\<rparr> = (r, t') \<Longrightarrow>
   r = and_then (reachable m tid a n) (\<lambda>_. Ok (bytes_at m a n)) \<and> tg_mem t' = m"
  using remote.rd_value [of tid a n "\<lparr>tg_mem = m, tg_vm = es\<rparr>"]
    remote.rd_view [of tid a n "\<lparr>tg_mem = m, tg_vm = es\<rparr>"]
  by simp

theorem copy_schedule_independent_witness:
  "fst (read_exact_at 9 0x1000 3
      \<lparr>tg_mem = (\<lambda>a. if a < 0x1003 then Some (ucast a + 1) else None), tg_vm = [Signal, Upto 1, Signal]\<rparr>)
   = Ok [1, 2, 3]"
  using copy_schedule_independent [where tid = 9 and a = "0x1000" and n = 3
      and m = "\<lambda>a. if a < 0x1003 then Some (ucast a + 1) else None"
      and es = "[Signal, Upto 1, Signal]", OF prod.collapse [symmetric]]
  by (simp add: reachable_def check_tid_def numeral_3_eq_3)

section \<open>The probe at startup\<close>

text \<open>
  \<open>probe\<close> on the broker's own thread: \<open>pair\<close> is the outcome of \<open>UnixStream::pair\<close> (the
  descriptor of its first end) and \<open>address\<close> the address of its one byte variable.
\<close>

definition SocketAccess_probe ::
  "('p, 'f) proc_kernel \<Rightarrow> u32 \<Rightarrow> int io_result \<Rightarrow> u64 \<Rightarrow> target \<Rightarrow> socket_access io_result \<times> target" where
  "SocketAccess_probe k tid pair address t =
     (case and_then (choose_method (pidfd_open k tid True)) (\<lambda>(chosen, pidfd).
           and_then pair (\<lambda>socket.
           and_then (case pidfd of
               Some p \<Rightarrow> pk_pidfd_getfd k p socket
             | None \<Rightarrow> SocketAccess_get k \<lparr>sa_method = chosen\<rparr> tid socket) (\<lambda>_.
           Ok \<lparr>sa_method = chosen\<rparr>))) of
        Err e \<Rightarrow> (Err e, t)
      | Ok access \<Rightarrow>
          (case read_exact_at tid address 1 t of
             (Err e, t') \<Rightarrow> (Err e, t')
           | (Ok copy, t') \<Rightarrow>
               (case write_exact_at tid address copy t' of
                  (r, t'') \<Rightarrow> (and_then r (\<lambda>_. Ok access), t''))))"

lemma choose_method_Ok_iff:
  "choose_method r = Ok (c, p) \<longleftrightarrow>
     (\<exists>fd. r = Ok fd \<and> c = Thread \<and> p = Some fd) \<or> (r = Err (Os EINVAL) \<and> c = Process \<and> p = None)"
  by (auto simp: choose_method_def split: result.splits if_splits elim: raw_os_error.elims)

lemma poke_same: "m a = Some b \<Longrightarrow> poke m a [b] = m"
  by (auto simp: fun_upd_idem)

text \<open>
  A successful probe selects the method of threads exactly when the kernel opens a pidfd for the
  broker's own thread, falls back to the method of processes only when the kernel rejects the
  flag with \<open>EINVAL\<close>, and leaves the memory it tried as it was.
\<close>

lemma probe_selects:
  assumes "SocketAccess_probe k tid pair address t = (Ok s, t')"
  shows "sa_method s = (if is_ok (pk_pidfd_open k tid True) then Thread else Process)
    \<and> (sa_method s = Process \<longrightarrow> pk_pidfd_open k tid True = Err (Os EINVAL))
    \<and> tg_mem t' = tg_mem t"
proof -
  obtain p where c: "choose_method (pidfd_open k tid True) = Ok (sa_method s, p)"
    using assms by (auto simp: SocketAccess_probe_def and_then_Ok_iff split: result.splits prod.splits)
  then have "check_tid tid = Ok ()"
    by (auto simp: choose_method_Ok_iff pidfd_open_def and_then_Ok_iff and_then_Err_iff check_tid_def
        split: if_splits)
  with c have "sa_method s = Thread \<and> is_ok (pk_pidfd_open k tid True)
      \<or> sa_method s = Process \<and> pk_pidfd_open k tid True = Err (Os EINVAL)"
    by (auto simp: choose_method_Ok_iff pidfd_open_def)
  moreover have "tg_mem t' = tg_mem t"
  proof -
    obtain copy t1 where r: "read_exact_at tid address 1 t = (Ok copy, t1)"
        "write_exact_at tid address copy t1 = (Ok (), t')"
      using assms
      by (auto simp: SocketAccess_probe_def and_then_Ok_iff split: result.splits prod.splits)
    have m1: "tg_mem t1 = tg_mem t" and reach: "reachable (tg_mem t) tid address 1 = Ok ()"
      and cp: "copy = bytes_at (tg_mem t) address 1"
      using remote.rd_view [of tid address 1 t] remote.rd_Ok_iff [of tid address 1 t copy] r(1) by simp_all
    then have "tg_mem t' = poke (tg_mem t) address copy"
      using remote.wr_view [of t1 tid address copy] r(2) by simp
    moreover from reach obtain b where "tg_mem t address = Some b"
      by (auto simp: reachable_def and_then_Ok_iff split: if_splits)
    ultimately show ?thesis using poke_same [of "tg_mem t" address b] cp by simp
  qed
  ultimately show ?thesis by (auto simp: is_ok_iff)
qed

end
