(* ===== verification/Seccomp.thy ===== *)
theory Seccomp
  imports Wire
begin

text \<open>
  \<open>src/broker/seccomp.rs\<close>: the BPF program that decides which system calls reach the broker,
  its interpreter (the one of the module's tests), the installation of the program, and the
  calls on the notification descriptor.

  The numbers of the system calls belong to the C library's view of the kernel, so they are
  a record \<open>abi\<close>; what the kernel answers is an argument.
\<close>

section \<open>Layout\<close>

text \<open>
  The size of a \<open>repr(C)\<close> struct from the sizes and alignments of its fields, and the
  offset of its \<open>n\<close>-th field.
\<close>

definition align_up :: "nat \<Rightarrow> nat \<Rightarrow> nat" where
  "align_up a n = (n + a - 1) div a * a"

fun field_end :: "nat \<Rightarrow> (nat \<times> nat) list \<Rightarrow> nat" where
  "field_end off [] = off"
| "field_end off ((sz, al) # fs) = field_end (align_up al off + sz) fs"

definition c_align :: "(nat \<times> nat) list \<Rightarrow> nat" where
  "c_align fs = foldr max (map snd fs) 1"

definition c_size :: "(nat \<times> nat) list \<Rightarrow> nat" where
  "c_size fs = align_up (c_align fs) (field_end 0 fs)"

definition c_offset :: "(nat \<times> nat) list \<Rightarrow> nat \<Rightarrow> nat" where
  "c_offset fs n = align_up (snd (fs ! n)) (field_end 0 (take n fs))"

abbreviation f16 :: "nat \<times> nat" where "f16 \<equiv> (2, 2)"
abbreviation f32 :: "nat \<times> nat" where "f32 \<equiv> (4, 4)"
abbreviation f64 :: "nat \<times> nat" where "f64 \<equiv> (8, 8)"

section \<open>Structures\<close>

record seccomp_data =
  sd_nr :: u32
  sd_arch :: u32
  sd_ip :: u64
  sd_args :: "u64 list"

definition Data_layout :: "(nat \<times> nat) list" where
  "Data_layout = [f32, f32, f64, (48, 8)]"

record notification =
  nt_id :: u64
  nt_pid :: u32
  nt_flags :: u32
  nt_data :: seccomp_data

definition Notification_layout :: "(nat \<times> nat) list" where
  "Notification_layout = [f64, f32, f32, (c_size Data_layout, c_align Data_layout)]"

record response =
  rs_id :: u64
  rs_val :: int
  rs_error :: int
  rs_flags :: u32

definition Response_layout :: "(nat \<times> nat) list" where
  "Response_layout = [f64, f64, f32, f32]"

record add_fd =
  af_id :: u64
  af_flags :: u32
  af_srcfd :: u32
  af_newfd :: u32
  af_newfd_flags :: u32

definition AddFd_layout :: "(nat \<times> nat) list" where
  "AddFd_layout = [f64, f32, f32, f32, f32]"

definition ioctl_request :: "u32 \<Rightarrow> u32 \<Rightarrow> nat \<Rightarrow> u64" where
  "ioctl_request direction number sz =
     ucast (push_bit 30 direction OR push_bit 16 (of_nat sz) OR push_bit 8 33 OR number)"

definition NOTIF_RECV :: u64 where
  "NOTIF_RECV = ioctl_request 3 0 (c_size Notification_layout)"

definition NOTIF_SEND :: u64 where
  "NOTIF_SEND = ioctl_request 3 1 (c_size Response_layout)"

definition NOTIF_ID_VALID :: u64 where
  "NOTIF_ID_VALID = ioctl_request 1 2 8"

definition NOTIF_ADDFD :: u64 where
  "NOTIF_ADDFD = ioctl_request 1 3 (c_size AddFd_layout)"

section \<open>System calls\<close>

datatype target_arch = X86_64 | Aarch64

definition NATIVE_ARCH :: "target_arch \<Rightarrow> u32" where
  "NATIVE_ARCH t = (case t of X86_64 \<Rightarrow> 0xc000003e | Aarch64 \<Rightarrow> 0xc00000b7)"

record abi =
  abi_target :: target_arch
  SYS_open :: u32
  SYS_openat :: u32
  SYS_openat2 :: u32
  SYS_socket :: u32
  SYS_connect :: u32
  SYS_getpeername :: u32
  SYS_getsockopt :: u32
  SYS_sendto :: u32
  SYS_recvfrom :: u32
  SYS_sendmsg :: u32
  SYS_sendmmsg :: u32
  SYS_recvmsg :: u32
  SYS_recvmmsg :: u32
  SYS_io_uring_setup :: u32
  SYS_io_uring_enter :: u32
  SYS_io_uring_register :: u32

definition is_open :: "abi \<Rightarrow> u32 \<Rightarrow> bool" where
  "is_open a call \<longleftrightarrow>
     (abi_target a = X86_64 \<and> call = SYS_open a) \<or> call = SYS_openat a \<or> call = SYS_openat2 a"

abbreviation SECCOMP_RET_KILL_PROCESS :: u32 where "SECCOMP_RET_KILL_PROCESS \<equiv> 0x80000000"
abbreviation SECCOMP_RET_ERRNO :: u32 where "SECCOMP_RET_ERRNO \<equiv> 0x00050000"
abbreviation SECCOMP_RET_USER_NOTIF :: u32 where "SECCOMP_RET_USER_NOTIF \<equiv> 0x7fc00000"
abbreviation SECCOMP_RET_ALLOW :: u32 where "SECCOMP_RET_ALLOW \<equiv> 0x7fff0000"
abbreviation SECCOMP_USER_NOTIF_FLAG_CONTINUE :: u32 where "SECCOMP_USER_NOTIF_FLAG_CONTINUE \<equiv> 1"
abbreviation SOL_SOCKET :: u32 where "SOL_SOCKET \<equiv> 1"
abbreviation SO_PEERNAME :: u32 where "SO_PEERNAME \<equiv> 28"
abbreviation MSG_OOB :: u32 where "MSG_OOB \<equiv> 1"
abbreviation MSG_FASTOPEN :: u32 where "MSG_FASTOPEN \<equiv> 0x20000000"

section \<open>The filter\<close>

record sock_filter =
  sf_code :: u16
  sf_jt :: u8
  sf_jf :: u8
  sf_k :: u32

abbreviation LOAD :: u16 where "LOAD \<equiv> 0x20"
abbreviation JEQ :: u16 where "JEQ \<equiv> 0x15"
abbreviation JSET :: u16 where "JSET \<equiv> 0x45"
abbreviation RET :: u16 where "RET \<equiv> 0x06"

definition statement :: "u16 \<Rightarrow> u32 \<Rightarrow> sock_filter" where
  "statement code k = \<lparr>sf_code = code, sf_jt = 0, sf_jf = 0, sf_k = k\<rparr>"

definition jump :: "u16 \<Rightarrow> u32 \<Rightarrow> u8 \<Rightarrow> u8 \<Rightarrow> sock_filter" where
  "jump code k jt jf = \<lparr>sf_code = code, sf_jt = jt, sf_jf = jf, sf_k = k\<rparr>"

definition off_nr :: u32 where "off_nr = of_nat (c_offset Data_layout 0)"
definition off_arch :: u32 where "off_arch = of_nat (c_offset Data_layout 1)"
definition off_args :: u32 where "off_args = of_nat (c_offset Data_layout 3)"

definition deny :: "u32 \<Rightarrow> sock_filter list" where
  "deny syscall =
     [jump JEQ syscall 0 1, statement RET (SECCOMP_RET_ERRNO OR of_int ENOSYS)]"

definition notify :: "u32 \<Rightarrow> sock_filter list" where
  "notify syscall = [jump JEQ syscall 0 1, statement RET SECCOMP_RET_USER_NOTIF]"

definition prologue :: "abi \<Rightarrow> sock_filter list" where
  "prologue a =
     [statement LOAD off_arch,
      jump JEQ (NATIVE_ARCH (abi_target a)) 1 0,
      statement RET SECCOMP_RET_KILL_PROCESS,
      statement LOAD off_nr,
      jump JSET 0x40000000 0 1,
      statement RET (SECCOMP_RET_ERRNO OR of_int ENOSYS)]"

definition peer_name_option :: "abi \<Rightarrow> sock_filter list" where
  "peer_name_option a =
     [jump JEQ (SYS_getsockopt a) 0 6,
      statement LOAD (off_args + 8),
      jump JEQ SOL_SOCKET 0 3,
      statement LOAD (off_args + 16),
      jump JEQ SO_PEERNAME 0 1,
      statement RET SECCOMP_RET_USER_NOTIF,
      statement RET SECCOMP_RET_ALLOW]"

definition plain_io :: "u32 \<times> u32 \<Rightarrow> sock_filter list" where
  "plain_io = (\<lambda>(syscall, flags).
     [jump JEQ syscall 0 8,
      statement LOAD (off_args + 3 * 8),
      jump JSET flags 5 0,
      statement LOAD (off_args + 4 * 8),
      jump JEQ 0 0 3,
      statement LOAD (off_args + 4 * 8 + 4),
      jump JEQ 0 0 1,
      statement RET SECCOMP_RET_ALLOW,
      statement RET SECCOMP_RET_USER_NOTIF])"

definition notified :: "abi \<Rightarrow> u32 list" where
  "notified a =
     (case abi_target a of X86_64 \<Rightarrow> [SYS_open a] | Aarch64 \<Rightarrow> [])
     @ [SYS_openat a, SYS_openat2 a, SYS_socket a, SYS_connect a, SYS_getpeername a,
        SYS_sendmsg a, SYS_sendmmsg a, SYS_recvmsg a, SYS_recvmmsg a]"

definition seccomp_filter :: "abi \<Rightarrow> sock_filter list" where
  "seccomp_filter a =
     prologue a
     @ concat (map deny [SYS_io_uring_setup a, SYS_io_uring_enter a, SYS_io_uring_register a])
     @ peer_name_option a
     @ concat (map plain_io [(SYS_sendto a, MSG_OOB OR MSG_FASTOPEN), (SYS_recvfrom a, MSG_OOB)])
     @ concat (map notify (notified a))
     @ [statement RET SECCOMP_RET_ALLOW]"

section \<open>The interpreter\<close>

definition bpf_load :: "seccomp_data \<Rightarrow> u32 \<Rightarrow> u32" where
  "bpf_load d k =
     (if k = off_arch then sd_arch d
      else if k = off_nr then sd_nr d
      else let offset = unat (k - off_args)
           in ucast (drop_bit (offset mod 8 * 8) (sd_args d ! (offset div 8))))"

text \<open>
  The instructions from the program counter on. Jumps only go forward, so a jump drops
  instructions; running past the end is \<open>None\<close>, as the evaluator would panic.
\<close>

function bpf_run :: "seccomp_data \<Rightarrow> u32 \<Rightarrow> sock_filter list \<Rightarrow> u32 option" where
  "bpf_run d acc [] = None"
| "bpf_run d acc (i # rest) =
     (if sf_code i = LOAD then bpf_run d (bpf_load d (sf_k i)) rest
      else if sf_code i = JEQ
      then bpf_run d acc (drop (unat (if acc = sf_k i then sf_jt i else sf_jf i)) rest)
      else if sf_code i = JSET
      then bpf_run d acc (drop (unat (if acc AND sf_k i \<noteq> 0 then sf_jt i else sf_jf i)) rest)
      else if sf_code i = RET then Some (sf_k i)
      else None)"
  by pat_completeness auto
termination
  by (relation "measure (\<lambda>(d, acc, p). length p)") auto

declare bpf_run.simps [simp del]

definition evaluate :: "abi \<Rightarrow> seccomp_data \<Rightarrow> u32 option" where
  "evaluate a d = bpf_run d 0 (seccomp_filter a)"

section \<open>What the filter decides\<close>

lemma layout_values:
  "off_nr = 0" "off_arch = 4" "off_args = 16"
  "c_size Data_layout = 64" "c_align Data_layout = 8" "c_size Notification_layout = 80"
  "c_size Response_layout = 24" "c_size AddFd_layout = 24"
  by (simp_all add: off_nr_def off_arch_def off_args_def c_offset_def c_size_def c_align_def
      Data_layout_def Notification_layout_def Response_layout_def AddFd_layout_def align_up_def
      max_def)

lemma bpf_statement [simp]:
  "bpf_run d acc (statement LOAD k # rest) = bpf_run d (bpf_load d k) rest"
  "bpf_run d acc (statement RET k # rest) = Some k"
  by (simp_all add: statement_def bpf_run.simps)

lemma bpf_jump [simp]:
  "bpf_run d acc (jump JEQ k jt jf # rest) = bpf_run d acc (drop (unat (if acc = k then jt else jf)) rest)"
  "bpf_run d acc (jump JSET k jt jf # rest) =
     bpf_run d acc (drop (unat (if acc AND k \<noteq> 0 then jt else jf)) rest)"
  by (simp_all add: jump_def bpf_run.simps)

lemma load_values:
  "bpf_load d off_arch = sd_arch d" "bpf_load d off_nr = sd_nr d"
  "bpf_load d (off_args + 8) = ucast (sd_args d ! 1)"
  "bpf_load d (off_args + 16) = ucast (sd_args d ! 2)"
  "bpf_load d (off_args + 3 * 8) = ucast (sd_args d ! 3)"
  "bpf_load d (off_args + 4 * 8) = ucast (sd_args d ! 4)"
  "bpf_load d (off_args + 4 * 8 + 4) = ucast (drop_bit 32 (sd_args d ! 4))"
  by (simp_all add: bpf_load_def layout_values Let_def)

lemma run_deny:
  "bpf_run d acc (deny n @ rest) =
     (if acc = n then Some (SECCOMP_RET_ERRNO OR 38) else bpf_run d acc rest)"
  by (simp add: deny_def)

lemma run_deny_all:
  "bpf_run d acc (concat (map deny ns) @ rest) =
     (if acc \<in> set ns then Some (SECCOMP_RET_ERRNO OR 38) else bpf_run d acc rest)"
  by (induction ns) (simp_all add: run_deny)

lemma run_notify_all:
  "bpf_run d acc (concat (map notify ns) @ rest) =
     (if acc \<in> set ns then Some SECCOMP_RET_USER_NOTIF else bpf_run d acc rest)"
  by (induction ns) (simp_all add: notify_def)

lemma run_peer_name_option:
  "bpf_run d acc (peer_name_option a @ rest) =
     (if acc = SYS_getsockopt a
      then Some (if ucast (sd_args d ! 1) = SOL_SOCKET \<and> ucast (sd_args d ! 2) = SO_PEERNAME
                 then SECCOMP_RET_USER_NOTIF else SECCOMP_RET_ALLOW)
      else bpf_run d acc rest)"
  by (simp add: peer_name_option_def load_values)

text \<open>The two halves of a 64-bit pointer are zero exactly when the pointer is.\<close>

lemma halves_zero:
  "(ucast (w :: u64) :: u32) = 0 \<and> (ucast (drop_bit 32 w) :: u32) = 0 \<longleftrightarrow> w = 0"
proof
  assume h: "(ucast w :: u32) = 0 \<and> (ucast (drop_bit 32 w) :: u32) = 0"
  show "w = 0"
  proof (rule bit_word_eqI)
    fix n assume n: "n < LENGTH(64)"
    show "bit w n = bit (0 :: u64) n"
    proof (cases "n < 32")
      case True
      have "bit (ucast w :: u32) n = bit w n" using True by (simp add: bit_simps)
      with h show ?thesis by simp
    next
      case False
      have "bit (ucast (drop_bit 32 w) :: u32) (n - 32) = bit w n"
        using False n by (auto simp: bit_simps)
      with h show ?thesis by simp
    qed
  qed
qed simp

lemma run_plain_io:
  "bpf_run d acc (plain_io (n, flags) @ rest) =
     (if acc = n
      then Some (if ucast (sd_args d ! 3) AND flags \<noteq> 0 \<or> sd_args d ! 4 \<noteq> 0
                 then SECCOMP_RET_USER_NOTIF else SECCOMP_RET_ALLOW)
      else bpf_run d acc rest)"
  using halves_zero [of "sd_args d ! 4"]
  by (auto simp: plain_io_def bpf_load_def layout_values Let_def)

lemma run_prologue:
  "bpf_run d acc (prologue a @ rest) =
     (if sd_arch d \<noteq> NATIVE_ARCH (abi_target a) then Some SECCOMP_RET_KILL_PROCESS
      else if sd_nr d AND 0x40000000 \<noteq> 0 then Some (SECCOMP_RET_ERRNO OR 38)
      else bpf_run d (sd_nr d) rest)"
  by (simp add: prologue_def load_values)

text \<open>
  The numbers of distinct calls are distinct, and none has the bit that marks x32 calls. This
  is the kernel's system call table.
\<close>

definition abi_ok :: "abi \<Rightarrow> bool" where
  "abi_ok a \<longleftrightarrow>
     distinct (notified a @ [SYS_getsockopt a, SYS_sendto a, SYS_recvfrom a, SYS_io_uring_setup a,
                 SYS_io_uring_enter a, SYS_io_uring_register a])
     \<and> list_all (\<lambda>n. n AND 0x40000000 = 0) (notified a @ [SYS_getsockopt a, SYS_sendto a, SYS_recvfrom a])"

text \<open>The calls that must reach the broker.\<close>

definition wants_broker :: "abi \<Rightarrow> seccomp_data \<Rightarrow> bool" where
  "wants_broker a d \<longleftrightarrow>
     sd_nr d \<in> set (notified a)
     \<or> sd_nr d = SYS_getsockopt a \<and> ucast (sd_args d ! 1) = SOL_SOCKET \<and> ucast (sd_args d ! 2) = SO_PEERNAME
     \<or> sd_nr d = SYS_sendto a
       \<and> (ucast (sd_args d ! 3) AND (MSG_OOB OR MSG_FASTOPEN) \<noteq> 0 \<or> sd_args d ! 4 \<noteq> 0)
     \<or> sd_nr d = SYS_recvfrom a \<and> (ucast (sd_args d ! 3) AND MSG_OOB \<noteq> 0 \<or> sd_args d ! 4 \<noteq> 0)"

definition io_uring :: "abi \<Rightarrow> u32 list" where
  "io_uring a = [SYS_io_uring_setup a, SYS_io_uring_enter a, SYS_io_uring_register a]"

lemma evaluate_chain:
  "evaluate a d =
     Some (if sd_arch d \<noteq> NATIVE_ARCH (abi_target a) then SECCOMP_RET_KILL_PROCESS
           else if sd_nr d AND 0x40000000 \<noteq> 0 \<or> sd_nr d \<in> set (io_uring a) then SECCOMP_RET_ERRNO OR 38
           else if sd_nr d = SYS_getsockopt a
           then (if ucast (sd_args d ! 1) = SOL_SOCKET \<and> ucast (sd_args d ! 2) = SO_PEERNAME
                 then SECCOMP_RET_USER_NOTIF else SECCOMP_RET_ALLOW)
           else if sd_nr d = SYS_sendto a
           then (if ucast (sd_args d ! 3) AND (MSG_OOB OR MSG_FASTOPEN) \<noteq> 0 \<or> sd_args d ! 4 \<noteq> 0
                 then SECCOMP_RET_USER_NOTIF else SECCOMP_RET_ALLOW)
           else if sd_nr d = SYS_recvfrom a
           then (if ucast (sd_args d ! 3) AND MSG_OOB \<noteq> 0 \<or> sd_args d ! 4 \<noteq> 0
                 then SECCOMP_RET_USER_NOTIF else SECCOMP_RET_ALLOW)
           else if sd_nr d \<in> set (notified a) then SECCOMP_RET_USER_NOTIF else SECCOMP_RET_ALLOW)"
proof -
  have plain: "concat (map plain_io [x, y]) = plain_io x @ plain_io y" for x y by simp
  show ?thesis
    unfolding evaluate_def seccomp_filter_def run_prologue run_deny_all run_peer_name_option plain
      append_assoc run_plain_io run_notify_all bpf_statement io_uring_def [symmetric]
    by simp
qed


definition x86_64_abi :: abi where
  "x86_64_abi = \<lparr>abi_target = X86_64, SYS_open = 2, SYS_openat = 257, SYS_openat2 = 437, SYS_socket = 41,
     SYS_connect = 42, SYS_getpeername = 52, SYS_getsockopt = 55, SYS_sendto = 44, SYS_recvfrom = 45,
     SYS_sendmsg = 46, SYS_sendmmsg = 307, SYS_recvmsg = 47, SYS_recvmmsg = 299,
     SYS_io_uring_setup = 425, SYS_io_uring_enter = 426, SYS_io_uring_register = 427\<rparr>"


section \<open>The notification descriptor\<close>

text \<open>
  The requests the code makes on the descriptor. An action takes the kernel's answer to each
  request, and the requests made are kept in order.
\<close>

datatype seccomp_ioctl = AddFdSend add_fd | SendResponse response | CheckId u64 | Receive

type_synonym kernel = "seccomp_ioctl \<Rightarrow> unit io_result"

definition request_code :: "seccomp_ioctl \<Rightarrow> u64" where
  "request_code r =
     (case r of AddFdSend x \<Rightarrow> NOTIF_ADDFD | SendResponse x \<Rightarrow> NOTIF_SEND
      | CheckId x \<Rightarrow> NOTIF_ID_VALID | Receive \<Rightarrow> NOTIF_RECV)"

abbreviation O_CLOEXEC :: u32 where "O_CLOEXEC \<equiv> 0x80000"

definition addfd_send :: "kernel \<Rightarrow> u64 \<Rightarrow> u32 \<Rightarrow> bool \<Rightarrow> unit io_result \<times> seccomp_ioctl list" where
  "addfd_send k ident source cloexec =
     (let request = AddFdSend \<lparr>af_id = ident, af_flags = 2, af_srcfd = source, af_newfd = 0,
                      af_newfd_flags = if cloexec then O_CLOEXEC else 0\<rparr>
      in (k request, [request]))"

definition probe_addfd :: "kernel \<Rightarrow> u32 \<Rightarrow> unit io_result" where
  "probe_addfd k source =
     (case fst (addfd_send k (- 1) source True) of
        Err e \<Rightarrow> if raw_os_error e = Some ENOENT then Ok () else Err e
      | Ok u \<Rightarrow> Err (Custom OtherKind))"

definition receive :: "(notification io_result) \<Rightarrow> notification io_result \<times> seccomp_ioctl list" where
  "receive answer = (answer, [Receive])"

definition respond :: "kernel \<Rightarrow> u64 \<Rightarrow> int \<Rightarrow> int \<Rightarrow> bool \<Rightarrow> unit io_result \<times> seccomp_ioctl list" where
  "respond k ident val error continue_syscall =
     (if continue_syscall \<and> (val \<noteq> 0 \<or> error \<noteq> 0) then (Err (Custom InvalidInput), [])
      else let request = SendResponse \<lparr>rs_id = ident, rs_val = val,
                           rs_error = if error > 0 then - error else error,
                           rs_flags = if continue_syscall then SECCOMP_USER_NOTIF_FLAG_CONTINUE else 0\<rparr>
           in (k request, [request]))"

definition valid :: "kernel \<Rightarrow> u64 \<Rightarrow> bool io_result" where
  "valid k ident =
     (case k (CheckId ident) of
        Ok u \<Rightarrow> Ok True
      | Err e \<Rightarrow> if raw_os_error e = Some ENOENT then Ok False else Err e)"

text \<open>
  The control codes are those of the kernel's header: direction, size of the structure as
  laid out, type and number, for all four requests.
\<close>

lemma ioctl_codes:
  "NOTIF_RECV = 0xc0502100 \<and> NOTIF_SEND = 0xc0182101 \<and> NOTIF_ID_VALID = 0x40082102
   \<and> NOTIF_ADDFD = 0x40182103"
  by (simp add: NOTIF_RECV_def NOTIF_SEND_def NOTIF_ID_VALID_def NOTIF_ADDFD_def ioctl_request_def
      layout_values)

section \<open>Installation\<close>

text \<open>
  The kernel's answers during the installation: the structure sizes, the first word of the
  effective capabilities, the outcome of setting \<open>no_new_privs\<close>, and the descriptor.
\<close>

record install_kernel =
  ik_sizes :: "(u16 \<times> u16 \<times> u16) io_result"
  ik_capget :: "u32 io_result"
  ik_no_new_privs :: "unit io_result"
  ik_set_filter :: "u32 io_result"

datatype install_call = GetNotifSizes | CapGet | SetNoNewPrivs | SetModeFilter "sock_filter list"

definition has_sys_admin :: "install_kernel \<Rightarrow> bool io_result" where
  "has_sys_admin k = and_then (ik_capget k) (\<lambda>effective. Ok (effective AND push_bit 21 1 \<noteq> 0))"

definition install :: "abi \<Rightarrow> install_kernel \<Rightarrow> u32 io_result \<times> install_call list" where
  "install a k =
     (case ik_sizes k of
        Err e \<Rightarrow> (Err e, [GetNotifSizes])
      | Ok (nsize, rsize, dsize) \<Rightarrow>
          if unat nsize > c_size Notification_layout \<or> unat rsize > c_size Response_layout
             \<or> unat dsize > c_size Data_layout
          then (Err (Custom Unsupported), [GetNotifSizes])
          else (case has_sys_admin k of
                  Err e \<Rightarrow> (Err e, [GetNotifSizes, CapGet])
                | Ok True \<Rightarrow> (ik_set_filter k, [GetNotifSizes, CapGet, SetModeFilter (seccomp_filter a)])
                | Ok False \<Rightarrow>
                    (case ik_no_new_privs k of
                       Err e \<Rightarrow> (Err e, [GetNotifSizes, CapGet, SetNoNewPrivs])
                     | Ok u \<Rightarrow>
                         (ik_set_filter k,
                          [GetNotifSizes, CapGet, SetNoNewPrivs, SetModeFilter (seccomp_filter a)]))))"

text \<open>
  Installation is careful: the filter is installed only after the kernel's structures were
  found to fit the program's, only after privileges were given up unless the thread holds
  CAP_SYS_ADMIN, and it is the filter of this target; success implies that it was installed.
\<close>

lemma install_safe:
  assumes "install a k = (res, calls)"
  shows "(SetModeFilter p \<in> set calls \<longrightarrow>
            p = seccomp_filter a \<and> last calls = SetModeFilter p
            \<and> (\<exists>n r d. ik_sizes k = Ok (n, r, d) \<and> unat n \<le> 80 \<and> unat r \<le> 24 \<and> unat d \<le> 64)
            \<and> (has_sys_admin k = Ok True \<or> SetNoNewPrivs \<in> set calls \<and> ik_no_new_privs k = Ok ()))
         \<and> (is_ok res \<longrightarrow> SetModeFilter (seccomp_filter a) \<in> set calls)"
  using assms
  by (auto simp: install_def layout_values split: result.splits prod.splits if_splits bool.splits)

text \<open>
  A response never reports success and failure at once: a continued call carries neither
  value nor error and is refused locally otherwise, and an error reaches the kernel as a
  negative errno under either sign convention.
\<close>

lemma respond_convention:
  assumes "respond k ident val error cont = (res, calls)"
  shows "(cont \<and> (val \<noteq> 0 \<or> error \<noteq> 0) \<longrightarrow> res = Err (Custom InvalidInput) \<and> calls = [])
         \<and> (\<forall>r. SendResponse r \<in> set calls \<longrightarrow>
              rs_id r = ident \<and> rs_error r \<le> 0 \<and> \<bar>rs_error r\<bar> = \<bar>error\<bar>
              \<and> (rs_flags r = SECCOMP_USER_NOTIF_FLAG_CONTINUE \<longrightarrow> rs_val r = 0 \<and> rs_error r = 0))"
  using assms by (auto simp: respond_def Let_def split: if_splits)

end
