(* ===== verification/Memory.thy ===== *)
theory Memory
  imports Access Tcp_Stream Net_Addr Seccomp
begin

text \<open>
  \<open>src/broker/memory.rs\<close>: the arguments of a notified system call, read from the memory of
  the target, and the addresses written back into it.

  The operations are actions on the target of \<open>Access\<close>. A path is read in chunks that
  stay within a page; \<open>c_string\<close> is the byte by byte reference it is compared with.
\<close>

abbreviation AF_INET_u16 :: u16 where "AF_INET_u16 \<equiv> 2"
abbreviation I32_MAX :: nat where "I32_MAX \<equiv> 2147483647"

type_synonym 'a on_target = "('a, io_error, target) action"

section \<open>Reading\<close>

definition memory_read :: "u32 \<Rightarrow> u64 \<Rightarrow> nat \<Rightarrow> bytes on_target" where
  "memory_read tid address len = read_exact_at tid address len"

lemma seq_do_cong [fundef_cong]:
  "m = m' \<Longrightarrow> (\<And>a s s'. m' s = (Ok a, s') \<Longrightarrow> f a = f' a) \<Longrightarrow> seq_do m f = seq_do m' f'"
  by (intro ext) (auto simp: seq_do_def split: prod.split result.split)

definition chunk_size :: "u64 \<Rightarrow> nat \<Rightarrow> nat" where
  "chunk_size pointer got =
     min (min (4096 - got) 256) (4096 - unat (pointer AND 4095))"

lemma and_4095: "unat (p AND 4095 :: u64) = unat p mod 4096"
proof -
  have "p AND 4095 = take_bit 12 p" by (simp add: take_bit_eq_mask mask_eq_exp_minus_1)
  then show ?thesis by (simp add: unat_mod_distrib take_bit_eq_mod)
qed

lemma chunk_size_bounds:
  "got < 4096 \<Longrightarrow> 0 < chunk_size p got" "chunk_size p got \<le> 4096 - got" "chunk_size p got \<le> 256"
  "chunk_size p got \<le> 4096 - unat p mod 4096"
  by (auto simp: chunk_size_def and_4095)

lemma memory_read_length: "memory_read tid a n t = (Ok bs, t') \<Longrightarrow> length bs = n"
  using remote.rd_length [of tid a n t bs] by (simp add: memory_read_def)

function path_loop :: "u32 \<Rightarrow> u64 \<Rightarrow> bytes \<Rightarrow> bytes on_target" where
  "path_loop tid address bs =
     (if length bs < 4096 then
        if 2 ^ 64 \<le> unat address + length bs then fail (Os EFAULT)
        else
          let pointer = address + of_nat (length bs) in
          seq_do (memory_read tid pointer (chunk_size pointer (length bs))) (\<lambda>chunk.
            if 0 \<in> set chunk then yield (bs @ takeWhile (\<lambda>b. b \<noteq> 0) chunk)
            else path_loop tid address (bs @ chunk))
      else fail (Os ENAMETOOLONG))"
  by pat_completeness auto
termination
proof (relation "measure (\<lambda>(tid, a, bs). 4096 - length bs)", goal_cases)
  case (2 tid address bs pointer chunk s s')
  then have "length chunk = chunk_size pointer (length bs)" by (auto dest: memory_read_length)
  with 2 chunk_size_bounds(1) [of "length bs" pointer] show ?case by simp
qed simp

declare path_loop.simps [simp del]

definition path :: "u32 \<Rightarrow> u64 \<Rightarrow> bytes on_target" where
  "path tid address = path_loop tid address []"

definition u32_at :: "u32 \<Rightarrow> u64 \<Rightarrow> u32 on_target" where
  "u32_at tid address = seq_do (read_exact_at tid address 4) (\<lambda>bs. yield (from_ne_bytes bs))"

definition family :: "u32 \<Rightarrow> u64 \<Rightarrow> u64 \<Rightarrow> u16 on_target" where
  "family tid address len =
     (if len < 2 \<or> unat len > I32_MAX then fail (Os EINVAL)
      else seq_do (read_exact_at tid address 2) (\<lambda>bs. yield (from_ne_bytes bs)))"

definition ipv4_at :: "u32 \<Rightarrow> u64 \<Rightarrow> u64 \<Rightarrow> sock_addr_v4 on_target" where
  "ipv4_at tid address len =
     seq_do (family tid address len) (\<lambda>fam.
       if fam \<noteq> AF_INET_u16 then fail (Os EAFNOSUPPORT)
       else if len < 16 then fail (Os EINVAL)
       else seq_do (memory_read tid address 16) (\<lambda>bs.
         yield (sock_addr (ipv4_new (bs ! 4) (bs ! 5) (bs ! 6) (bs ! 7)) (from_be_bytes [bs ! 2, bs ! 3]))))"

section \<open>Writing\<close>

definition address_bytes :: "sock_addr_v4 \<Rightarrow> bytes" where
  "address_bytes address =
     copy_at 4 (octets (sa_ip address))
       (copy_at 2 (to_be_bytes (sa_port address))
         (copy_at 0 (to_ne_bytes AF_INET_u16) (replicate 16 0)))"

definition put_address :: "u32 \<Rightarrow> u64 \<Rightarrow> u32 \<Rightarrow> sock_addr_v4 \<Rightarrow> unit on_target" where
  "put_address tid pointer capacity address =
     (if unat capacity > I32_MAX then fail (Os EINVAL)
      else write_exact_at tid pointer (take (min (unat capacity) 16) (address_bytes address)))"

definition name_arguments :: "abi \<Rightarrow> notification \<Rightarrow> u64 \<times> u64" where
  "name_arguments A n =
     (let args = sd_args (nt_data n)
      in if sd_nr (nt_data n) = SYS_getsockopt A then (args ! 3, args ! 4) else (args ! 1, args ! 2))"

definition peer_name :: "abi \<Rightarrow> notification \<Rightarrow> sock_addr_v4 \<Rightarrow> unit on_target" where
  "peer_name A n address =
     (let tid = nt_pid n;
          socket_option = (sd_nr (nt_data n) = SYS_getsockopt A);
          (pointer, len) = name_arguments A n
      in seq_do (u32_at tid len) (\<lambda>capacity.
           if socket_option \<and> capacity > 16 then fail (Os EINVAL)
           else seq_do (put_address tid pointer capacity address) (\<lambda>_.
             let returned = (if socket_option then capacity else 16)
             in write_exact_at tid len (to_ne_bytes returned))))"

text \<open>
  \<open>nonblocking\<close>, given what \<open>fcntl(F_GETFL)\<close> answers.
\<close>

definition nonblocking :: "u32 io_result \<Rightarrow> u32 \<Rightarrow> bool io_result" where
  "nonblocking getfl flags =
     and_then getfl (\<lambda>status. Ok (status AND 0x800 \<noteq> 0 \<or> flags AND 0x40 \<noteq> 0))"

section \<open>Paths\<close>

text \<open>
  The reference: the string at an address, byte by byte, of fewer than \<open>n\<close> bytes.
\<close>

fun c_string :: "memory \<Rightarrow> u64 \<Rightarrow> nat \<Rightarrow> bytes io_result" where
  "c_string m a 0 = Err (Os ENAMETOOLONG)"
| "c_string m a (Suc n) =
     (case m a of
        None \<Rightarrow> Err (Os EFAULT)
      | Some b \<Rightarrow> if b = 0 then Ok [] else and_then (c_string m (a + 1) n) (\<lambda>bs. Ok (b # bs)))"

text \<open>
  Memory of a user process: it is mapped in whole pages, and neither the first nor the last
  page of the address space is.
\<close>

definition user_memory :: "memory \<Rightarrow> bool" where
  "user_memory m \<longleftrightarrow>
     (\<forall>a b. unat a div 4096 = unat b div 4096 \<longrightarrow> m a = None \<longrightarrow> m b = None)
     \<and> m 0 = None \<and> (\<forall>a. 2 ^ 64 - 4096 \<le> unat a \<longrightarrow> m a = None)"

lemma same_page:
  "user_memory m \<Longrightarrow> unat a div 4096 = unat b div 4096 \<Longrightarrow> m a = None \<longleftrightarrow> m b = None"
  unfolding user_memory_def by metis

lemma user_address:
  assumes "user_memory m" "m a \<noteq> None"
  shows "a \<noteq> 0" "unat a < 2 ^ 64 - 4096"
proof -
  from assms(1) have "m 0 = None" and "\<forall>a. 2 ^ 64 - 4096 \<le> unat a \<longrightarrow> m a = None"
    unfolding user_memory_def by simp_all
  with assms(2) show "a \<noteq> 0" "unat a < 2 ^ 64 - 4096" by (auto simp only: not_le [symmetric])
qed

lemma unat_add_small: "unat a + i < 2 ^ 64 \<Longrightarrow> unat (a + of_nat i :: u64) = unat a + i"
proof -
  assume l: "unat a + i < 2 ^ 64"
  then have "unat (of_nat i :: u64) = i" by (intro unat_of_nat_small) simp
  with l show ?thesis by (simp only: unat_word_ariths(1)) simp
qed

lemma mapped_iff: "mapped m a n = n \<longleftrightarrow> (\<forall>i < n. m (a + of_nat i) \<noteq> None)"
proof (induction n arbitrary: a)
  case (Suc n)
  have "mapped m a (Suc n) = Suc n \<longleftrightarrow> m a \<noteq> None \<and> mapped m (a + 1) n = n" by simp
  also have "\<dots> \<longleftrightarrow> (\<forall>i < Suc n. m (a + of_nat i) \<noteq> None)"
    unfolding Suc.IH All_less_Suc2 by (simp add: algebra_simps)
  finally show ?case .
qed simp

lemma page_end:
  assumes a: "i < 4096 - n mod (4096::nat)"
  shows "(n + i) div 4096 = n div 4096" "n < 18446744073709551616 \<Longrightarrow> n + i < 18446744073709551616"
proof -
  have n: "n = 4096 * (n div 4096) + n mod 4096" by simp
  moreover have "n mod 4096 + i < 4096" using a by simp
  ultimately have b: "4096 * (n div 4096) \<le> n + i" "n + i < 4096 * Suc (n div 4096)"
    unfolding mult_Suc_right by linarith+
  then show "(n + i) div 4096 = n div 4096" by (rule div_nat_eqI)
  assume "n < 18446744073709551616"
  then have "n div 4096 < 4503599627370496" using n by linarith
  then have "4096 * Suc (n div 4096) \<le> 4096 * 4503599627370496" by (intro mult_le_mono2) simp
  with b(2) show "n + i < 18446744073709551616" by simp
qed

lemma within_page:
  assumes "i < 4096 - unat p mod 4096"
  shows "unat (p + of_nat i :: u64) = unat p + i" "(unat p + i) div 4096 = unat p div 4096"
  using page_end [OF assms] unsigned_less [of p, where 'a = nat]
  by (simp_all add: unat_word_ariths(1) unat_of_nat)

lemma read_chunk:
  assumes "user_memory (tg_mem t)" "check_tid tid = Ok ()" "0 < n" "n \<le> 4096 - unat p mod 4096"
  shows "fst (memory_read tid p n t) =
      (if tg_mem t p = None then Err (Os EFAULT) else Ok (bytes_at (tg_mem t) p n))"
    and "tg_mem t p \<noteq> None \<Longrightarrow> mapped (tg_mem t) p n = n \<and> unat p + n < 2 ^ 64"
proof -
  let ?m = "tg_mem t"
  have eq: "?m (p + of_nat i) = None \<longleftrightarrow> ?m p = None" if "i < n" for i
  proof (rule same_page [OF assms(1)])
    have "i < 4096 - unat p mod 4096" using that assms(4) by linarith
    then show "unat (p + of_nat i) div 4096 = unat p div 4096" by (simp only: within_page)
  qed
  have unm: "mapped ?m p n \<noteq> n" if "?m p = None"
    unfolding mapped_iff using that assms(3) by (intro notI) (drule spec [of _ 0], simp)
  show all: "mapped ?m p n = n \<and> unat p + n < 2 ^ 64" if "?m p \<noteq> None"
  proof
    show "mapped ?m p n = n" unfolding mapped_iff by (intro allI impI) (simp add: eq that)
    show "unat p + n < 2 ^ 64" using user_address(2) [OF assms(1) that] assms(4) by linarith
  qed
  show "fst (memory_read tid p n t) =
      (if ?m p = None then Err (Os EFAULT) else Ok (bytes_at ?m p n))"
  proof (cases "?m p = None")
    case True
    with unm assms(2,3) show ?thesis
      by (simp add: memory_read_def remote.rd_value reachable_def)
  next
    case False
    with all [OF False] user_address(1) [OF assms(1) False] assms(2,3) show ?thesis
      by (simp add: memory_read_def remote.rd_value reachable_def)
  qed
qed

lemma c_string_None: "m a = None \<Longrightarrow> 0 < n \<Longrightarrow> c_string m a n = Err (Os EFAULT)"
  by (cases n) simp_all

lemma c_string_chunk:
  "mapped m a k = k \<Longrightarrow> c_string m a (k + n) =
     (if 0 \<in> set (bytes_at m a k) then Ok (takeWhile (\<lambda>b. b \<noteq> 0) (bytes_at m a k))
      else and_then (c_string m (a + of_nat k) n) (\<lambda>bs. Ok (bytes_at m a k @ bs)))"
proof (induction k arbitrary: a)
  case 0
  then show ?case by (cases "c_string m a n") simp_all
next
  case (Suc k)
  then obtain b where b: "m a = Some b" "mapped m (a + 1) k = k" by (auto split: if_splits)
  from Suc.IH [OF b(2)] b(1) show ?case
    by (cases "c_string m (a + (1 + of_nat k)) n") (auto simp: add.assoc)
qed

lemma path_loop_string:
  assumes "user_memory (tg_mem t)" "check_tid tid = Ok ()" "length bs \<le> 4096"
    and "unat address + length bs < 2 ^ 64"
  shows "fst (path_loop tid address bs t) =
      and_then (c_string (tg_mem t) (address + of_nat (length bs)) (4096 - length bs)) (\<lambda>r. Ok (bs @ r))"
  using assms
proof (induction "4096 - length bs" arbitrary: bs t rule: less_induct)
  case less
  let ?p = "address + of_nat (length bs)" and ?n = "4096 - length bs" and ?m = "tg_mem t"
  let ?k = "chunk_size ?p (length bs)"
  show ?case
  proof (cases "length bs = 4096")
    case True
    then show ?thesis by (subst path_loop.simps) (simp add: fail_def)
  next
    case False
    with less.prems(3) have l: "length bs < 4096" by simp
    note k = chunk_size_bounds [where got = "length bs" and p = ?p]
    note chunk = read_chunk [OF less.prems(1,2) k(1) [OF l] k(4)]
    obtain r t' where r: "memory_read tid ?p ?k t = (r, t')" by force
    then have m': "tg_mem t' = ?m"
      using remote.rd_view [of tid ?p ?k t] by (simp add: memory_read_def)
    have step: "path_loop tid address bs t =
        seq_do (memory_read tid ?p ?k) (\<lambda>chunk.
          if 0 \<in> set chunk then yield (bs @ takeWhile (\<lambda>b. b \<noteq> 0) chunk)
          else path_loop tid address (bs @ chunk)) t"
      using l less.prems(4) by (subst path_loop.simps) (simp add: Let_def)
    show ?thesis
    proof (cases "?m ?p = None")
      case True
      with chunk(1) r have "r = Err (Os EFAULT)" by simp
      with r step l c_string_None [of ?m ?p ?n, OF True] show ?thesis by simp
    next
      case False
      let ?c = "bytes_at ?m ?p ?k"
      from False chunk(1) r have r': "r = Ok ?c" by simp
      note mp = chunk(2) [OF False]
      have n: "?n = ?k + (4096 - length (bs @ ?c))" using k(2) by simp
      note str = c_string_chunk [of ?m ?p ?k "4096 - length (bs @ ?c)", folded n, OF mp [THEN conjunct1]]
      show ?thesis
      proof (cases "0 \<in> set ?c")
        case True
        with r r' step str show ?thesis by (simp add: yield_def)
      next
        case nz: False
        have "unat ?p = unat address + length bs" using less.prems(4) by (rule unat_add_small)
        with mp have "unat address + length (bs @ ?c) < 2 ^ 64" by simp
        with less.hyps [of "bs @ ?c" t'] less.prems(1,2) m' k l
        have ih: "fst (path_loop tid address (bs @ ?c) t') =
            and_then (c_string ?m (?p + of_nat ?k) (4096 - length (bs @ ?c))) (\<lambda>r. Ok ((bs @ ?c) @ r))"
          by (simp add: add.assoc)
        have "path_loop tid address bs t = path_loop tid address (bs @ ?c) t'"
          using r r' step nz by simp
        with ih str nz show ?thesis
          by (cases "c_string ?m (?p + of_nat ?k) (4096 - length (bs @ ?c))") simp_all
      qed
    qed
  qed
qed

text \<open>
  C29. Reading a path is reading the string byte by byte: the chunks of at most 256 bytes, none of
  which crosses a page, give for every user memory and every schedule of the kernel the bytes
  before the first zero byte, \<open>EFAULT\<close> exactly when a byte before it is not mapped, and
  \<open>ENAMETOOLONG\<close> exactly when the first 4096 bytes have no zero byte.
\<close>

theorem path_is_c_string:
  assumes "user_memory (tg_mem t)" and "check_tid tid = Ok ()"
  shows "fst (path tid address t) = c_string (tg_mem t) address 4096"
  using path_loop_string [OF assms, of "[]" address] unsigned_less [of address, where 'a = nat]
  by (cases "c_string (tg_mem t) address 4096") (simp_all add: path_def)

definition short_path_memory :: memory where
  "short_path_memory a =
     (if unat a div 4096 = 1 then Some (if a = 0x1ffe then 0x2f else 0) else None)"

theorem path_is_c_string_witness:
  "fst (path 7 0x1ffe \<lparr>tg_mem = short_path_memory, tg_vm = [Signal, Upto 1]\<rparr>) = Ok [0x2f]"
proof -
  have "user_memory short_path_memory"
    by (auto simp: user_memory_def short_path_memory_def)
  then have "fst (path 7 0x1ffe \<lparr>tg_mem = short_path_memory, tg_vm = [Signal, Upto 1]\<rparr>)
      = c_string short_path_memory 0x1ffe (Suc (Suc 4094))"
    using path_is_c_string [of "\<lparr>tg_mem = short_path_memory, tg_vm = [Signal, Upto 1]\<rparr>" 7 "0x1ffe"]
    by (simp add: check_tid_def)
  then show ?thesis by (simp only: c_string.simps) (simp add: short_path_memory_def)
qed

section \<open>Addresses\<close>

lemma address_bytes_list:
  "address_bytes a = [2, 0] @ to_be_bytes (sa_port a) @ octets (sa_ip a) @ replicate 8 0"
proof -
  have r: "replicate 16 (0 :: u8) = [0, 0, 0, 0] @ replicate 4 0 @ replicate 8 0"
    by (simp add: numeral_eq_Suc)
  have n: "to_ne_bytes AF_INET_u16 = [2, 0]"
    by (simp add: to_ne_bytes_def upt_rec)
  show ?thesis unfolding address_bytes_def copy_at_def r n by (simp add: octets_def)
qed

lemma length_address_bytes [simp]: "length (address_bytes a) = 16"
  by (simp add: address_bytes_list octets_def)

lemma bytes_at_take: "k \<le> n \<Longrightarrow> bytes_at m a k = take k (bytes_at m a n)"
  using bytes_at_add [of m a k "n - k"] by simp

lemma reachable_Ok_iff:
  "reachable m tid a n = Ok () \<longleftrightarrow>
     n = 0 \<or> check_tid tid = Ok () \<and> a \<noteq> 0 \<and> unat a + n < 2 ^ 64 \<and> mapped m a n = n"
  by (auto simp: reachable_def and_then_Ok_iff not_le)

lemma reachable_mono:
  assumes "reachable m tid a n = Ok ()" "k \<le> n"
  shows "reachable m tid a k = Ok ()"
proof (cases "n = 0")
  case False
  with assms(1) have n: "check_tid tid = Ok ()" "a \<noteq> 0" "unat a + n < 2 ^ 64" "mapped m a n = n"
    unfolding reachable_Ok_iff by blast+
  from n(3) assms(2) have "unat a + k < 2 ^ 64" by linarith
  moreover from n(4) assms(2) have "mapped m a k = k" unfolding mapped_iff by simp
  ultimately show ?thesis unfolding reachable_Ok_iff using n(1,2) by blast
qed (use assms in simp)

lemma rd_prefix:
  "fst (read_exact_at tid a n t) = Ok bs \<Longrightarrow> k \<le> n \<Longrightarrow> fst (read_exact_at tid a k t) = Ok (take k bs)"
  using reachable_mono [of "tg_mem t" tid a n k] by (simp add: remote.rd_Ok_iff bytes_at_take [of k n])

lemma seq_do_fst:
  "fst (m s) = Ok a \<Longrightarrow> seq_do m f s = f a (snd (m s))"
  "fst (m s) = Err e \<Longrightarrow> fst (seq_do m f s) = Err e"
  by (cases "m s"; simp add: seq_do_def)+

lemma rd_same:
  "tg_mem t' = tg_mem t \<Longrightarrow> fst (read_exact_at tid a n t') = fst (read_exact_at tid a n t)"
  by (simp add: remote.rd_value)

lemma u32_at_bytes:
  "fst (read_exact_at tid a 4 t) = Ok bs \<Longrightarrow> fst (u32_at tid a t) = Ok (from_ne_bytes bs)"
  by (simp add: u32_at_def seq_do_fst yield_def)

lemma four_bytes: "length xs = 4 \<Longrightarrow> [xs ! 0, xs ! Suc 0, xs ! 2, xs ! 3] = xs"
  by (simp add: list_eq_iff_nth_eq All_less_Suc numeral_eq_Suc)

lemma ipv4_at_bytes:
  assumes "fst (read_exact_at tid a 16 t) = Ok (address_bytes addr)"
    and "16 \<le> unat len" "unat len \<le> I32_MAX"
  shows "fst (ipv4_at tid a len t) = Ok addr"
proof -
  have f2: "fst (read_exact_at tid a 2 t) = Ok [2, 0]"
    using rd_prefix [OF assms(1), of 2] by (simp add: address_bytes_list)
  have len: "\<not> len < 2" "\<not> len < 16" using assms(2) by (simp_all add: word_less_nat_alt)
  have af: "from_ne_bytes [2, 0] = AF_INET_u16" by simp
  have fam: "family tid a len t = (Ok AF_INET_u16, snd (read_exact_at tid a 2 t))"
    using assms(3) len(1) af by (simp add: family_def seq_do_fst(1) f2 yield_def)
  have rd: "fst (memory_read tid a 16 (snd (read_exact_at tid a 2 t))) = Ok (address_bytes addr)"
    using assms(1) rd_same [OF remote.rd_view] by (simp add: memory_read_def)
  show ?thesis
    using len(2) by (simp add: ipv4_at_def fam seq_do_fst(1) rd yield_def address_bytes_list
        ipv4_new_def octets_def to_be_bytes_u16 nth_append)
      (simp add: four_bytes)
qed

text \<open>
  C31. The peer address an application reads back: when \<open>peer_name\<close> succeeds for a buffer that
  does not overlap its length word, the buffer holds the address truncated to the capacity the
  application gave, the length word holds 16 for \<open>getpeername\<close> and the capacity for
  \<open>getsockopt(SO_PEERNAME)\<close>, and with room for 16 bytes the buffer decodes to exactly the
  address.
\<close>

theorem peer_name_written:
  assumes "peer_name A n addr t = (Ok (), t')" and "name_arguments A n = (pointer, len)"
    and "\<forall>i < 16. \<forall>j < 4. pointer + of_nat i \<noteq> len + of_nat j"
  shows "\<exists>capacity. fst (u32_at (nt_pid n) len t) = Ok capacity
    \<and> fst (read_exact_at (nt_pid n) pointer (min (unat capacity) 16) t')
        = Ok (take (unat capacity) (address_bytes addr))
    \<and> fst (u32_at (nt_pid n) len t') = Ok (if sd_nr (nt_data n) = SYS_getsockopt A then capacity else 16)
    \<and> (16 \<le> capacity \<longrightarrow> fst (ipv4_at (nt_pid n) pointer 16 t') = Ok addr)"
proof -
  let ?tid = "nt_pid n" and ?so = "sd_nr (nt_data n) = SYS_getsockopt A"
  from assms(1,2) obtain capacity t1 t2 where
    c: "u32_at ?tid len t = (Ok capacity, t1)"
    and p: "put_address ?tid pointer capacity addr t1 = (Ok (), t2)"
    and w: "write_exact_at ?tid len (to_ne_bytes (if ?so then capacity else 16)) t2 = (Ok (), t')"
    by (auto simp: peer_name_def Let_def seq_do_Ok_iff split: if_splits)
  let ?k = "min (unat capacity) 16"
  have p': "write_exact_at ?tid pointer (take ?k (address_bytes addr)) t1 = (Ok (), t2)"
    using p by (simp add: put_address_def split: if_splits)
  have cut: "take ?k (address_bytes addr) = take (unat capacity) (address_bytes addr)"
    by (simp add: min_def)
  have held: "fst (read_exact_at ?tid pointer ?k t2) = Ok (take (unat capacity) (address_bytes addr))"
    using remote.rd_back [of ?tid pointer "take ?k (address_bytes addr)" t1] p' by (simp add: cut min.commute)
  have keep: "fst (read_exact_at ?tid pointer ?k t') = fst (read_exact_at ?tid pointer ?k t2)"
    using remote.rd_elsewhere [of ?tid len "to_ne_bytes (if ?so then capacity else 16)" t2 ?k pointer]
      w assms(3) by simp
  have "fst (read_exact_at ?tid len 4 t') = Ok (to_ne_bytes (if ?so then capacity else 16))"
    using remote.rd_back [of ?tid len "to_ne_bytes (if ?so then capacity else 16)" t2] w by simp
  then have l: "fst (u32_at ?tid len t') = Ok (if ?so then capacity else 16)"
    by (simp add: u32_at_bytes)
  have "fst (ipv4_at ?tid pointer 16 t') = Ok addr" if "16 \<le> capacity"
  proof (rule ipv4_at_bytes)
    have "unat capacity \<ge> 16" using that by (simp add: word_le_nat_alt)
    with held keep show "fst (read_exact_at ?tid pointer 16 t') = Ok (address_bytes addr)"
      by (simp add: min_absorb2)
  qed simp_all
  with c held keep l show ?thesis by (intro exI [of _ capacity]) simp
qed

text \<open>A call of \<open>getpeername\<close> with a buffer of 16 bytes.\<close>

definition getpeername_example :: notification where
  "getpeername_example =
     \<lparr>nt_id = 1, nt_pid = 7, nt_flags = 0,
      nt_data = \<lparr>sd_nr = 52, sd_arch = 0, sd_ip = 0, sd_args = [3, 0x1000, 0x2000, 0, 0, 0]\<rparr>\<rparr>"

definition getpeername_memory :: memory where
  "getpeername_memory a =
     (if 0x1000 \<le> a \<and> a < 0x3000 then Some (if a = 0x2000 then 16 else 0) else None)"

lemma getpeername_reachable:
  "0x1000 \<le> unat a \<Longrightarrow> unat a + k \<le> 0x3000 \<Longrightarrow> reachable getpeername_memory 7 a k = Ok ()"
proof (cases "k = 0")
  case False
  assume a: "0x1000 \<le> unat a" "unat a + k \<le> 0x3000"
  have "getpeername_memory (a + of_nat i) \<noteq> None" if "i < k" for i
  proof -
    have "unat (a + of_nat i) = unat a + i" using that a(2) by (intro unat_add_small) simp
    then show ?thesis using that a by (simp add: getpeername_memory_def word_le_nat_alt word_less_nat_alt)
  qed
  then have "mapped getpeername_memory a k = k" unfolding mapped_iff by blast
  moreover have "a \<noteq> 0" using a(1) by auto
  ultimately show ?thesis using a(2) False by (simp add: reachable_def check_tid_def)
qed (simp add: reachable_def)

lemma getpeername_succeeds:
  assumes "tg_mem t = getpeername_memory"
  shows "fst (u32_at 7 0x2000 t) = Ok 16"
    and "fst (peer_name x86_64_abi getpeername_example addr t) = Ok ()"
proof -
  have "bytes_at getpeername_memory 0x2000 (Suc (Suc (Suc (Suc 0)))) = [16, 0, 0, 0]"
    by (simp only: bytes_at.simps) (simp add: getpeername_memory_def)
  then have "bytes_at getpeername_memory 0x2000 4 = [16, 0, 0, 0]"
    by (simp add: numeral_eq_Suc del: bytes_at.simps)
  then have b: "fst (read_exact_at 7 0x2000 4 t) = Ok [16, 0, 0, 0]"
    using assms by (simp add: remote.rd_value getpeername_reachable)
  then show u: "fst (u32_at 7 0x2000 t) = Ok 16"
    by (simp add: u32_at_bytes)
  obtain t1 where t1: "u32_at 7 0x2000 t = (Ok 16, t1)" by (metis u prod.collapse)
  then have "tg_mem t1 = getpeername_memory"
    using assms b remote.rd_view [of 7 "0x2000" 4 t] by (simp add: u32_at_def seq_do_fst yield_def)
  let ?w = "write_exact_at 7 0x1000 (address_bytes addr) t1"
  have w: "fst ?w = Ok ()"
    using \<open>tg_mem t1 = _\<close> by (simp add: remote.wr_result getpeername_reachable)
  have "fst (write_exact_at 7 0x2000 (to_ne_bytes (16 :: u32)) (snd ?w)) = Ok ()"
    using remote.wr_reachable [OF w] \<open>tg_mem t1 = _\<close> by (simp add: remote.wr_result getpeername_reachable)
  moreover have "put_address 7 0x1000 16 addr t1 = ?w" by (simp add: put_address_def)
  then have "put_address 7 0x1000 16 addr t1 = (Ok (), snd ?w)"
    using w by (simp only: prod_eq_iff fst_conv snd_conv)
  ultimately show "fst (peer_name x86_64_abi getpeername_example addr t) = Ok ()"
    using t1 by (simp add: peer_name_def name_arguments_def getpeername_example_def x86_64_abi_def)
qed

theorem peer_name_written_witness:
  "fst (ipv4_at 7 0x1000 16 (snd (peer_name x86_64_abi getpeername_example (sock_addr 0x7f000001 80)
      \<lparr>tg_mem = getpeername_memory, tg_vm = []\<rparr>))) = Ok (sock_addr 0x7f000001 80)"
proof -
  let ?t = "\<lparr>tg_mem = getpeername_memory, tg_vm = []\<rparr>"
  let ?r = "peer_name x86_64_abi getpeername_example (sock_addr 0x7f000001 80) ?t"
  have "fst ?r = Ok ()" by (rule getpeername_succeeds) simp
  then have r: "?r = (Ok (), snd ?r)" by (simp only: prod_eq_iff fst_conv snd_conv)
  have a: "name_arguments x86_64_abi getpeername_example = (0x1000, 0x2000)"
    by (simp add: name_arguments_def getpeername_example_def x86_64_abi_def)
  have d: "\<forall>i < 16. \<forall>j < 4. (0x1000 :: u64) + of_nat i \<noteq> 0x2000 + of_nat j"
  proof (intro allI impI notI)
    fix i j :: nat
    assume "i < 16" "j < 4" and e: "(0x1000 :: u64) + of_nat i = 0x2000 + of_nat j"
    then show False
      using unat_add_small [of "0x1000" i] unat_add_small [of "0x2000" j] arg_cong [OF e, of unat] by simp
  qed
  have p: "nt_pid getpeername_example = 7" by (simp add: getpeername_example_def)
  have c: "fst (u32_at 7 0x2000 ?t) = Ok 16" by (rule getpeername_succeeds) simp
  from peer_name_written [OF r a d] obtain capacity where
    "fst (u32_at 7 0x2000 ?t) = Ok capacity" "16 \<le> capacity \<longrightarrow> fst (ipv4_at 7 0x1000 16 (snd ?r)) = Ok (sock_addr 0x7f000001 80)"
    unfolding p by blast
  with c show ?thesis by simp
qed

end
