(* ===== verification/Message.thy ===== *)
theory Message
  imports Memory
begin

text \<open>
  \<open>src/broker/message.rs\<close>: the buffers of \<open>sendto\<close>, \<open>recvfrom\<close>, \<open>sendmsg\<close>
  and \<open>recvmsg\<close>. A message is the list of its buffers with the places of its name, its control
  data and its header.
\<close>

section \<open>Messages\<close>

record message =
  msg_name :: u64
  msg_name_length :: u32
  msg_control :: u64
  msg_control_length :: nat
  msg_vectors :: "(u64 \<times> nat) list"
  msg_header :: "u64 option"
  msg_length_pointer :: "u64 option"

abbreviation ISIZE_MAX :: nat where "ISIZE_MAX \<equiv> 2 ^ 63 - 1"

definition message_flat :: "u32 \<Rightarrow> u64 \<Rightarrow> u64 \<Rightarrow> u64 \<Rightarrow> u64 \<Rightarrow> bool \<Rightarrow> message on_target" where
  "message_flat tid buffer len name length_pointer receiving =
     seq_do (if name = 0 then yield 0
             else if receiving then u32_at tid length_pointer
             else yield (ucast length_pointer)) (\<lambda>name_length.
     yield \<lparr>msg_name = name, msg_name_length = name_length, msg_control = 0, msg_control_length = 0,
            msg_vectors = [(buffer, unat len)], msg_header = None,
            msg_length_pointer = (if receiving \<and> name \<noteq> 0 then Some length_pointer else None)\<rparr>)"

definition word_at :: "bytes \<Rightarrow> nat \<Rightarrow> u64" where
  "word_at bs offset = from_ne_bytes (take 8 (drop offset bs))"

fun chunks_16 :: "bytes \<Rightarrow> bytes list" where
  "chunks_16 bs = (if length bs < 16 then [] else take 16 bs # chunks_16 (drop 16 bs))"

declare chunks_16.simps [simp del]

definition iovec_of :: "bytes \<Rightarrow> u64 \<times> nat" where
  "iovec_of vector =
     (from_ne_bytes (take 8 vector), unat (from_ne_bytes (drop 8 vector) :: u64))"

definition message_header :: "u32 \<Rightarrow> u64 \<Rightarrow> message on_target" where
  "message_header tid pointer =
     seq_do (memory_read tid pointer 56) (\<lambda>bs.
       let count = unat (word_at bs 24)
       in if count > 1024 then fail (Os EMSGSIZE)
          else seq_do (memory_read tid (word_at bs 16) (count * 16)) (\<lambda>raw.
            yield \<lparr>msg_name = word_at bs 0, msg_name_length = from_ne_bytes (take 4 (drop 8 bs)),
                   msg_control = word_at bs 32, msg_control_length = unat (word_at bs 40),
                   msg_vectors = map iovec_of (chunks_16 raw), msg_header = Some pointer,
                   msg_length_pointer = None\<rparr>))"

fun capacity_from :: "nat \<Rightarrow> (u64 \<times> nat) list \<Rightarrow> nat io_result" where
  "capacity_from sofar [] = Ok sofar"
| "capacity_from sofar ((address, len) # vs) =
     (if sofar + len \<ge> 2 ^ 64 \<or> sofar + len > ISIZE_MAX then Err (Os EINVAL)
      else capacity_from (sofar + len) vs)"

definition message_capacity :: "message \<Rightarrow> nat io_result" where
  "message_capacity m = capacity_from 0 (msg_vectors m)"

fun read_vectors :: "u32 \<Rightarrow> bytes \<Rightarrow> (u64 \<times> nat) list \<Rightarrow> bytes on_target" where
  "read_vectors tid data [] = yield data"
| "read_vectors tid data ((address, len) # vs) =
     seq_do (read_exact_at tid address len) (\<lambda>part. read_vectors tid (data @ part) vs)"

definition read_payload :: "message \<Rightarrow> u32 \<Rightarrow> bytes on_target" where
  "read_payload m tid =
     (case message_capacity m of
        Err e \<Rightarrow> fail e
      | Ok sofar \<Rightarrow> if sofar > 65507 then fail (Os EMSGSIZE) else read_vectors tid [] (msg_vectors m))"

fun write_vectors :: "u32 \<Rightarrow> bytes \<Rightarrow> (u64 \<times> nat) list \<Rightarrow> unit on_target" where
  "write_vectors tid remaining [] = yield ()"
| "write_vectors tid remaining ((pointer, len) # vs) =
     (let count = min len (length remaining)
      in seq_do (write_exact_at tid pointer (take count remaining)) (\<lambda>_.
           let remaining' = drop count remaining
           in if remaining' = [] then yield () else write_vectors tid remaining' vs))"

definition write_payload :: "message \<Rightarrow> u32 \<Rightarrow> bytes \<Rightarrow> unit on_target" where
  "write_payload m tid bs = write_vectors tid bs (msg_vectors m)"

definition message_finish :: "message \<Rightarrow> u32 \<Rightarrow> sock_addr_v4 \<Rightarrow> bytes \<Rightarrow> u32 \<Rightarrow> unit on_target" where
  "message_finish m tid source control flags =
     seq_do (if msg_name m \<noteq> 0 then put_address tid (msg_name m) (msg_name_length m) source else yield ()) (\<lambda>_.
     seq_do (case msg_length_pointer m of
               Some pointer \<Rightarrow> write_exact_at tid pointer (to_ne_bytes (16 :: u32))
             | None \<Rightarrow> yield ()) (\<lambda>_.
     case msg_header m of
       Some header \<Rightarrow>
         seq_do (write_exact_at tid (header + 8) (to_ne_bytes (if msg_name m = 0 then 0 else 16 :: u32))) (\<lambda>_.
         seq_do (write_exact_at tid (msg_control m) control) (\<lambda>_.
         seq_do (write_exact_at tid (header + 40) (to_ne_bytes (of_nat (length control) :: u64))) (\<lambda>_.
         write_exact_at tid (header + 48) (to_ne_bytes flags))))
     | None \<Rightarrow> yield ()))"

section \<open>Sizes\<close>

lemma capacity_from_Ok_iff:
  "capacity_from sofar vs = Ok n \<longleftrightarrow>
     n = sofar + sum_list (map snd vs) \<and> (vs = [] \<or> n \<le> ISIZE_MAX)"
proof (induction sofar vs rule: capacity_from.induct)
  case (2 sofar address len vs)
  then show ?case by (cases vs) auto
qed auto

lemma read_vectors_Ok:
  "read_vectors tid data vs t = (Ok bs, t') \<Longrightarrow>
     length bs = length data + sum_list (map snd vs) \<and> tg_mem t' = tg_mem t"
proof (induction tid data vs arbitrary: t rule: read_vectors.induct)
  case (2 tid data address len vs)
  from "2.prems" obtain part t1 where p: "read_exact_at tid address len t = (Ok part, t1)"
      "read_vectors tid (data @ part) vs t1 = (Ok bs, t')"
    by (auto simp: seq_do_Ok_iff)
  with "2.IH" [OF p] remote.rd_length [of tid address len t part]
    remote.rd_view [of tid address len t] show ?case by simp
qed simp

section \<open>Scatter and gather\<close>

definition apart :: "u64 \<Rightarrow> nat \<Rightarrow> u64 \<Rightarrow> nat \<Rightarrow> bool" where
  "apart a n b k \<longleftrightarrow> (\<forall>i < n. \<forall>j < k. a + of_nat i \<noteq> b + of_nat j)"

fun disjoint_vectors :: "(u64 \<times> nat) list \<Rightarrow> bool" where
  "disjoint_vectors [] = True"
| "disjoint_vectors ((a, n) # vs) = (list_all (\<lambda>(b, k). apart a n b k) vs \<and> disjoint_vectors vs)"

lemma apartD: "apart a n b k \<Longrightarrow> k' \<le> k \<Longrightarrow> i < n \<Longrightarrow> j < k' \<Longrightarrow> a + of_nat i \<noteq> b + of_nat j"
  by (simp add: apart_def)

lemma write_apart:
  assumes "write_exact_at tid b bs t = (Ok (), t')" "apart a n b k" "length bs \<le> k"
  shows "fst (read_exact_at tid a n t') = fst (read_exact_at tid a n t)"
  using remote.rd_elsewhere [of tid b bs t n a] assms(1) apartD [OF assms(2,3)] by simp

lemma write_vectors_apart:
  "write_vectors tid bs vs t = (Ok (), t') \<Longrightarrow> list_all (\<lambda>(b, k). apart a n b k) vs \<Longrightarrow>
     fst (read_exact_at tid a n t') = fst (read_exact_at tid a n t)"
proof (induction vs arbitrary: bs t)
  case (Cons v vs)
  obtain b k where v: "v = (b, k)" by force
  let ?c = "min k (length bs)"
  from Cons.prems(1) v obtain t1 where w: "write_exact_at tid b (take ?c bs) t = (Ok (), t1)"
    and r: "(if drop ?c bs = [] then yield () else write_vectors tid (drop ?c bs) vs) t1 = (Ok (), t')"
    by (auto simp: Let_def seq_do_Ok_iff)
  have h: "fst (read_exact_at tid a n t1) = fst (read_exact_at tid a n t)"
    using w by (rule write_apart [where k = k]) (use Cons.prems(2) v in simp_all)
  show ?case
  proof (cases "drop ?c bs = []")
    case True
    with r h show ?thesis by (simp only: refl if_True yield_iff)
  next
    case False
    with r have "write_vectors tid (drop ?c bs) vs t1 = (Ok (), t')" by (simp only: if_False)
    from Cons.IH [OF this] Cons.prems(2) h show ?thesis by simp
  qed
qed simp

lemma read_vectors_empty:
  "sum_list (map snd vs) = (0 :: nat) \<Longrightarrow> fst (read_vectors tid data vs t) = Ok data"
proof (induction vs arbitrary: t)
  case (Cons v vs)
  obtain a where v: "v = (a, 0)" using Cons.prems by (cases v) simp
  have "fst (read_exact_at tid a 0 t) = Ok []" by (simp add: remote.rd_value reachable_def)
  then have "read_vectors tid data (v # vs) t = read_vectors tid data vs (snd (read_exact_at tid a 0 t))"
    unfolding v by (simp add: seq_do_fst)
  with Cons show ?case by simp
qed (simp add: yield_def)

lemma write_read_vectors:
  assumes "write_vectors tid bs vs t = (Ok (), t')" "sum_list (map snd vs) = length bs"
    and "disjoint_vectors vs" "tg_mem u = tg_mem t'"
  shows "fst (read_vectors tid data vs u) = Ok (data @ bs)"
  using assms
proof (induction vs arbitrary: bs data t u)
  case (Cons v vs)
  obtain a n where v: "v = (a, n)" by force
  with Cons.prems(2) have n: "min n (length bs) = n" and rest: "sum_list (map snd vs) = length (drop n bs)"
    by auto
  from Cons.prems(1) obtain t1 where w: "write_exact_at tid a (take n bs) t = (Ok (), t1)"
    and r: "(if drop n bs = [] then yield () else write_vectors tid (drop n bs) vs) t1 = (Ok (), t')"
    unfolding v write_vectors.simps n Let_def seq_do_Ok_iff by auto
  have len: "length (take n bs) = n" using n by simp
  have head: "fst (read_exact_at tid a n t1) = Ok (take n bs)"
    using remote.rd_back [of tid a "take n bs" t] w len by simp
  have "fst (read_exact_at tid a n t') = Ok (take n bs) \<and>
      (\<forall>u data. tg_mem u = tg_mem t' \<longrightarrow> fst (read_vectors tid data vs u) = Ok (data @ drop n bs))"
  proof (cases "drop n bs = []")
    case True
    with r have "t' = t1" by (simp only: refl if_True yield_iff)
    with head rest True show ?thesis by (simp add: read_vectors_empty)
  next
    case False
    with r have w': "write_vectors tid (drop n bs) vs t1 = (Ok (), t')" by (simp only: if_False)
    with write_vectors_apart [OF w', of a n] Cons.IH [OF w' rest] Cons.prems(3) head v
    show ?thesis by simp
  qed
  moreover have "fst (read_exact_at tid a n u) = fst (read_exact_at tid a n t')"
    using Cons.prems(4) by (rule rd_same)
  moreover have "tg_mem (snd (read_exact_at tid a n u)) = tg_mem t'"
    using Cons.prems(4) by (simp add: remote.rd_view)
  ultimately show ?case unfolding v by (simp add: seq_do_fst)
qed (simp add: yield_def)

text \<open>
  C30. What is scattered is gathered: a payload written into the buffers of a message that do not
  overlap and that it fills exactly is read back byte for byte, however the bytes are spread over
  the buffers, empty buffers included.
\<close>

theorem payload_roundtrip:
  assumes "write_payload m tid bs t = (Ok (), t')" and "message_capacity m = Ok (length bs)"
    and "length bs \<le> 65507" and "disjoint_vectors (msg_vectors m)"
  shows "fst (read_payload m tid t') = Ok bs"
proof -
  have "sum_list (map snd (msg_vectors m)) = length bs"
    using assms(2) by (simp add: message_capacity_def capacity_from_Ok_iff)
  then have "fst (read_vectors tid [] (msg_vectors m) t') = Ok ([] @ bs)"
    using assms(1,4) by (intro write_read_vectors) (simp_all add: write_payload_def)
  with assms(2,3) show ?thesis by (simp add: read_payload_def)
qed

definition scattered :: message where
  "scattered = \<lparr>msg_name = 0, msg_name_length = 0, msg_control = 0, msg_control_length = 0,
     msg_vectors = [(0x1000, 1), (0, 0), (0x1800, 2)], msg_header = None, msg_length_pointer = None\<rparr>"

lemma scattered_disjoint: "disjoint_vectors (msg_vectors scattered)"
proof -
  have "apart 0x1000 (Suc 0) 0x1800 (Suc (Suc 0))"
    unfolding apart_def All_less_Suc by simp
  then show ?thesis by (simp add: scattered_def numeral_2_eq_2) (simp add: apart_def)
qed

lemma scattered_write:
  assumes "tg_mem t = getpeername_memory"
  shows "fst (write_payload scattered 7 [1, 2, 3] t) = Ok ()"
proof -
  obtain t1 where 1: "write_exact_at 7 0x1000 [1] t = (Ok (), t1)"
    using remote.wr_result [of 7 "0x1000" "[1]" t] assms
    by (cases "write_exact_at 7 0x1000 [1] t") (simp add: getpeername_reachable)
  then have r1: "reachable (tg_mem t1) = reachable getpeername_memory"
    using remote.wr_reachable [of 7 "0x1000" "[1]" t] assms by simp
  obtain t2 where 2: "write_exact_at 7 0 [] t1 = (Ok (), t2)"
    using remote.wr_result [of 7 0 "[]" t1]
    by (cases "write_exact_at 7 0 [] t1") (simp add: reachable_def)
  then have r2: "reachable (tg_mem t2) = reachable getpeername_memory"
    using remote.wr_reachable [of 7 0 "[]" t1] r1 by simp
  obtain t3 where 3: "write_exact_at 7 0x1800 [2, 3] t2 = (Ok (), t3)"
    using remote.wr_result [of 7 "0x1800" "[2, 3]" t2] r2
    by (cases "write_exact_at 7 0x1800 [2, 3] t2") (simp add: getpeername_reachable)
  from 1 2 3 show ?thesis by (simp add: write_payload_def scattered_def yield_def)
qed

theorem payload_roundtrip_witness:
  "fst (read_payload scattered 7 (snd (write_payload scattered 7 [1, 2, 3]
      \<lparr>tg_mem = getpeername_memory, tg_vm = [Upto 1]\<rparr>))) = Ok [1, 2, 3]"
proof (rule payload_roundtrip)
  let ?t = "\<lparr>tg_mem = getpeername_memory, tg_vm = [Upto 1]\<rparr>"
  show "write_payload scattered 7 [1, 2, 3] ?t = (Ok (), snd (write_payload scattered 7 [1, 2, 3] ?t))"
    using scattered_write [of ?t] by (simp only: prod_eq_iff fst_conv snd_conv) simp
  show "message_capacity scattered = Ok (length [1 :: u8, 2, 3])"
    by (simp add: message_capacity_def scattered_def)
qed (simp_all add: scattered_disjoint)

section \<open>Headers and results\<close>

lemma chunks_16_length: "length (chunks_16 bs) = length bs div 16"
  by (induction bs rule: chunks_16.induct) (subst chunks_16.simps, simp add: le_div_geq)

text \<open>A header gives as many buffers as it announces, at most 1024.\<close>

lemma message_header_vectors:
  assumes "message_header tid pointer t = (Ok m, t')"
  shows "length (msg_vectors m) \<le> 1024 \<and> msg_header m = Some pointer \<and> tg_mem t' = tg_mem t"
proof -
  from assms obtain bs t1 raw where
    r: "memory_read tid pointer 56 t = (Ok bs, t1)" "unat (word_at bs 24) \<le> 1024"
      "memory_read tid (word_at bs 16) (unat (word_at bs 24) * 16) t1 = (Ok raw, t')"
    and m: "msg_vectors m = map iovec_of (chunks_16 raw)" "msg_header m = Some pointer"
    by (auto simp: message_header_def seq_do_Ok_iff Let_def split: if_splits)
  from memory_read_length [OF r(3)] r(2) m show ?thesis
    using remote.rd_view [of tid pointer 56 t] r(1)
      remote.rd_view [of tid "word_at bs 16" "unat (word_at bs 24) * 16" t1] r(3)
    by (simp add: chunks_16_length memory_read_def)
qed

text \<open>The payload that reaches the network has the size of the buffers and fits a datagram.\<close>

lemma read_payload_bound:
  "read_payload m tid t = (Ok bs, t') \<Longrightarrow>
     message_capacity m = Ok (length bs) \<and> length bs \<le> 65507 \<and> tg_mem t' = tg_mem t"
  by (auto simp: read_payload_def message_capacity_def capacity_from_Ok_iff dest: read_vectors_Ok
      split: result.splits if_splits)

end
