(* ===== verification/Sockets.thy ===== *)
theory Sockets
  imports Memory
begin

text \<open>
  \<open>src/broker/sockets.rs\<close>: what the broker asks about a socket and how it translates
  socket addresses. What the kernel answers for one descriptor is a record of its answers:
  the bytes it stores and, for options, the length it reports.
\<close>

section \<open>Answers of the kernel\<close>

record sock_kernel =
  sk_getsockname :: "bytes io_result"
  sk_getpeername :: "bytes io_result"
  sk_getsockopt :: "int \<Rightarrow> int \<Rightarrow> nat \<Rightarrow> (bytes \<times> nat) io_result"
  sk_ioctl :: "u64 \<Rightarrow> int io_result"

abbreviation SOL_SOCKET_i :: int where "SOL_SOCKET_i \<equiv> 1"
abbreviation SO_TYPE :: int where "SO_TYPE \<equiv> 3"
abbreviation SO_PEERNAME_i :: int where "SO_PEERNAME_i \<equiv> 28"
abbreviation SO_PROTOCOL :: int where "SO_PROTOCOL \<equiv> 38"
abbreviation SO_DOMAIN :: int where "SO_DOMAIN \<equiv> 39"
abbreviation SO_COOKIE :: int where "SO_COOKIE \<equiv> 57"
abbreviation IPPROTO_TCP :: int where "IPPROTO_TCP \<equiv> 6"
abbreviation IPPROTO_UDP :: int where "IPPROTO_UDP \<equiv> 17"
abbreviation TCP_INFO :: int where "TCP_INFO \<equiv> 11"
abbreviation DOMAIN_INET :: int where "DOMAIN_INET \<equiv> 2"
abbreviation DOMAIN_UNIX :: int where "DOMAIN_UNIX \<equiv> 1"
abbreviation TYPE_STREAM :: int where "TYPE_STREAM \<equiv> 1"
abbreviation TYPE_DGRAM :: int where "TYPE_DGRAM \<equiv> 2"

definition sockets_check :: "int \<Rightarrow> int \<Rightarrow> unit io_result" where
  "sockets_check result errno = (if result < 0 then Err (Os errno) else Ok ())"

section \<open>Addresses\<close>

record sockaddr_in =
  sin_family :: u16
  sin_port :: u16
  s_addr :: u32
  sin_zero :: bytes

text \<open>\<open>u16::to_be\<close> and \<open>u16::from_be\<close> on a little endian target.\<close>

definition swap_bytes :: "u16 \<Rightarrow> u16" where
  "swap_bytes w = from_ne_bytes (rev (to_ne_bytes w))"

definition sockaddr :: "sock_addr_v4 \<Rightarrow> sockaddr_in" where
  "sockaddr addr =
     \<lparr>sin_family = AF_INET_u16, sin_port = swap_bytes (sa_port addr),
      s_addr = from_ne_bytes (octets (sa_ip addr)), sin_zero = replicate 8 0\<rparr>"

definition decode :: "sockaddr_in \<Rightarrow> sock_addr_v4" where
  "decode addr = sock_addr (from_be_bytes (to_ne_bytes (s_addr addr))) (swap_bytes (sin_port addr))"

text \<open>The C layout of a \<open>sockaddr_in\<close> and its inverse.\<close>

definition sockaddr_layout :: "sockaddr_in \<Rightarrow> bytes" where
  "sockaddr_layout a = to_ne_bytes (sin_family a) @ to_ne_bytes (sin_port a) @ to_ne_bytes (s_addr a) @ sin_zero a"

definition sockaddr_of :: "bytes \<Rightarrow> sockaddr_in" where
  "sockaddr_of bs =
     \<lparr>sin_family = from_ne_bytes (take 2 bs), sin_port = from_ne_bytes (take 2 (drop 2 bs)),
      s_addr = from_ne_bytes (take 4 (drop 4 bs)), sin_zero = take 8 (drop 8 bs)\<rparr>"

definition sockets_address :: "sock_kernel \<Rightarrow> bool \<Rightarrow> sock_addr_v4 io_result" where
  "sockets_address k peer =
     and_then (if peer then sk_getpeername k else sk_getsockname k) (\<lambda>storage.
       if from_ne_bytes (take 2 storage) \<noteq> AF_INET_u16 then Err (Os EAFNOSUPPORT)
       else Ok (decode (sockaddr_of storage)))"

section \<open>Options\<close>

definition sockets_option :: "sock_kernel \<Rightarrow> nat \<Rightarrow> int \<Rightarrow> int \<Rightarrow> bytes io_result" where
  "sockets_option k width level name =
     and_then (sk_getsockopt k level name width) (\<lambda>(value, len).
       if len \<noteq> width then Err (Os EINVAL) else Ok value)"

definition option_int :: "sock_kernel \<Rightarrow> int \<Rightarrow> int \<Rightarrow> int io_result" where
  "option_int k level name =
     and_then (sockets_option k 4 level name) (\<lambda>value. Ok (sint (from_ne_bytes value :: u32)))"

definition peer_address :: "sock_kernel \<Rightarrow> bool \<Rightarrow> sock_addr_v4 io_result" where
  "peer_address k socket_option =
     (if socket_option
      then and_then (sockets_option k 16 SOL_SOCKET_i SO_PEERNAME_i) (\<lambda>value. Ok (decode (sockaddr_of value)))
      else sockets_address k True)"

definition cookie :: "sock_kernel \<Rightarrow> u64 io_result" where
  "cookie k = and_then (sockets_option k 8 SOL_SOCKET_i SO_COOKIE) (\<lambda>value. Ok (from_ne_bytes value))"

definition is_tcp_v4 :: "sock_kernel \<Rightarrow> bool io_result" where
  "is_tcp_v4 k =
     and_then (option_int k SOL_SOCKET_i SO_DOMAIN) (\<lambda>domain.
       if domain \<noteq> DOMAIN_INET then Ok False
       else and_then (option_int k SOL_SOCKET_i SO_TYPE) (\<lambda>kind.
         if kind \<noteq> TYPE_STREAM then Ok False
         else and_then (option_int k SOL_SOCKET_i SO_PROTOCOL) (\<lambda>protocol.
           Ok (protocol = IPPROTO_TCP))))"

text \<open>\<open>tcpi_state\<close> is the first byte of \<open>tcp_info\<close>.\<close>

definition sockets_state :: "sock_kernel \<Rightarrow> nat \<Rightarrow> u8 io_result" where
  "sockets_state k width =
     and_then (sk_getsockopt k IPPROTO_TCP TCP_INFO width) (\<lambda>(info, len). Ok (info ! 0))"

definition queue_len :: "sock_kernel \<Rightarrow> u64 \<Rightarrow> nat io_result" where
  "queue_len k request = and_then (sk_ioctl k request) (\<lambda>value. Ok (nat (max value 0)))"

section \<open>Calls on sockets\<close>

text \<open>The answer of the kernel is what the call returns and the error it leaves behind.\<close>

datatype sock_call =
    CreateSocket int int int
  | BindSocket int bytes nat
  | ConnectSocket int bytes nat

definition sockets_stream :: "(sock_call \<Rightarrow> int \<times> int) \<Rightarrow> int io_result" where
  "sockets_stream k =
     (case k (CreateSocket DOMAIN_INET (TYPE_STREAM OR 0x800 OR 0x80000) IPPROTO_TCP) of
        (fd, errno) \<Rightarrow> if fd < 0 then Err (Os errno) else Ok fd)"

definition sockets_bind :: "(sock_call \<Rightarrow> int \<times> int) \<Rightarrow> int \<Rightarrow> sock_addr_v4 \<Rightarrow> unit io_result" where
  "sockets_bind k fd addr =
     (case k (BindSocket fd (sockaddr_layout (sockaddr addr)) 16) of (result, errno) \<Rightarrow> sockets_check result errno)"

definition sockets_connect :: "(sock_call \<Rightarrow> int \<times> int) \<Rightarrow> int \<Rightarrow> sock_addr_v4 \<Rightarrow> unit io_result" where
  "sockets_connect k fd addr =
     (case k (ConnectSocket fd (sockaddr_layout (sockaddr addr)) 16) of (result, errno) \<Rightarrow> sockets_check result errno)"

section \<open>Codecs\<close>

lemma swap_bytes_layout: "to_ne_bytes (swap_bytes w) = to_be_bytes w"
  by (simp add: swap_bytes_def to_be_bytes_def)

lemma swap_swap [simp]: "swap_bytes (swap_bytes w) = w"
  using arg_cong [OF swap_bytes_layout [of w], of rev]
  by (simp add: swap_bytes_def [of "swap_bytes w"] to_be_bytes_def)

lemma decode_sockaddr: "decode (sockaddr a) = a"
  by (simp add: decode_def sockaddr_def octets_def)

lemma sockaddr_of_layout: "length (sin_zero a) = 8 \<Longrightarrow> sockaddr_of (sockaddr_layout a @ rest) = a"
  by (simp add: sockaddr_of_def sockaddr_layout_def)

lemma sockaddr_layout_bytes: "sockaddr_layout (sockaddr a) = address_bytes a"
  by (simp add: sockaddr_layout_def sockaddr_def address_bytes_list swap_bytes_layout octets_def
      to_ne_bytes_def [of AF_INET_u16] upt_rec)

text \<open>The kernel is handed the bytes of the address with their full length.\<close>

lemma sockets_calls:
  "sockets_bind k fd a = (case k (BindSocket fd (address_bytes a) (length (address_bytes a))) of (r, e) \<Rightarrow> sockets_check r e)"
  "sockets_connect k fd a = (case k (ConnectSocket fd (address_bytes a) (length (address_bytes a))) of (r, e) \<Rightarrow> sockets_check r e)"
  by (simp_all add: sockets_bind_def sockets_connect_def sockaddr_layout_bytes address_bytes_list)

lemma sockets_address_stored:
  assumes "(if peer then sk_getpeername k else sk_getsockname k) = Ok (address_bytes a @ rest)"
  shows "sockets_address k peer = Ok a"
proof -
  have "sockaddr_of (address_bytes a @ rest) = sockaddr a"
    unfolding sockaddr_layout_bytes [symmetric] by (rule sockaddr_of_layout) (simp add: sockaddr_def)
  moreover have "take 2 (address_bytes a @ rest) = [2, 0]"
    by (simp add: address_bytes_list)
  ultimately show ?thesis
    using assms by (simp add: sockets_address_def decode_sockaddr)
qed

text \<open>
  The two encoders of socket addresses agree: the C structure that is handed to the kernel
  has the same bytes as the array that is copied into the target, every address survives the
  way through either of them, and an address the kernel stores is read back as it is, whatever
  the rest of its buffer holds.
\<close>

lemma sockaddr_codecs_agree:
  "sockaddr_layout (sockaddr a) = address_bytes a \<and> decode (sockaddr a) = a
   \<and> (sk_getsockname k = Ok (address_bytes a @ rest) \<longrightarrow> sockets_address k False = Ok a)"
  using sockets_address_stored [of False k a rest]
  by (simp add: sockaddr_layout_bytes decode_sockaddr)

end
