(* ===== verification/Tcp_Ingress.thy ===== *)
theory Tcp_Ingress
  imports Sockets
begin

text \<open>
  \<open>src/broker/tcp_ingress.rs\<close>: the loopback listener that all intercepted connections share.
  A registration waits under its source port; an accepted stream goes to the registration whose
  socket has both of its endpoints. A oneshot channel is a number, and \<open>ig_sent\<close> holds what was
  sent on it. Descriptors are numbers too; what the kernel knows of one is its \<open>sock_kernel\<close>.
\<close>

section \<open>State and operations\<close>

record pending =
  pd_socket :: int
  pd_sender :: "nat option"

record 'a ingress =
  ig_address :: sock_addr_v4
  ig_waiting :: "u16 \<rightharpoonup> pending list"
  ig_sent :: "nat \<rightharpoonup> 'a"
  ig_next :: nat

record registration =
  rg_port :: u16
  rg_socket :: int
  rg_channel :: nat

definition Ingress_new :: "sock_addr_v4 io_result \<Rightarrow> 'a ingress io_result" where
  "Ingress_new bound =
     and_then bound (\<lambda>address.
       Ok \<lparr>ig_address = address, ig_waiting = Map.empty, ig_sent = Map.empty, ig_next = 0\<rparr>)"

text \<open>\<open>register\<close>, given what \<open>tcp_bind::prepare\<close> returned for the socket.\<close>

definition Ingress_register :: "u16 io_result \<Rightarrow> int \<Rightarrow> (registration, io_error, 'a ingress) action" where
  "Ingress_register prepared fd ig =
     (case prepared of
        Err e \<Rightarrow> (Err e, ig)
      | Ok port \<Rightarrow>
          let channel = ig_next ig;
              candidates = (case ig_waiting ig port of Some ps \<Rightarrow> ps | None \<Rightarrow> [])
          in (Ok \<lparr>rg_port = port, rg_socket = fd, rg_channel = channel\<rparr>,
              ig\<lparr>ig_next := channel + 1,
                 ig_waiting := (ig_waiting ig)(port \<mapsto>
                   candidates @ [\<lparr>pd_socket = fd, pd_sender = Some channel\<rparr>])\<rparr>))"

definition endpoint_matches :: "(int \<Rightarrow> sock_kernel) \<Rightarrow> sock_addr_v4 \<Rightarrow> sock_addr_v4 \<Rightarrow> pending \<Rightarrow> bool" where
  "endpoint_matches socks address source p \<longleftrightarrow>
     pd_sender p \<noteq> None
     \<and> sockets_address (socks (pd_socket p)) False = Ok source
     \<and> sockets_address (socks (pd_socket p)) True = Ok address"

text \<open>\<open>find_map\<close> over the candidates, with the \<open>take\<close> of the first one that matches.\<close>

fun take_sender :: "(pending \<Rightarrow> bool) \<Rightarrow> pending list \<Rightarrow> nat option \<times> pending list" where
  "take_sender P [] = (None, [])"
| "take_sender P (p # ps) =
     (if P p then (pd_sender p, p\<lparr>pd_sender := None\<rparr> # ps)
      else (let (sender, ps') = take_sender P ps in (sender, p # ps')))"

definition Ingress_deliver :: "(int \<Rightarrow> sock_kernel) \<Rightarrow> 'a \<Rightarrow> sock_addr_v4 \<Rightarrow> 'a ingress \<Rightarrow> 'a ingress" where
  "Ingress_deliver socks stream source ig =
     (case ig_waiting ig (sa_port source) of
        None \<Rightarrow> ig
      | Some candidates \<Rightarrow>
          (case take_sender (endpoint_matches socks (ig_address ig) source) candidates of
             (None, _) \<Rightarrow> ig
           | (Some channel, candidates') \<Rightarrow>
               ig\<lparr>ig_waiting := (ig_waiting ig)(sa_port source \<mapsto> candidates'),
                  ig_sent := (ig_sent ig)(channel \<mapsto> stream)\<rparr>))"

text \<open>Dropping a registration.\<close>

definition Registration_drop :: "registration \<Rightarrow> 'a ingress \<Rightarrow> 'a ingress" where
  "Registration_drop r ig =
     (case ig_waiting ig (rg_port r) of
        None \<Rightarrow> ig
      | Some candidates \<Rightarrow>
          let candidates' = filter (\<lambda>p. pd_socket p \<noteq> rg_socket r) candidates
          in ig\<lparr>ig_waiting := (ig_waiting ig)(rg_port r := (if candidates' = [] then None else Some candidates'))\<rparr>)"

text \<open>
  Waiting on the channel: \<open>None\<close> while nothing was sent and the sender is alive, which it is as
  long as some candidate holds it.
\<close>

definition sender_alive :: "'a ingress \<Rightarrow> nat \<Rightarrow> bool" where
  "sender_alive ig channel \<longleftrightarrow>
     (\<exists>port ps. ig_waiting ig port = Some ps \<and> (\<exists>p \<in> set ps. pd_sender p = Some channel))"

definition Registration_accept :: "registration \<Rightarrow> 'a ingress \<Rightarrow> 'a io_result option" where
  "Registration_accept r ig =
     (case ig_sent ig (rg_channel r) of
        Some stream \<Rightarrow> Some (Ok stream)
      | None \<Rightarrow> if sender_alive ig (rg_channel r) then None else Some (Err (Custom ConnectionAborted)))"

text \<open>
  The accept loop over the outcomes of \<open>accept\<close>, each with the sockets as the kernel knows them
  at that moment. An accepted stream has an IPv4 source or another one.
\<close>

fun Ingress_run ::
  "((int \<Rightarrow> sock_kernel) \<times> ('a \<times> sock_addr_v4 option) io_result) list \<Rightarrow> 'a ingress
     \<Rightarrow> io_error option \<times> 'a ingress" where
  "Ingress_run [] ig = (None, ig)"
| "Ingress_run ((socks, Ok (stream, source)) # es) ig =
     Ingress_run es (case source of Some a \<Rightarrow> Ingress_deliver socks stream a ig | None \<Rightarrow> ig)"
| "Ingress_run ((socks, Err e) # es) ig =
     (if raw_os_error e \<in> {Some EMFILE, Some ENFILE, Some ENOBUFS, Some ENOMEM} then Ingress_run es ig
      else if kind e \<in> {Interrupted, ConnectionAborted, ConnectionReset} then Ingress_run es ig
      else (Some e, ig))"

section \<open>Steps of the shared state\<close>

text \<open>
  The listener with the registrations that are alive. Descriptors of open sockets are distinct,
  so a new registration has one that no other holds.
\<close>

inductive ingress_reachable :: "sock_addr_v4 \<Rightarrow> 'a ingress \<Rightarrow> registration list \<Rightarrow> bool" for address where
  start: "Ingress_new (Ok address) = Ok ig \<Longrightarrow> ingress_reachable address ig []"
| register: "ingress_reachable address ig live \<Longrightarrow> fd \<notin> rg_socket ` set live \<Longrightarrow>
    Ingress_register prepared fd ig = (Ok r, ig') \<Longrightarrow> ingress_reachable address ig' (r # live)"
| deliver: "ingress_reachable address ig live \<Longrightarrow>
    ingress_reachable address (Ingress_deliver socks stream source ig) live"
| dropped: "ingress_reachable address ig live \<Longrightarrow> r \<in> set live \<Longrightarrow>
    ingress_reachable address (Registration_drop r ig) (remove1 r live)"

definition waits :: "'a ingress \<Rightarrow> u16 \<Rightarrow> pending \<Rightarrow> bool" where
  "waits ig port p \<longleftrightarrow> (\<exists>ps. ig_waiting ig port = Some ps \<and> p \<in> set ps)"

definition served_by :: "'a ingress \<Rightarrow> u16 \<Rightarrow> pending \<Rightarrow> registration \<Rightarrow> bool" where
  "served_by ig port p r \<longleftrightarrow>
     rg_port r = port \<and> rg_socket r = pd_socket p
     \<and> (pd_sender p = None \<or> pd_sender p = Some (rg_channel r) \<and> ig_sent ig (rg_channel r) = None)"

definition ingress_inv :: "sock_addr_v4 \<Rightarrow> 'a ingress \<Rightarrow> registration list \<Rightarrow> bool" where
  "ingress_inv address ig live \<longleftrightarrow>
     ig_address ig = address
     \<and> (\<forall>port ps. ig_waiting ig port = Some ps \<longrightarrow> ps \<noteq> [] \<and> distinct (map pd_socket ps))
     \<and> (\<forall>port p. waits ig port p \<longrightarrow> (\<exists>r \<in> set live. served_by ig port p r))
     \<and> distinct (map rg_socket live) \<and> distinct (map rg_channel live)
     \<and> (\<forall>r \<in> set live. rg_channel r < ig_next ig)
     \<and> (\<forall>c. ig_next ig \<le> c \<longrightarrow> ig_sent ig c = None)"

lemma ingress_invD:
  assumes "ingress_inv address ig live"
  shows "ig_address ig = address"
    and "ig_waiting ig port = Some ps \<Longrightarrow> ps \<noteq> [] \<and> distinct (map pd_socket ps)"
    and "waits ig port p \<Longrightarrow> \<exists>r \<in> set live. served_by ig port p r"
    and "distinct (map rg_socket live)" and "distinct (map rg_channel live)"
    and "r \<in> set live \<Longrightarrow> rg_channel r < ig_next ig"
    and "ig_next ig \<le> c \<Longrightarrow> ig_sent ig c = None"
  using assms unfolding ingress_inv_def by blast+

lemma inv_start: "Ingress_new (Ok address) = Ok ig \<Longrightarrow> ingress_inv address ig []"
  by (auto simp: Ingress_new_def ingress_inv_def waits_def)

lemma inv_register:
  assumes I: "ingress_inv address ig live" and fd: "fd \<notin> rg_socket ` set live"
    and r: "Ingress_register prepared fd ig = (Ok r, ig')"
  shows "ingress_inv address ig' (r # live)"
proof -
  note inv = ingress_invD [OF I]
  obtain port where port: "prepared = Ok port" using r by (cases prepared) (auto simp: Ingress_register_def)
  let ?c = "ig_next ig" and ?p = "\<lparr>pd_socket = fd, pd_sender = Some (ig_next ig)\<rparr>"
  let ?old = "case ig_waiting ig port of Some ps \<Rightarrow> ps | None \<Rightarrow> []"
  from r port have r': "r = \<lparr>rg_port = port, rg_socket = fd, rg_channel = ?c\<rparr>"
    and ig': "ig' = ig\<lparr>ig_next := ?c + 1, ig_waiting := (ig_waiting ig)(port \<mapsto> ?old @ [?p])\<rparr>"
    by (auto simp: Ingress_register_def Let_def)
  have old_waits: "p \<in> set ?old \<Longrightarrow> waits ig port p" for p
    by (cases "ig_waiting ig port") (auto simp: waits_def)
  have old_fd: "fd \<notin> pd_socket ` set ?old"
  proof
    assume "fd \<in> pd_socket ` set ?old"
    then obtain p where p: "p \<in> set ?old" "fd = pd_socket p" by blast
    from inv(3) [OF old_waits [OF p(1)]] p(2) fd show False
      unfolding served_by_def by (metis imageI)
  qed
  have old_distinct: "distinct (map pd_socket ?old)"
    using inv(2) [of port] by (cases "ig_waiting ig port") auto
  have w: "waits ig' q p \<longleftrightarrow> waits ig q p \<or> q = port \<and> p = ?p" for q p
    by (cases "ig_waiting ig port") (auto simp: waits_def ig')
  show ?thesis
    unfolding ingress_inv_def
  proof (intro conjI allI impI ballI)
    show "ig_address ig' = address" using inv(1) ig' by simp
    show "distinct (map rg_socket (r # live))" using inv(4) fd r' by simp
    show "distinct (map rg_channel (r # live))" using inv(5,6) r' by force
    show "x \<in> set (r # live) \<Longrightarrow> rg_channel x < ig_next ig'" for x using inv(6) [of x] r' ig' by auto
    show "ig_next ig' \<le> c \<Longrightarrow> ig_sent ig' c = None" for c using inv(7) [of c] ig' by simp
    fix q ps
    show "ig_waiting ig' q = Some ps \<Longrightarrow> ps \<noteq> []" using inv(2) [of q ps] ig' by (auto split: if_splits)
    show "ig_waiting ig' q = Some ps \<Longrightarrow> distinct (map pd_socket ps)"
      using inv(2) [of q ps] old_fd old_distinct ig' by (auto split: if_splits)
  next
    fix q p assume "waits ig' q p"
    then consider "waits ig q p" | "q = port" "p = ?p" using w by blast
    then show "\<exists>x \<in> set (r # live). served_by ig' q p x"
    proof cases
      case 1
      from inv(3) [OF this] show ?thesis by (auto simp: served_by_def ig')
    next
      case 2
      then have "served_by ig' q p r" using inv(7) [of ?c] by (simp add: served_by_def ig' r')
      then show ?thesis by simp
    qed
  qed
qed

lemma take_sender_Some:
  "take_sender P ps = (Some c, ps') \<Longrightarrow>
     \<exists>xs p ys. ps = xs @ p # ys \<and> P p \<and> pd_sender p = Some c \<and> ps' = xs @ p\<lparr>pd_sender := None\<rparr> # ys"
proof (induction ps arbitrary: ps')
  case (Cons p ps)
  show ?case
  proof (cases "P p")
    case True
    with Cons.prems show ?thesis by (intro exI [of _ "[]"]) auto
  next
    case False
    with Cons.prems obtain qs where q: "take_sender P ps = (Some c, qs)" "ps' = p # qs"
      by (auto split: prod.splits)
    from Cons.IH [OF q(1)] obtain xs p' ys where
      "ps = xs @ p' # ys" "P p'" "pd_sender p' = Some c" "qs = xs @ p'\<lparr>pd_sender := None\<rparr> # ys" by blast
    with q(2) show ?thesis by (intro exI [of _ "p # xs"] exI [of _ p'] exI [of _ ys]) simp
  qed
qed simp

lemma deliver_cases:
  obtains (dropped) "Ingress_deliver socks stream source ig = ig"
  | (sent) c xs p ys where "ig_waiting ig (sa_port source) = Some (xs @ p # ys)"
      "endpoint_matches socks (ig_address ig) source p" "pd_sender p = Some c"
      "Ingress_deliver socks stream source ig =
         ig\<lparr>ig_waiting := (ig_waiting ig)(sa_port source \<mapsto> xs @ p\<lparr>pd_sender := None\<rparr> # ys),
            ig_sent := (ig_sent ig)(c \<mapsto> stream)\<rparr>"
proof (cases "ig_waiting ig (sa_port source)")
  case None
  then show ?thesis by (intro dropped) (simp add: Ingress_deliver_def)
next
  case (Some ps)
  obtain sender ps' where t: "take_sender (endpoint_matches socks (ig_address ig) source) ps = (sender, ps')"
    by force
  show ?thesis
  proof (cases sender)
    case None
    with Some t show ?thesis by (intro dropped) (simp add: Ingress_deliver_def)
  next
    case c: (Some c)
    from take_sender_Some [OF t [unfolded c]] obtain xs p ys where
      "ps = xs @ p # ys" "endpoint_matches socks (ig_address ig) source p" "pd_sender p = Some c"
      "ps' = xs @ p\<lparr>pd_sender := None\<rparr> # ys" by blast
    with Some t c show ?thesis by (intro sent [of xs p ys c]) (simp_all add: Ingress_deliver_def)
  qed
qed

lemma inv_deliver:
  assumes I: "ingress_inv address ig live"
  shows "ingress_inv address (Ingress_deliver socks stream source ig) live"
proof (cases rule: deliver_cases [of socks stream source ig])
  case dropped
  with I show ?thesis by simp
next
  case (sent c xs p ys)
  note inv = ingress_invD [OF I]
  let ?port = "sa_port source" and ?ig = "Ingress_deliver socks stream source ig"
  have p: "waits ig ?port p" using sent(1) by (simp add: waits_def)
  from inv(3) [OF this] sent(3) obtain r where r: "r \<in> set live" "rg_port r = ?port"
    "rg_socket r = pd_socket p" "rg_channel r = c" by (auto simp: served_by_def)
  have d: "distinct (map pd_socket (xs @ p # ys))" using inv(2) [OF sent(1)] by blast
  have served: "\<exists>x \<in> set live. served_by ?ig q p' x"
    if w: "waits ig q p'" and ne: "q = ?port \<Longrightarrow> p' \<in> set xs \<union> set ys" for q p'
  proof -
    from inv(3) [OF w] obtain x where x: "x \<in> set live" "served_by ig q p' x" by blast
    have "rg_channel x \<noteq> c" if "pd_sender p' \<noteq> None"
    proof
      assume "rg_channel x = c"
      with x(1) r inv(5) have "x = r" by (metis distinct_map inj_onD)
      with x(2) r(2,3) have "q = ?port" "pd_socket p' = pd_socket p" by (auto simp: served_by_def)
      with ne d show False by (auto simp: image_iff)
    qed
    with x show ?thesis by (intro bexI [of _ x]) (auto simp: served_by_def sent(4))
  qed
  show ?thesis
    unfolding ingress_inv_def
  proof (intro conjI allI impI ballI)
    show "ig_address ?ig = address" using inv(1) sent(4) by simp
    show "distinct (map rg_socket live)" "distinct (map rg_channel live)" by fact+
    show "x \<in> set live \<Longrightarrow> rg_channel x < ig_next ?ig" for x using inv(6) [of x] sent(4) by simp
    show "ig_next ?ig \<le> c' \<Longrightarrow> ig_sent ?ig c' = None" for c'
      using inv(7) [of c'] inv(6) [OF r(1)] r(4) sent(4) by auto
    fix q ps assume "ig_waiting ?ig q = Some ps"
    then have "q = ?port \<and> ps = xs @ p\<lparr>pd_sender := None\<rparr> # ys \<or> ig_waiting ig q = Some ps"
      using sent(4) by (auto split: if_splits)
    then show "ps \<noteq> []" "distinct (map pd_socket ps)" using inv(2) [of q ps] d by auto
  next
    fix q p' assume w: "waits ?ig q p'"
    show "\<exists>x \<in> set live. served_by ?ig q p' x"
    proof (cases "q = ?port \<and> p' = p\<lparr>pd_sender := None\<rparr>")
      case True
      with r show ?thesis by (intro bexI [of _ r]) (simp_all add: served_by_def)
    next
      case False
      with w have "waits ig q p' \<and> (q = ?port \<longrightarrow> p' \<in> set xs \<union> set ys)"
        using sent(1,4) by (auto simp: waits_def split: if_splits)
      then show ?thesis using served by blast
    qed
  qed
qed

lemma distinct_map_remove1: "distinct (map f xs) \<Longrightarrow> distinct (map f (remove1 x xs))"
  by (induction xs) (auto, metis imageI notin_set_remove1)

lemma inv_drop:
  assumes I: "ingress_inv address ig live" and r: "r \<in> set live"
  shows "ingress_inv address (Registration_drop r ig) (remove1 r live)"
proof -
  note inv = ingress_invD [OF I]
  let ?ig = "Registration_drop r ig"
  have same: "ig_address ?ig = ig_address ig" "ig_next ?ig = ig_next ig" "ig_sent ?ig = ig_sent ig"
    by (simp_all add: Registration_drop_def Let_def split: option.split)
  have waiting: "ig_waiting ?ig q = Some ps \<Longrightarrow>
      ps \<noteq> [] \<and> (\<exists>qs. ig_waiting ig q = Some qs \<and>
        (if q = rg_port r then ps = filter (\<lambda>p. pd_socket p \<noteq> rg_socket r) qs else ps = qs))" for q ps
    using inv(2) [of q ps] by (auto simp: Registration_drop_def Let_def split: option.splits if_splits)
  show ?thesis
    unfolding ingress_inv_def same
  proof (intro conjI allI impI ballI)
    show "ig_address ig = address" by fact
    show "distinct (map rg_socket (remove1 r live))" "distinct (map rg_channel (remove1 r live))"
      using inv(4,5) by (simp_all add: distinct_map_remove1)
    show "x \<in> set (remove1 r live) \<Longrightarrow> rg_channel x < ig_next ig" for x
      using inv(6) [of x] by (meson notin_set_remove1)
    show "ig_next ig \<le> c \<Longrightarrow> ig_sent ig c = None" for c by fact
    fix q ps assume "ig_waiting ?ig q = Some ps"
    from waiting [OF this] show "ps \<noteq> []" "distinct (map pd_socket ps)"
      using inv(2) by (auto simp: distinct_map_filter split: if_splits)
  next
    fix q p assume "waits ?ig q p"
    then obtain ps where ps: "ig_waiting ?ig q = Some ps" "p \<in> set ps" by (auto simp: waits_def)
    with waiting [OF ps(1)] have w: "waits ig q p" "q = rg_port r \<Longrightarrow> pd_socket p \<noteq> rg_socket r"
      by (auto simp: waits_def split: if_splits)
    from inv(3) [OF w(1)] obtain x where x: "x \<in> set live" "served_by ig q p x" by blast
    with w(2) have "x \<noteq> r" by (auto simp: served_by_def)
    with x show "\<exists>x \<in> set (remove1 r live). served_by ?ig q p x"
      by (intro bexI [of _ x]) (simp_all add: served_by_def same)
  qed
qed

lemma ingress_reachable_inv: "ingress_reachable address ig live \<Longrightarrow> ingress_inv address ig live"
  by (induction rule: ingress_reachable.induct) (blast intro: inv_start inv_register inv_deliver inv_drop)+

text \<open>
  C10. A stream only ever reaches the connection it belongs to. In every reachable state, an
  accepted stream is dropped without a trace, or it is handed to a live registration that has not
  received one, whose socket is locally bound to the source of the stream and connected to the
  listener; the source port alone never suffices.
\<close>

theorem stream_reaches_its_socket:
  assumes "ingress_reachable address ig live"
    and "Ingress_deliver socks stream source ig \<noteq> ig"
  shows "\<exists>r \<in> set live. rg_port r = sa_port source
    \<and> sockets_address (socks (rg_socket r)) False = Ok source
    \<and> sockets_address (socks (rg_socket r)) True = Ok address
    \<and> ig_sent ig (rg_channel r) = None
    \<and> ig_sent (Ingress_deliver socks stream source ig) = (ig_sent ig)(rg_channel r \<mapsto> stream)"
proof (cases rule: deliver_cases [of socks stream source ig])
  case dropped
  with assms(2) show ?thesis by simp
next
  case (sent c xs p ys)
  note inv = ingress_invD [OF ingress_reachable_inv [OF assms(1)]]
  have "waits ig (sa_port source) p" using sent(1) by (simp add: waits_def)
  from inv(3) [OF this] sent(3) obtain r where r: "r \<in> set live" "rg_port r = sa_port source"
    "rg_socket r = pd_socket p" "rg_channel r = c" "ig_sent ig c = None" by (auto simp: served_by_def)
  with sent(2,4) inv(1) show ?thesis
    by (intro bexI [of _ r]) (simp_all add: endpoint_matches_def)
qed

text \<open>No registration leaves anything behind.\<close>

lemma no_registration_no_entry: "ingress_reachable address ig [] \<Longrightarrow> ig_waiting ig = Map.empty"
proof -
  assume "ingress_reachable address ig []"
  note inv = ingress_invD [OF ingress_reachable_inv [OF this]]
  have "ig_waiting ig q = None" for q
  proof (cases "ig_waiting ig q")
    case (Some ps)
    with inv(2) [OF Some] obtain p where "waits ig q p" by (cases ps) (auto simp: waits_def)
    from inv(3) [OF this] show ?thesis by simp
  qed
  then show ?thesis by (rule ext)
qed

text \<open>A resource shortage never ends the accept loop.\<close>

lemma shortage_retried:
  "raw_os_error e \<in> {Some EMFILE, Some ENFILE, Some ENOBUFS, Some ENOMEM} \<Longrightarrow>
   Ingress_run ((socks, Err e) # es) ig = Ingress_run es ig"
  by simp

definition sample_socks :: "int \<Rightarrow> sock_kernel" where
  "sample_socks fd = \<lparr>sk_getsockname = Ok (address_bytes (sock_addr 0x7f000002 4000)),
     sk_getpeername = Ok (address_bytes (sock_addr 0x7f000001 9000)),
     sk_getsockopt = (\<lambda>l n w. Err (Os EBADF)), sk_ioctl = (\<lambda>r. Err (Os EBADF))\<rparr>"

lemma sample_socks_address:
  "sockets_address (sample_socks fd) False = Ok (sock_addr 0x7f000002 4000)"
  "sockets_address (sample_socks fd) True = Ok (sock_addr 0x7f000001 9000)"
  by (rule sockets_address_stored [where rest = "[]"]; simp add: sample_socks_def)+

definition sample_ingress :: "string ingress" where
  "sample_ingress = \<lparr>ig_address = sock_addr 0x7f000001 9000,
     ig_waiting = [4000 \<mapsto> [\<lparr>pd_socket = 5, pd_sender = Some 0\<rparr>]], ig_sent = Map.empty, ig_next = 1\<rparr>"

lemma sample_ingress_reachable:
  "ingress_reachable (sock_addr 0x7f000001 9000) sample_ingress [\<lparr>rg_port = 4000, rg_socket = 5, rg_channel = 0\<rparr>]"
proof -
  let ?ig = "\<lparr>ig_address = sock_addr 0x7f000001 9000, ig_waiting = Map.empty, ig_sent = Map.empty, ig_next = 0\<rparr>
    :: string ingress"
  have "ingress_reachable (sock_addr 0x7f000001 9000) ?ig []"
    by (rule ingress_reachable.start) (simp add: Ingress_new_def)
  moreover have "Ingress_register (Ok 4000) 5 ?ig
      = (Ok \<lparr>rg_port = 4000, rg_socket = 5, rg_channel = 0\<rparr>, sample_ingress)"
    by (simp add: Ingress_register_def sample_ingress_def)
  ultimately show ?thesis using ingress_reachable.register by fastforce
qed

theorem stream_reaches_its_socket_witness:
  "ig_sent (Ingress_deliver sample_socks ''s'' (sock_addr 0x7f000002 4000) sample_ingress) = [0 \<mapsto> ''s'']"
proof -
  have "Ingress_deliver sample_socks ''s'' (sock_addr 0x7f000002 4000) sample_ingress \<noteq> sample_ingress"
    by (simp add: Ingress_deliver_def sample_ingress_def endpoint_matches_def sample_socks_address fun_upd_def
        fun_eq_iff)
  from stream_reaches_its_socket [OF sample_ingress_reachable this]
  show ?thesis by (simp add: sample_ingress_def)
qed

end
