(* ===== verification/Resolver_Files.thy ===== *)
theory Resolver_Files
  imports Memory Config
begin

text \<open>
  The files of \<open>src/broker/files.rs\<close> that the broker puts in place of the resolver
  configuration: their contents, the sealed memory files that hold them, and the flags of the
  calls that open them. The handlers themselves are in the theory \<open>Files\<close>.
\<close>

section \<open>Paths\<close>

text \<open>
  \<open>std::path::Path\<close> on Unix: a path is its bytes, compared by components. Empty and \<open>.\<close> pieces
  do not count, except for a leading \<open>.\<close>.
\<close>

datatype component = RootDir | CurDir | ParentDir | Normal bytes

abbreviation SLASH :: u8 where "SLASH \<equiv> 47"
abbreviation DOT :: u8 where "DOT \<equiv> 46"

definition is_absolute :: "bytes \<Rightarrow> bool" where
  "is_absolute p \<longleftrightarrow> p \<noteq> [] \<and> hd p = SLASH"

definition component_of :: "bytes \<Rightarrow> component option" where
  "component_of w =
     (if w = [] \<or> w = [DOT] then None else if w = [DOT, DOT] then Some ParentDir else Some (Normal w))"

definition path_components :: "bytes \<Rightarrow> component list" where
  "path_components p =
     (if is_absolute p then [RootDir] else if hd (split_on SLASH p) = [DOT] then [CurDir] else [])
     @ List.map_filter component_of (split_on SLASH p)"

definition path_eq :: "bytes \<Rightarrow> bytes \<Rightarrow> bool" where
  "path_eq p q \<longleftrightarrow> path_components p = path_components q"

definition file_name :: "bytes \<Rightarrow> bytes option" where
  "file_name p =
     (case rev (path_components p) of Normal w # cs \<Rightarrow> Some w | _ \<Rightarrow> None)"

definition path_join :: "bytes \<Rightarrow> bytes \<Rightarrow> bytes" where
  "path_join base p =
     (if is_absolute p then p
      else if base \<noteq> [] \<and> last base \<noteq> SLASH then base @ [SLASH] @ p
      else base @ p)"

definition ends_with :: "bytes \<Rightarrow> bytes \<Rightarrow> bool" where
  "ends_with p s \<longleftrightarrow> starts_with (rev s) (rev p)"

text \<open>What the file system answers: the calls of \<open>std::fs\<close> and \<open>open\<close>.\<close>

record filesystem =
  fs_canonicalize :: "bytes \<Rightarrow> bytes io_result"
  fs_read_link :: "string \<Rightarrow> bytes io_result"
  fs_is_symlink :: "bytes \<Rightarrow> bool io_result"
  fs_open :: "string \<Rightarrow> u32 \<Rightarrow> int io_result"

fun ok :: "('a, 'e) result \<Rightarrow> 'a option" where
  "ok (Ok a) = Some a"
| "ok (Err e) = None"

section \<open>Contents\<close>

definition resolv_conf :: string where
  "resolv_conf = ''nameserver '' @ show_ipv4 DNS_ADDR @ [LF]"

definition is_hosts :: "string \<Rightarrow> bool" where
  "is_hosts line \<longleftrightarrow>
     (case split_once (CHR '':'') line of Some (name, _) \<Rightarrow> trim name = ''hosts'' | None \<Rightarrow> False)"

definition nsswitch_conf :: "string \<Rightarrow> string" where
  "nsswitch_conf original =
     join_with LF (filter (\<lambda>line. \<not> is_hosts line) (str_lines original) @ [''hosts: files dns'']) @ [LF]"

section \<open>Sealed files\<close>

text \<open>
  A memory file as it is after the calls that make it: its descriptor, contents, permission bits
  and seals.
\<close>

abbreviation SEALS :: u32 where "SEALS \<equiv> 0x0f"

record memfd =
  mf_fd :: int
  mf_data :: bytes
  mf_mode :: nat
  mf_seals :: u32

record config_file =
  cf_path :: bytes
  cf_canonical :: "bytes option"
  cf_file :: memfd

text \<open>The outcomes of \<open>memfd_create\<close>, \<open>write_all\<close>, \<open>fchmod\<close> and \<open>F_ADD_SEALS\<close>.\<close>

record memfd_answers =
  ma_create :: "int io_result"
  ma_write :: "unit io_result"
  ma_chmod :: "unit io_result"
  ma_seal :: "unit io_result"

definition ConfigFile_new :: "filesystem \<Rightarrow> memfd_answers \<Rightarrow> string \<Rightarrow> string \<Rightarrow> config_file io_result" where
  "ConfigFile_new fs k p contents =
     and_then (ma_create k) (\<lambda>raw.
     and_then (ma_write k) (\<lambda>_.
     and_then (ma_chmod k) (\<lambda>_.
     and_then (ma_seal k) (\<lambda>_.
     Ok \<lparr>cf_path = as_bytes p, cf_canonical = ok (fs_canonicalize fs (as_bytes p)),
         cf_file = \<lparr>mf_fd = raw, mf_data = as_bytes contents, mf_mode = 4 * 64 + 4 * 8 + 4, mf_seals = SEALS\<rparr>\<rparr>))))"

definition O_DIRECTORY :: "target_arch \<Rightarrow> u32" where
  "O_DIRECTORY t = (case t of X86_64 \<Rightarrow> 0x10000 | Aarch64 \<Rightarrow> 0x4000)"

definition O_NOFOLLOW :: "target_arch \<Rightarrow> u32" where
  "O_NOFOLLOW t = (case t of X86_64 \<Rightarrow> 0x20000 | Aarch64 \<Rightarrow> 0x8000)"

abbreviation O_ACCMODE :: u32 where "O_ACCMODE \<equiv> 3"
abbreviation O_RDONLY :: u32 where "O_RDONLY \<equiv> 0"
abbreviation O_CREAT :: u32 where "O_CREAT \<equiv> 0x40"
abbreviation O_EXCL :: u32 where "O_EXCL \<equiv> 0x80"
abbreviation O_TRUNC :: u32 where "O_TRUNC \<equiv> 0x200"
abbreviation O_PATH :: u32 where "O_PATH \<equiv> 0x200000"

definition reopen :: "target_arch \<Rightarrow> filesystem \<Rightarrow> config_file \<Rightarrow> u32 \<Rightarrow> int io_result" where
  "reopen t fs f flags =
     fs_open fs (''/proc/self/fd/'' @ show_nat (nat (mf_fd (cf_file f))))
       ((flags AND NOT (O_CREAT OR O_EXCL OR O_NOFOLLOW t)) OR O_CLOEXEC)"

type_synonym resolver_files = "config_file list"

text \<open>\<open>ResolverFiles::new\<close>; \<open>nsswitch\<close> is what reading \<open>/etc/nsswitch.conf\<close> gives.\<close>

definition ResolverFiles_new ::
  "filesystem \<Rightarrow> string io_result \<Rightarrow> memfd_answers \<Rightarrow> memfd_answers \<Rightarrow> resolver_files io_result" where
  "ResolverFiles_new fs nsswitch k1 k2 =
     (let nss = nsswitch_conf (case nsswitch of Ok s \<Rightarrow> s | Err e \<Rightarrow> [])
      in and_then (ConfigFile_new fs k1 ''/etc/resolv.conf'' resolv_conf) (\<lambda>f1.
         and_then (ConfigFile_new fs k2 ''/etc/nsswitch.conf'' nss) (\<lambda>f2. Ok [f1, f2])))"

text \<open>
  \<open>verify_bootstrap\<close>, given the outcome of opening \<open>/etc/resolv.conf\<close> and, of the file that
  was opened, its seals and what reading it as text gives.
\<close>

definition verify_bootstrap :: "unit io_result \<Rightarrow> u32 \<Rightarrow> string io_result \<Rightarrow> unit io_result" where
  "verify_bootstrap opened seals contents =
     and_then opened (\<lambda>_.
       if seals \<noteq> SEALS then Err (Custom OtherKind)
       else and_then contents (\<lambda>text.
         if text \<noteq> resolv_conf then Err (Custom OtherKind) else Ok ()))"

section \<open>Arguments\<close>

definition how_flags :: "bytes \<Rightarrow> u32 io_result" where
  "how_flags bs =
     (if \<exists>byte \<in> set (drop 24 bs). byte \<noteq> 0 then Err (Os E2BIG)
      else let flags = from_ne_bytes (take 8 bs) :: u64;
               mode = from_ne_bytes (take 8 (drop 8 bs)) :: u64;
               resolve = from_ne_bytes (take 8 (drop 16 bs)) :: u64
           in if unat flags > I32_MAX \<or> mode AND NOT 0xfff \<noteq> 0
                 \<or> (mode \<noteq> 0 \<and> flags AND ucast O_CREAT = 0)
              then Err (Os EINVAL)
              else if resolve \<noteq> 0 then Err (Os EOPNOTSUPP)
              else Ok (ucast flags))"

definition open_how :: "u32 \<Rightarrow> u64 \<Rightarrow> u64 \<Rightarrow> u32 on_target" where
  "open_how tid address len =
     (if len < 24 then fail (Os EINVAL)
      else if len > 4096 then fail (Os E2BIG)
      else seq_do (memory_read tid address (unat len)) (\<lambda>bs t. (how_flags bs, t)))"

definition resolver_socket :: "bytes \<Rightarrow> bool" where
  "resolver_socket p \<longleftrightarrow>
     p \<in> {as_bytes ''/run/nscd/socket'', as_bytes ''/var/run/nscd/socket'',
          as_bytes ''/run/systemd/resolve/io.systemd.Resolve'',
          as_bytes ''/var/run/systemd/resolve/io.systemd.Resolve''}"

section \<open>Properties\<close>

lemma str_lines_free: "l \<in> set (str_lines s) \<Longrightarrow> LF \<notin> set l"
proof -
  have "LF \<notin> set (strip_cr l)" if "LF \<notin> set l" for l
    using that by (auto simp: strip_cr_def dest: in_set_butlastD)
  moreover assume "l \<in> set (str_lines s)"
  ultimately show ?thesis
    using split_on_pieces_free [of _ LF s]
    by (auto simp: str_lines_def Let_def split: if_splits dest: in_set_butlastD)
qed

lemma nsswitch_split:
  "split_on LF (nsswitch_conf original) =
     filter (\<lambda>line. \<not> is_hosts line) (str_lines original) @ [''hosts: files dns'', []]"
proof -
  let ?ls = "filter (\<lambda>line. \<not> is_hosts line) (str_lines original)"
  have joined: "nsswitch_conf original = join_with LF (?ls @ [''hosts: files dns'', []])"
  proof -
    have "join_with LF (ls @ [l]) @ [LF] = join_with LF (ls @ [l, []])" for ls :: "string list" and l
      by (induction ls) (simp_all add: join_with_Cons)
    then show ?thesis by (simp add: nsswitch_conf_def)
  qed
  show ?thesis
    unfolding joined
  proof (rule split_join_with)
    fix w assume "w \<in> set (?ls @ [''hosts: files dns'', []])"
    then consider "w \<in> set (str_lines original)" | "w = ''hosts: files dns''" | "w = []" by auto
    then show "LF \<notin> set w" by cases (use str_lines_free in simp_all)
  qed simp
qed

text \<open>The mark that the bootstrap checks is what \<open>ResolverFiles::new\<close> made.\<close>

lemma bootstrap_recognises:
  assumes "ResolverFiles_new fs nsswitch k1 k2 = Ok files"
  shows "verify_bootstrap (Ok ()) (mf_seals (cf_file (files ! 0))) (Ok (of_bytes (mf_data (cf_file (files ! 0))))) = Ok ()"
  using assms
  by (auto simp: ResolverFiles_new_def Let_def and_then_Ok_iff ConfigFile_new_def verify_bootstrap_def)

end
