(* ===== verification/Broker.thy ===== *)
theory Broker
  imports Dns Message Tcp_Ingress Resolver_Files
begin

text \<open>
  The state that the handlers of \<open>src/broker/engine.rs\<close> share, and how a handler talks to the
  kernel about its notification.

  A handler is an action on the broker. The kernel answers the control calls on the listener one
  after the other from a list (\<open>br_answers\<close>, success past its end) and \<open>br_calls\<close> records
  them. Time is \<open>br_now\<close>, in nanoseconds. \<open>br_connected\<close> records the addresses that TCP
  sockets were connected to on behalf of the target, \<open>br_datagrams\<close> what its UDP sockets were
  connected to and what was sent through them.
\<close>

section \<open>State\<close>

datatype reply = Continue | Value int | Sent

record peer =
  pr_target :: sock_addr_v4
  pr_internal :: sock_addr_v4
  pr_created :: nat
  pr_pending :: bool

text \<open>
  What a spawned relay task holds: its registration, what it is to connect to, and the permit
  until both sides are connected; \<open>None\<close>
  stands for the DNS resolver.
\<close>

record relay_task =
  rt_registration :: registration
  rt_upstream :: "(proxy_target \<times> proxy_config) option"
  rt_permit :: bool

text \<open>\<open>connect\<close> and \<open>sendmsg\<close> on a UDP socket, with the payload, control data and flags.\<close>

datatype udp_call = UdpConnect int sock_addr_v4 | UdpSend int sock_addr_v4 bytes bytes u32

record broker =
  br_target :: target
  br_answers :: "unit io_result list"
  br_calls :: "seccomp_ioctl list"
  br_now :: nat
  br_access :: socket_access
  br_config :: config
  br_dns :: dns
  br_files :: resolver_files
  br_ingress :: "tcp ingress"
  br_peers :: "u64 \<rightharpoonup> peer"
  br_permits :: nat
  br_relays :: "relay_task list"
  br_connected :: "(int \<times> sock_addr_v4) list"
  br_datagrams :: "udp_call list"

type_synonym 'a handler = "('a, io_error, broker) action"

text \<open>
  \<open>Broker::new\<close>, given the outcomes of binding the DNS socket, of making the resolver files and
  of binding the TCP listener.
\<close>

definition Broker_new ::
  "socket_access \<Rightarrow> config \<Rightarrow> sock_addr_v4 io_result \<Rightarrow> resolver_files io_result
     \<Rightarrow> sock_addr_v4 io_result \<Rightarrow> target \<Rightarrow> broker io_result" where
  "Broker_new access config dns_bound files_made ingress_bound t =
     and_then (Dns_new dns_bound) (\<lambda>d.
     and_then files_made (\<lambda>files.
     and_then (Ingress_new ingress_bound) (\<lambda>ig.
     Ok \<lparr>br_target = t, br_answers = [], br_calls = [], br_now = 0, br_access = access, br_config = config,
         br_dns = d, br_files = files, br_ingress = ig, br_peers = Map.empty, br_permits = 128,
         br_relays = [], br_connected = [], br_datagrams = []\<rparr>)))"

section \<open>Calls\<close>

definition listener_call :: "seccomp_ioctl \<Rightarrow> broker \<Rightarrow> unit io_result \<times> broker" where
  "listener_call request b =
     (case br_answers b of
        [] \<Rightarrow> (Ok (), b\<lparr>br_calls := br_calls b @ [request]\<rparr>)
      | a # as \<Rightarrow> (a, b\<lparr>br_answers := as, br_calls := br_calls b @ [request]\<rparr>))"

definition broker_valid :: "notification \<Rightarrow> unit handler" where
  "broker_valid n b =
     (let (answer, b') = listener_call (CheckId (nt_id n)) b
      in (case valid (\<lambda>_. answer) (nt_id n) of
            Err e \<Rightarrow> Err e
          | Ok True \<Rightarrow> Ok ()
          | Ok False \<Rightarrow> Err (Os EINTR), b'))"

definition answer_value :: "reply io_result \<Rightarrow> (int \<times> int \<times> bool) option" where
  "answer_value result =
     (case result of
        Ok Sent \<Rightarrow> None
      | Ok Continue \<Rightarrow> Some (0, 0, True)
      | Ok (Value v) \<Rightarrow> Some (v, 0, False)
      | Err e \<Rightarrow> Some (0, case raw_os_error e of Some errno \<Rightarrow> errno | None \<Rightarrow> EIO, False))"

text \<open>\<open>Broker::respond\<close>: a notification that is gone is not an error.\<close>

definition broker_respond :: "notification \<Rightarrow> reply io_result \<Rightarrow> unit handler" where
  "broker_respond n result b =
     (case answer_value result of
        None \<Rightarrow> (Ok (), b)
      | Some (v, errno, passthrough) \<Rightarrow>
          (case respond (\<lambda>_. Ok ()) (nt_id n) v errno passthrough of
             (_, []) \<Rightarrow> (Err (Custom InvalidInput), b)
           | (_, request # _) \<Rightarrow>
               (case listener_call request b of
                  (Err e, b') \<Rightarrow> (if raw_os_error e = Some ENOENT then Ok () else Err e, b')
                | (Ok u, b') \<Rightarrow> (Ok (), b'))))"

section \<open>Memory of the target\<close>

definition on_memory :: "'a on_target \<Rightarrow> 'a handler" where
  "on_memory m b = (let (r, t) = m (br_target b) in (r, b\<lparr>br_target := t\<rparr>))"

definition ask_kernel :: "'a io_result \<Rightarrow> 'a handler" where
  "ask_kernel answer b = (answer, b)"

definition update :: "(broker \<Rightarrow> broker) \<Rightarrow> unit handler" where
  "update f b = (Ok (), f b)"

definition look :: "(broker \<Rightarrow> 'a) \<Rightarrow> 'a handler" where
  "look f b = (Ok (f b), b)"

text \<open>The result of a part of the handler as a value.\<close>

definition attempt :: "'a handler \<Rightarrow> 'a io_result handler" where
  "attempt m b = (case m b of (r, b') \<Rightarrow> (Ok r, b'))"

section \<open>What handlers keep\<close>

lemma keeps_update: "(\<And>b. I b \<Longrightarrow> I (f b)) \<Longrightarrow> keeps I (update f)"
  by (simp add: keeps_def update_def)

lemma keeps_ask_kernel [simp]: "keeps I (ask_kernel r)"
  by (simp add: keeps_def ask_kernel_def)

lemma keeps_look_only [simp]: "keeps I (look g)"
  by (simp add: keeps_def look_def)

lemma keeps_attempt: "keeps I m \<Longrightarrow> keeps I (attempt m)"
  by (simp add: keeps_def attempt_def split_beta)

lemma keeps_look: "(\<And>b. I b \<Longrightarrow> keeps I (f (g b))) \<Longrightarrow> keeps I (seq_do (look g) f)"
  by (simp add: keeps_def look_def seq_do_def)

text \<open>A property of every value that an action can succeed with.\<close>

definition results :: "('a \<Rightarrow> bool) \<Rightarrow> ('a, 'e, 's) action \<Rightarrow> bool" where
  "results P m \<longleftrightarrow> (\<forall>s a s'. m s = (Ok a, s') \<longrightarrow> P a)"

lemma resultsD: "results P m \<Longrightarrow> m s = (Ok a, s') \<Longrightarrow> P a"
  by (auto simp: results_def)

lemma results_seq: "(\<And>a. results P (f a)) \<Longrightarrow> results P (seq_do m f)"
  by (auto simp: results_def seq_do_Ok_iff)

lemma results_bind: "results Q m \<Longrightarrow> (\<And>a. Q a \<Longrightarrow> results P (f a)) \<Longrightarrow> results P (seq_do m f)"
  unfolding results_def seq_do_Ok_iff by blast

lemma results_mono: "results P m \<Longrightarrow> (\<And>a. P a \<Longrightarrow> Q a) \<Longrightarrow> results Q m"
  unfolding results_def by blast

lemma results_simple [simp]: "results P (yield a) \<longleftrightarrow> P a" "results P (fail e)"
  by (auto simp: results_def)

lemma results_in_context [simp]: "results P (in_context f m) \<longleftrightarrow> results P m"
  by (auto simp: results_def)

lemma triple_pure: "(c \<Longrightarrow> triple P m Q E) \<Longrightarrow> triple (\<lambda>s. P s \<and> c) m Q E"
  by (auto simp: triple_def)

lemma fst_seq_do: "fst (seq_do m f s) = (case fst (m s) of Ok a \<Rightarrow> fst (f a (snd (m s))) | Err e \<Rightarrow> Err e)"
  by (simp add: seq_do_def split: prod.split result.split)

lemma fst_yield [simp]: "fst (yield a s) = Ok a" "fst (fail e s) = Err e"
  by (simp_all add: yield_def fail_def)

lemma attempt_Ok [simp]: "attempt m b = (r, b') \<longleftrightarrow> (\<exists>q. m b = (q, b') \<and> r = Ok q)"
  by (auto simp: attempt_def split: prod.splits)

lemma on_memory_Ok [simp]:
  "on_memory m b = (r, b') \<longleftrightarrow> r = fst (m (br_target b)) \<and> b' = b\<lparr>br_target := snd (m (br_target b))\<rparr>"
  by (auto simp: on_memory_def split: prod.splits)

lemma on_memory_keeps [simp]:
  "snd (on_memory m b) = b\<lparr>br_target := snd (m (br_target b))\<rparr>"
  by (simp add: on_memory_def split: prod.split)

text \<open>What the kernel decides about a notification changes nothing but the record of the calls.\<close>

lemma broker_valid_frame:
  "snd (broker_valid n b) = b\<lparr>br_answers := tl (br_answers b), br_calls := br_calls b @ [CheckId (nt_id n)]\<rparr>"
  by (simp add: broker_valid_def listener_call_def split: list.split)

section \<open>Invariants that calls about a notification cannot break\<close>

text \<open>
  An invariant that does not look at the target, the kernel's answers and the record of the calls
  is kept by the calls that every handler makes.
\<close>

locale call_frame =
  fixes inv :: "broker \<Rightarrow> bool"
  assumes inv_target: "inv (b\<lparr>br_target := t\<rparr>) = inv b"
    and inv_answers: "inv (b\<lparr>br_answers := as\<rparr>) = inv b"
    and inv_calls: "inv (b\<lparr>br_calls := cs\<rparr>) = inv b"
begin

lemma keeps_memory: "keeps inv (on_memory m)"
  by (simp add: keeps_def inv_target)

lemma keeps_listener: "inv (snd (listener_call request b)) = inv b"
  by (simp add: listener_call_def inv_answers inv_calls split: list.split)

lemma keeps_valid: "keeps inv (broker_valid n)"
  by (simp add: keeps_def broker_valid_frame inv_answers inv_calls)

lemma keeps_respond: "keeps inv (broker_respond n r)"
  unfolding keeps_def
proof (intro allI impI)
  fix b assume "inv b"
  moreover have "inv (snd (case listener_call q b of
      (Err e, b') \<Rightarrow> (if raw_os_error e = Some ENOENT then Ok () else Err e, b') | (Ok u, b') \<Rightarrow> (Ok (), b'))) = inv b" for q
    using keeps_listener [of q b] by (cases "listener_call q b"; cases "fst (listener_call q b)") simp_all
  ultimately show "inv (snd (broker_respond n r b))"
    unfolding broker_respond_def by (simp split: option.split prod.split list.split)
qed

lemmas keeps_calls = keeps_memory keeps_valid

end

section \<open>Reading addresses\<close>

lemma family_mem: "tg_mem t = tg_mem t' \<Longrightarrow> fst (family tid a len t) = fst (family tid a len t')"
  using rd_same [of t t' tid a 2] by (simp add: family_def fst_seq_do split: result.split)

lemma family_keeps_mem [simp]: "tg_mem (snd (family tid a len t)) = tg_mem t"
  using remote.rd_view [of tid a 2 t]
  by (auto simp: family_def fail_def yield_def seq_do_def split: prod.splits result.splits)

lemma ipv4_at_mem:
  assumes "tg_mem t = tg_mem t'"
  shows "fst (ipv4_at tid a len t) = fst (ipv4_at tid a len t')"
proof -
  let ?t = "snd (family tid a len t)" and ?t' = "snd (family tid a len t')"
  have "fst (memory_read tid a 16 ?t) = fst (memory_read tid a 16 ?t')"
    unfolding memory_read_def using assms by (intro rd_same) simp
  with family_mem [OF assms, of tid a len] show ?thesis
    by (simp add: ipv4_at_def fst_seq_do split: result.split)
qed

section \<open>An example\<close>

text \<open>A target with one page of memory that starts with the given bytes, and a new broker for it.\<close>

definition page_memory :: "bytes \<Rightarrow> memory" where
  "page_memory bs a =
     (if unat a div 4096 = 1
      then Some (if unat a mod 4096 < length bs then bs ! (unat a mod 4096) else 0) else None)"

lemma page_memory_at:
  "i < 4096 \<Longrightarrow> page_memory bs (0x1000 + of_nat i) = Some (if i < length bs then bs ! i else 0)"
proof -
  assume "i < 4096"
  moreover from this have "unat (0x1000 + of_nat i :: u64) = 0x1000 + i"
    using unat_add_small [of "0x1000" i] by simp
  ultimately show ?thesis by (simp add: page_memory_def)
qed

lemma page_bytes: "length bs = k \<Longrightarrow> k \<le> 4096 \<Longrightarrow> bytes_at (page_memory bs) 0x1000 k = bs"
proof -
  assume k: "length bs = k" "k \<le> 4096"
  have "bytes_at m a n = map (\<lambda>i. case m (a + of_nat i) of Some b \<Rightarrow> b | None \<Rightarrow> 0) [0..<n]" for m a n
    by (induction n arbitrary: a) (simp_all add: upt_rec [of 0] map_Suc_upt [symmetric] add.assoc del: upt_Suc)
  then have "bytes_at (page_memory bs) 0x1000 k = map (\<lambda>i. bs ! i) [0..<k]"
    using k by (auto simp: page_memory_at)
  with k show ?thesis using map_nth [of bs] by simp
qed

lemma page_reachable: "k \<le> 4096 \<Longrightarrow> reachable (page_memory bs) 7 0x1000 k = Ok ()"
proof -
  assume "k \<le> 4096"
  then have "mapped (page_memory bs) 0x1000 k = k" unfolding mapped_iff by (simp add: page_memory_at)
  with \<open>k \<le> 4096\<close> show ?thesis by (simp add: reachable_def check_tid_def)
qed

lemma page_read:
  "length bs = k \<Longrightarrow> k \<le> 4096 \<Longrightarrow> tg_mem t = page_memory bs \<Longrightarrow> fst (read_exact_at 7 0x1000 k t) = Ok bs"
  by (simp add: remote.rd_value page_reachable page_bytes)

lemma page_prefix:
  "k \<le> length bs \<Longrightarrow> length bs \<le> 4096 \<Longrightarrow> tg_mem t = page_memory bs \<Longrightarrow> fst (read_exact_at 7 0x1000 k t) = Ok (take k bs)"
  using bytes_at_take [of k "length bs" "page_memory bs" "0x1000"]
  by (simp add: remote.rd_value page_reachable page_bytes)

lemma page_path:
  assumes "0 \<notin> set bs" and "length bs < 4096" and "tg_mem t = page_memory bs"
  shows "fst (path 7 0x1000 t) = Ok bs"
proof -
  have str: "c_string m a n = Ok s"
    if "\<And>i. i < length s \<Longrightarrow> m (a + of_nat i) = Some (s ! i)" "m (a + of_nat (length s)) = Some 0"
      "0 \<notin> set s" "length s < n" for m a n s
    using that
  proof (induction s arbitrary: a n)
    case Nil
    then show ?case by (cases n) auto
  next
    case (Cons x xs)
    from Cons.prems(4) obtain n' where n: "n = Suc n'" by (cases n) auto
    have "m (a + 1 + of_nat i) = Some (xs ! i)" if "i < length xs" for i
      using Cons.prems(1) [of "Suc i"] that by (simp add: add.assoc)
    moreover have "m (a + 1 + of_nat (length xs)) = Some 0"
      using Cons.prems(2) by (simp add: add.assoc)
    ultimately have "c_string m (a + 1) n' = Ok xs" using Cons.prems(3,4) n by (intro Cons.IH) auto
    with Cons.prems(1) [of 0] Cons.prems(3) n show ?case by simp
  qed
  have u: "user_memory (page_memory bs)"
    by (auto simp: user_memory_def page_memory_def)
  have "c_string (page_memory bs) 0x1000 4096 = Ok bs"
    using assms by (intro str) (auto simp: page_memory_at)
  then show ?thesis
    using path_loop_string [of t 7 "[]" "0x1000"] u assms(3) by (simp add: path_def check_tid_def)
qed

definition example_config :: config where
  "example_config = \<lparr>cfg_default_proxy = Socks5 ''p:1'' None, cfg_command = [], cfg_rules = RuleMatcher_default\<rparr>"

definition example_file :: "string \<Rightarrow> string \<Rightarrow> int \<Rightarrow> config_file" where
  "example_file p contents fd =
     \<lparr>cf_path = as_bytes p, cf_canonical = None,
      cf_file = \<lparr>mf_fd = fd, mf_data = as_bytes contents, mf_mode = 292, mf_seals = SEALS\<rparr>\<rparr>"

definition example_broker :: "bytes \<Rightarrow> broker" where
  "example_broker bs =
     \<lparr>br_target = \<lparr>tg_mem = page_memory bs, tg_vm = []\<rparr>, br_answers = [], br_calls = [], br_now = 0,
      br_access = \<lparr>sa_method = Thread\<rparr>, br_config = example_config,
      br_dns = \<lparr>dns_resolver = Resolver_default,
        dns_servers = \<lparr>forward = [(virtual_address, sock_addr LOCALHOST 5300)],
                       reverse = [(sock_addr LOCALHOST 5300, virtual_address)]\<rparr>,
        dns_tasks = [sock_addr LOCALHOST 5300]\<rparr>,
      br_files = [example_file ''/etc/resolv.conf'' resolv_conf 8],
      br_ingress = \<lparr>ig_address = sock_addr LOCALHOST 9000, ig_waiting = Map.empty, ig_sent = Map.empty, ig_next = 0\<rparr>,
      br_peers = Map.empty, br_permits = 128, br_relays = [], br_connected = [], br_datagrams = []\<rparr>"

text \<open>A notification of thread 7 for a call with the given number and arguments.\<close>

definition example_call :: "u32 \<Rightarrow> u64 list \<Rightarrow> notification" where
  "example_call nr args =
     \<lparr>nt_id = 1, nt_pid = 7, nt_flags = 0,
      nt_data = \<lparr>sd_nr = nr, sd_arch = NATIVE_ARCH X86_64, sd_ip = 0, sd_args = args\<rparr>\<rparr>"

definition example_proc :: "(nat, int) proc_kernel" where
  "example_proc = \<lparr>pk_pidfd_open = \<lambda>tid thread. Ok (unat tid), pk_pidfd_getfd = \<lambda>p fd. Ok (fd + 10),
     pk_status = \<lambda>tid. Err (Os ENOENT), pk_kcmp = \<lambda>f tid fd. Err (Os EBADF)\<rparr>"

text \<open>A fresh socket with cookie 42.\<close>

definition example_socket :: "int \<Rightarrow> sock_kernel" where
  "example_socket protocol =
     \<lparr>sk_getsockname = Ok (address_bytes (sock_addr LOCALHOST 4000)),
      sk_getpeername = Ok (address_bytes (sock_addr LOCALHOST 9000)),
      sk_getsockopt = (\<lambda>level name width.
        if name = SO_COOKIE then Ok (to_ne_bytes (42 :: u64), 8)
        else if name = SO_DOMAIN then Ok (to_ne_bytes (2 :: u32), 4)
        else if name = SO_PROTOCOL then Ok (to_ne_bytes (of_int protocol :: u32), 4)
        else Ok (replicate width 7, width)),
      sk_ioctl = (\<lambda>r. Err (Os EBADF))\<rparr>"

lemma example_reads:
  assumes "tg_mem t = page_memory (address_bytes a)"
  shows "fst (family 7 0x1000 16 t) = Ok 2" and "fst (ipv4_at 7 0x1000 16 t) = Ok a"
proof -
  have "take 2 (address_bytes a) = [2, 0]" by (simp add: address_bytes_list)
  then show "fst (family 7 0x1000 16 t) = Ok 2"
    using page_prefix [of 2 "address_bytes a" t] assms by (simp add: family_def fst_seq_do wire_simps)
  show "fst (ipv4_at 7 0x1000 16 t) = Ok a"
    using page_read [of "address_bytes a" 16 t] assms by (intro ipv4_at_bytes) simp_all
qed

lemma broker_valid_quiet:
  "br_answers b = [] \<Longrightarrow> broker_valid n b = (Ok (), b\<lparr>br_calls := br_calls b @ [CheckId (nt_id n)]\<rparr>)"
  by (simp add: broker_valid_def listener_call_def valid_def)

lemma example_broker_new:
  "Broker_new \<lparr>sa_method = Thread\<rparr> example_config (Ok (sock_addr LOCALHOST 5300))
     (Ok [example_file ''/etc/resolv.conf'' resolv_conf 8]) (Ok (sock_addr LOCALHOST 9000))
     \<lparr>tg_mem = page_memory bs, tg_vm = []\<rparr> = Ok (example_broker bs)"
  by (simp add: Broker_new_def Dns_new_def server_for_def is_dns_def virtual_address_def Ingress_new_def
      example_broker_def)

end
