(* ===== verification/Tcp.thy ===== *)
theory Tcp
  imports Broker
begin

text \<open>
  \<open>src/broker/connect.rs\<close> and \<open>src/broker/tcp.rs\<close>: intercepting \<open>connect\<close> on TCP
  sockets. The application's own socket is connected to the loopback listener, a relay task is
  spawned for the other side, and a table keyed by the socket cookie remembers the address the
  application asked for.
\<close>

section \<open>Connecting without blocking the broker\<close>

text \<open>
  What the waiting loop sees, in order: the check interval, the end of the worker with what
  \<open>connect\<close> returned (\<open>None\<close> when the worker panicked). The list ends with the timeout.
\<close>

datatype connect_event = Tick | Finished "unit io_result option"

fun connect_wait :: "notification \<Rightarrow> connect_event list \<Rightarrow> unit handler" where
  "connect_wait n [] = fail (Os ETIMEDOUT)"
| "connect_wait n (Finished (Some r) # es) = ask_kernel r"
| "connect_wait n (Finished None # es) = fail (Custom OtherKind)"
| "connect_wait n (Tick # es) = seq_do (broker_valid n) (\<lambda>_. connect_wait n es)"

definition connect_start :: "int \<Rightarrow> sock_addr_v4 \<Rightarrow> unit handler" where
  "connect_start fd address = update (\<lambda>b. b\<lparr>br_connected := br_connected b @ [(fd, address)]\<rparr>)"

definition connect_run :: "notification \<Rightarrow> int \<Rightarrow> sock_addr_v4 \<Rightarrow> connect_event list \<Rightarrow> unit handler" where
  "connect_run n fd address es =
     seq_do (broker_valid n) (\<lambda>_.
     seq_do (connect_start fd address) (\<lambda>_. connect_wait n es))"

text \<open>
  Dropping a connect that is still pending: the socket is shut down again and again until the
  worker has ended. The argument is what \<open>is_finished\<close> reports.
\<close>

definition PendingConnect_drop :: "bool list \<Rightarrow> nat" where
  "PendingConnect_drop finished = length (takeWhile Not finished)"

section \<open>Intercepted connections\<close>

text \<open>
  What the kernel knows of the socket of the call, and what happens during the call: the source
  port \<open>tcp_bind\<close> reserves, and the events of waiting for \<open>connect\<close>.
\<close>

record tcp_env =
  te_fd :: int
  te_sock :: sock_kernel
  te_info_size :: nat
  te_prepared :: "u16 io_result"
  te_events :: "connect_event list"

abbreviation TCP_CLOSE :: u8 where "TCP_CLOSE \<equiv> 7"

definition remove_peer :: "u64 \<Rightarrow> unit handler" where
  "remove_peer c = update (\<lambda>b. b\<lparr>br_peers := (br_peers b)(c := None)\<rparr>)"

definition insert_peer :: "u64 \<Rightarrow> sock_addr_v4 \<Rightarrow> unit handler" where
  "insert_peer c requested =
     update (\<lambda>b. b\<lparr>br_peers := (br_peers b)(c \<mapsto>
       \<lparr>pr_target = requested, pr_internal = ig_address (br_ingress b), pr_created = br_now b,
        pr_pending = True\<rparr>)\<rparr>)"

definition settle_peer :: "u64 \<Rightarrow> unit handler" where
  "settle_peer c =
     update (\<lambda>b. b\<lparr>br_peers := (case br_peers b c of
         Some p \<Rightarrow> (br_peers b)(c \<mapsto> p\<lparr>pr_pending := False, pr_created := br_now b\<rparr>)
       | None \<Rightarrow> br_peers b)\<rparr>)"

definition try_acquire :: "unit handler" where
  "try_acquire b =
     (if br_permits b = 0 then (Err (Os EAGAIN), b) else (Ok (), b\<lparr>br_permits := br_permits b - 1\<rparr>))"

definition release :: "unit handler" where
  "release = update (\<lambda>b. b\<lparr>br_permits := br_permits b + 1\<rparr>)"

text \<open>Running a part of the handler with the destructors that run when it fails.\<close>

definition or_else :: "'a handler \<Rightarrow> unit handler \<Rightarrow> 'a handler" where
  "or_else m cleanup b =
     (case m b of (Ok a, b') \<Rightarrow> (Ok a, b') | (Err e, b') \<Rightarrow> (Err e, snd (cleanup b')))"

definition on_ingress :: "('a, io_error, tcp ingress) action \<Rightarrow> 'a handler" where
  "on_ingress m b = (let (r, ig) = m (br_ingress b) in (r, b\<lparr>br_ingress := ig\<rparr>))"

definition drop_registration :: "registration \<Rightarrow> unit handler" where
  "drop_registration r = update (\<lambda>b. b\<lparr>br_ingress := Registration_drop r (br_ingress b)\<rparr>)"

definition spawn_relay :: "relay_task \<Rightarrow> unit handler" where
  "spawn_relay task = update (\<lambda>b. b\<lparr>br_relays := br_relays b @ [task]\<rparr>)"

text \<open>
  The part that runs while the peer is in the table but not committed: the registration, the
  connection to the listener, and the spawned relay. \<open>EINPROGRESS\<close> of a nonblocking socket
  counts as success up to the result.
\<close>

definition finish_connect ::
  "registration \<Rightarrow> u64 \<Rightarrow> (proxy_target \<times> proxy_config) option \<Rightarrow> unit io_result \<Rightarrow> reply io_result handler" where
  "finish_connect r c upstream result =
     (if (case result of Err e \<Rightarrow> raw_os_error e \<noteq> Some EINPROGRESS | Ok _ \<Rightarrow> False)
      then seq_do (drop_registration r) (\<lambda>_. seq_do (ask_kernel result) (\<lambda>_. yield (Ok (Value 0))))
      else
        seq_do (settle_peer c) (\<lambda>_.
        seq_do (spawn_relay \<lparr>rt_registration = r, rt_upstream = upstream, rt_permit = True\<rparr>) (\<lambda>_.
        yield (and_then result (\<lambda>_. Ok (Value 0))))))"

definition connect_to_ingress ::
  "notification \<Rightarrow> tcp_env \<Rightarrow> u64 \<Rightarrow> (proxy_target \<times> proxy_config) option \<Rightarrow> reply io_result handler" where
  "connect_to_ingress n env c upstream =
     seq_do (on_ingress (Ingress_register (te_prepared env) (te_fd env))) (\<lambda>r.
     seq_do (look (\<lambda>b. ig_address (br_ingress b))) (\<lambda>internal.
     seq_do (attempt (connect_run n (te_fd env) internal (te_events env))) (\<lambda>result.
     finish_connect r c upstream result)))"

definition intercept ::
  "notification \<Rightarrow> tcp_env \<Rightarrow> u64 \<Rightarrow> sock_addr_v4 \<Rightarrow> (proxy_target \<times> proxy_config) option \<Rightarrow> reply handler" where
  "intercept n env c requested upstream =
     seq_do try_acquire (\<lambda>_.
     seq_do (or_else
       (seq_do (broker_valid n) (\<lambda>_.
        seq_do (insert_peer c requested) (\<lambda>_.
        or_else (connect_to_ingress n env c upstream) (remove_peer c)))) release)
     ask_kernel)"

definition route_tcp :: "regex_api \<Rightarrow> notification \<Rightarrow> tcp_env \<Rightarrow> u64 \<Rightarrow> sock_addr_v4 \<Rightarrow> reply handler" where
  "route_tcp re n env c requested =
     seq_do (remove_peer c) (\<lambda>_.
     seq_do (look (\<lambda>b. if is_dns requested then Ok (Ip (V4 (sa_ip requested)) (sa_port requested))
                       else Dns_target (br_dns b) requested)) (\<lambda>looked.
     seq_do (ask_kernel looked) (\<lambda>proxy_target.
     seq_do (look (\<lambda>b. proxy_for re (br_config b) proxy_target)) (\<lambda>route.
     if \<not> is_dns requested \<and> (case proxy_target of Ip _ _ \<Rightarrow> True | Domain _ _ \<Rightarrow> False) \<and> route = Direct
     then yield Continue
     else intercept n env c requested (if is_dns requested then None else Some (proxy_target, route))))))"

definition connect_again :: "notification \<Rightarrow> tcp_env \<Rightarrow> u64 \<Rightarrow> reply handler" where
  "connect_again n env c =
     seq_do (look (\<lambda>b. br_peers b c)) (\<lambda>found.
       case found of
         Some peer \<Rightarrow> seq_do (connect_run n (te_fd env) (pr_internal peer) (te_events env)) (\<lambda>_. yield (Value 0))
       | None \<Rightarrow> yield Continue)"

definition connect_known :: "regex_api \<Rightarrow> notification \<Rightarrow> tcp_env \<Rightarrow> sock_addr_v4 \<Rightarrow> reply handler" where
  "connect_known re n env requested =
     seq_do (ask_kernel (cookie (te_sock env))) (\<lambda>c.
     seq_do (broker_valid n) (\<lambda>_.
     seq_do (ask_kernel (sockets_state (te_sock env) (te_info_size env))) (\<lambda>tcp_state.
     if tcp_state \<noteq> TCP_CLOSE then connect_again n env c
     else route_tcp re n env c requested)))"

definition connect_tcp :: "regex_api \<Rightarrow> notification \<Rightarrow> tcp_env \<Rightarrow> reply handler" where
  "connect_tcp re n env =
     (let args = sd_args (nt_data n) in
      seq_do (on_memory (family (nt_pid n) (args ! 1) (args ! 2))) (\<lambda>fam.
      if fam = 0 then yield Continue
      else seq_do (on_memory (ipv4_at (nt_pid n) (args ! 1) (args ! 2))) (connect_known re n env)))"

text \<open>\<open>tcp_target\<close> and \<open>tcp_peer\<close>: the address an application sees as its peer.\<close>

definition tcp_target :: "sock_kernel \<Rightarrow> bool \<Rightarrow> sock_addr_v4 option handler" where
  "tcp_target k socket_option =
     seq_do (ask_kernel (cookie k)) (\<lambda>c b.
       case br_peers b c of
         None \<Rightarrow> (Ok None, b)
       | Some peer \<Rightarrow>
           (case peer_address k socket_option of
              Ok actual \<Rightarrow> (Ok (if actual = pr_internal peer then Some (pr_target peer) else None), b)
            | Err e \<Rightarrow> if raw_os_error e = Some ENOTCONN then (Ok None, b) else (Err e, b)))"

definition tcp_peer :: "abi \<Rightarrow> sock_kernel \<Rightarrow> notification \<Rightarrow> reply handler" where
  "tcp_peer A k n =
     seq_do (tcp_target k (sd_nr (nt_data n) = SYS_getsockopt A)) (\<lambda>found.
       case found of
         None \<Rightarrow> yield Continue
       | Some original \<Rightarrow>
           seq_do (broker_valid n) (\<lambda>_.
           seq_do (on_memory (peer_name A n original)) (\<lambda>_. yield (Value 0))))"

context call_frame
begin

lemma keeps_connect_wait: "keeps inv (connect_wait n es)"
proof (induction es)
  case (Cons e es)
  show ?case
  proof (cases e)
    case Tick
    with Cons show ?thesis by (simp add: keeps_seq_do keeps_valid)
  next
    case (Finished r)
    then show ?thesis by (cases r) simp_all
  qed
qed simp

lemma keeps_connect_run: "keeps inv (connect_start fd a) \<Longrightarrow> keeps inv (connect_run n fd a es)"
  unfolding connect_run_def by (intro keeps_seq_do keeps_valid keeps_connect_wait)

end

section \<open>Where the application's socket can be connected to\<close>

definition stays_local :: "sock_addr_v4 \<Rightarrow> (int \<times> sock_addr_v4) list \<Rightarrow> broker \<Rightarrow> bool" where
  "stays_local a0 before b \<longleftrightarrow>
     ig_address (br_ingress b) = a0
     \<and> (\<forall>c p. br_peers b c = Some p \<longrightarrow> pr_internal p = a0)
     \<and> (\<exists>new. br_connected b = before @ new \<and> snd ` set new \<subseteq> {a0})"

lemma keeps_or_else: "keeps I m \<Longrightarrow> keeps I f \<Longrightarrow> keeps I (or_else m f)"
  unfolding keeps_def or_else_def by (force split: prod.splits result.splits)

lemma ingress_address [simp]:
  "ig_address (snd (Ingress_register p fd ig)) = ig_address ig"
  "ig_address (Registration_drop r ig) = ig_address ig"
  by (simp_all add: Ingress_register_def Registration_drop_def Let_def split: result.split option.split)

interpretation local: call_frame "stays_local a0 before" for a0 before
  by unfold_locales (simp_all add: stays_local_def)

lemma local_acquire: "keeps (stays_local a0 before) try_acquire"
  by (simp add: keeps_def stays_local_def try_acquire_def)

lemmas local_calls = local.keeps_calls local_acquire

lemma local_updates:
  "keeps (stays_local a0 before) (remove_peer c)"
  "keeps (stays_local a0 before) (insert_peer c requested)"
  "keeps (stays_local a0 before) (settle_peer c)"
  "keeps (stays_local a0 before) release"
  "keeps (stays_local a0 before) (drop_registration r)"
  "keeps (stays_local a0 before) (spawn_relay task)"
  unfolding remove_peer_def insert_peer_def settle_peer_def release_def drop_registration_def spawn_relay_def
  by (intro keeps_update; auto simp: stays_local_def split: option.split)+

lemma local_register: "keeps (stays_local a0 before) (on_ingress (Ingress_register p fd))"
  by (simp add: keeps_def on_ingress_def stays_local_def split_beta)

lemma local_run: "keeps (stays_local a0 before) (connect_run n fd a0 es)"
  by (intro local.keeps_connect_run) (auto simp: connect_start_def keeps_def update_def stays_local_def)

lemmas keeps_local = keeps_seq_do local_calls local_updates local_register local_run keeps_or_else
  keeps_attempt keeps_simple keeps_ask_kernel

lemma local_finish: "keeps (stays_local a0 before) (finish_connect r c upstream result)"
  unfolding finish_connect_def by (cases result) (auto intro!: keeps_local)

lemma local_connect_to_ingress: "keeps (stays_local a0 before) (connect_to_ingress n env c upstream)"
  unfolding connect_to_ingress_def
proof (rule keeps_seq_do [OF local_register], rule keeps_look)
  fix r b assume "stays_local a0 before b"
  then have "ig_address (br_ingress b) = a0" by (simp add: stays_local_def)
  then show "keeps (stays_local a0 before)
      (seq_do (attempt (connect_run n (te_fd env) (ig_address (br_ingress b)) (te_events env)))
        (finish_connect r c upstream))"
    by (auto intro: keeps_seq_do keeps_attempt local_run local_finish)
qed

lemma local_intercept: "keeps (stays_local a0 before) (intercept n env c requested upstream)"
  unfolding intercept_def by (intro keeps_local local_connect_to_ingress)

lemma local_route: "keeps (stays_local a0 before) (route_tcp re n env c requested)"
  unfolding route_tcp_def
  by (intro keeps_seq_do [OF local_updates(1)] keeps_look keeps_seq_do [OF keeps_ask_kernel])
    (simp add: local_intercept)

lemma local_again: "keeps (stays_local a0 before) (connect_again n env c)"
  unfolding connect_again_def
proof (rule keeps_look)
  fix b assume I: "stays_local a0 before b"
  show "keeps (stays_local a0 before) (case br_peers b c of
       Some peer \<Rightarrow> seq_do (connect_run n (te_fd env) (pr_internal peer) (te_events env)) (\<lambda>_. yield (Value 0))
     | None \<Rightarrow> yield Continue)"
  proof (cases "br_peers b c")
    case (Some p)
    with I have "pr_internal p = a0" by (auto simp: stays_local_def)
    with Some show ?thesis by (auto intro: keeps_seq_do local_run)
  qed simp
qed

lemma local_known: "keeps (stays_local a0 before) (connect_known re n env requested)"
  unfolding connect_known_def
  by (intro keeps_seq_do local_calls keeps_ask_kernel) (simp add: local_again local_route)

lemma local_connect_tcp: "keeps (stays_local a0 before) (connect_tcp re n env)"
  unfolding connect_tcp_def Let_def
  by (intro keeps_seq_do local_calls) (simp add: keeps_seq_do local_calls local_known)

section \<open>When a connection bypasses the broker\<close>

lemma or_else_Ok [simp]: "or_else m f b = (Ok a, b') \<longleftrightarrow> m b = (Ok a, b')"
  by (auto simp: or_else_def split: prod.splits result.splits)

lemma finish_connect_Ok: "finish_connect r c upstream result b = (Ok (Ok x), b') \<Longrightarrow> x = Value 0"
  by (cases result) (auto simp: finish_connect_def seq_do_Ok_iff split: if_splits)

lemma connect_to_ingress_Ok: "connect_to_ingress n env c upstream b = (Ok (Ok x), b') \<Longrightarrow> x = Value 0"
  by (auto simp: connect_to_ingress_def seq_do_Ok_iff dest: finish_connect_Ok)

lemma intercept_Ok: "intercept n env c requested upstream b = (Ok x, b') \<Longrightarrow> x = Value 0"
  by (auto simp: intercept_def seq_do_Ok_iff ask_kernel_def dest: connect_to_ingress_Ok)

lemma broker_valid_Ok:
  "broker_valid n b = (r, b') \<Longrightarrow> br_dns b' = br_dns b \<and> br_config b' = br_config b \<and> br_peers b' = br_peers b"
  using broker_valid_frame [of n b] by auto

lemma route_Continue:
  "route_tcp re n env c requested b = (Ok Continue, b') \<Longrightarrow>
     \<not> is_dns requested \<and> (\<exists>a p. Dns_target (br_dns b) requested = Ok (Ip a p)
       \<and> proxy_for re (br_config b) (Ip a p) = Direct)"
  by (auto simp: route_tcp_def seq_do_Ok_iff remove_peer_def update_def look_def ask_kernel_def
      dest: intercept_Ok split: if_splits proxy_target.splits)

text \<open>The three cases in which a \<open>connect\<close> is left to the kernel.\<close>

definition continue_allowed :: "regex_api \<Rightarrow> notification \<Rightarrow> tcp_env \<Rightarrow> broker \<Rightarrow> bool" where
  "continue_allowed re n env b \<longleftrightarrow>
     (let args = sd_args (nt_data n)
      in fst (family (nt_pid n) (args ! 1) (args ! 2) (br_target b)) = Ok 0
         \<or> (\<exists>s c. sockets_state (te_sock env) (te_info_size env) = Ok s \<and> s \<noteq> TCP_CLOSE
              \<and> cookie (te_sock env) = Ok c \<and> br_peers b c = None)
         \<or> (\<exists>requested a p. fst (ipv4_at (nt_pid n) (args ! 1) (args ! 2) (br_target b)) = Ok requested
              \<and> \<not> is_dns requested \<and> Dns_target (br_dns b) requested = Ok (Ip a p)
              \<and> proxy_for re (br_config b) (Ip a p) = Direct))"

lemma known_Continue:
  assumes "connect_known re n env requested b = (Ok Continue, b')"
  shows "(\<exists>s c. sockets_state (te_sock env) (te_info_size env) = Ok s \<and> s \<noteq> TCP_CLOSE
            \<and> cookie (te_sock env) = Ok c \<and> br_peers b c = None)
    \<or> \<not> is_dns requested \<and> (\<exists>a p. Dns_target (br_dns b) requested = Ok (Ip a p)
            \<and> proxy_for re (br_config b) (Ip a p) = Direct)"
proof -
  from assms obtain c s b2 where c: "cookie (te_sock env) = Ok c"
    and s: "sockets_state (te_sock env) (te_info_size env) = Ok s"
    and v: "broker_valid n b = (Ok (), b2)"
    and rest: "(if s \<noteq> TCP_CLOSE then connect_again n env c else route_tcp re n env c requested) b2 = (Ok Continue, b')"
    by (auto simp: connect_known_def ask_kernel_def seq_do_Ok_iff)
  note b2 = broker_valid_Ok [OF v]
  show ?thesis
  proof (cases "s = TCP_CLOSE")
    case True
    with rest have "route_tcp re n env c requested b2 = (Ok Continue, b')" by simp
    from route_Continue [OF this] b2 show ?thesis by auto
  next
    case False
    with rest have "br_peers b2 c = None"
      by (auto simp: connect_again_def seq_do_Ok_iff look_def split: option.splits)
    with False s c b2 show ?thesis by auto
  qed
qed

lemma connect_Continue:
  assumes "connect_tcp re n env b = (Ok Continue, b')"
  shows "continue_allowed re n env b"
proof -
  let ?a1 = "sd_args (nt_data n) ! 1" and ?a2 = "sd_args (nt_data n) ! 2"
  let ?t = "snd (family (nt_pid n) ?a1 ?a2 (br_target b))"
  from assms have "fst (family (nt_pid n) ?a1 ?a2 (br_target b)) = Ok 0
    \<or> (\<exists>requested. fst (ipv4_at (nt_pid n) ?a1 ?a2 ?t) = Ok requested
        \<and> connect_known re n env requested (b\<lparr>br_target := snd (ipv4_at (nt_pid n) ?a1 ?a2 ?t)\<rparr>) = (Ok Continue, b'))"
    by (auto simp: connect_tcp_def Let_def seq_do_Ok_iff split: if_splits)
  then show ?thesis
  proof (elim disjE exE conjE)
    fix requested
    assume ip: "fst (ipv4_at (nt_pid n) ?a1 ?a2 ?t) = Ok requested"
      and k: "connect_known re n env requested (b\<lparr>br_target := snd (ipv4_at (nt_pid n) ?a1 ?a2 ?t)\<rparr>) = (Ok Continue, b')"
    have "fst (ipv4_at (nt_pid n) ?a1 ?a2 (br_target b)) = Ok requested"
      using ip ipv4_at_mem [of ?t "br_target b"] by simp
    with known_Continue [OF k] show ?thesis by (auto simp: continue_allowed_def Let_def)
  qed (simp add: continue_allowed_def Let_def)
qed

section \<open>What an intercepted connection leaves behind\<close>

definition books :: "(u64 \<rightharpoonup> peer) \<Rightarrow> relay_task list \<Rightarrow> sock_addr_v4 \<Rightarrow> broker \<Rightarrow> bool" where
  "books peers relays a b \<longleftrightarrow> br_peers b = peers \<and> br_relays b = relays \<and> ig_address (br_ingress b) = a"

interpretation books: call_frame "books peers relays a" for peers relays a
  by unfold_locales (simp_all add: books_def)

lemma books_register: "keeps (books peers relays a) (on_ingress (Ingress_register p fd))"
  by (simp add: keeps_def books_def on_ingress_def split_beta)

lemma books_run: "keeps (books peers relays a) (connect_run n fd address es)"
  by (intro books.keeps_connect_run) (simp add: connect_start_def keeps_def update_def books_def)

lemma finish_connect_books:
  assumes "finish_connect r c upstream result b = (Ok (Ok x), b')" and "br_peers b c = Some p"
  shows "br_peers b' c = Some (p\<lparr>pr_pending := False, pr_created := br_now b\<rparr>)
    \<and> br_relays b' = br_relays b @ [\<lparr>rt_registration = r, rt_upstream = upstream, rt_permit = True\<rparr>]"
  using assms
  by (cases result)
    (auto simp: finish_connect_def seq_do_Ok_iff ask_kernel_def settle_peer_def spawn_relay_def update_def split: if_splits)

lemma to_ingress_books:
  assumes "connect_to_ingress n env c upstream b = (Ok (Ok x), b')" and "br_peers b c = Some p"
  shows "\<exists>p'. br_peers b' c = Some p' \<and> \<not> pr_pending p' \<and> pr_target p' = pr_target p \<and> pr_internal p' = pr_internal p
    \<and> (\<exists>task. br_relays b' = br_relays b @ [task] \<and> rt_permit task \<and> rt_upstream task = upstream)"
proof -
  from assms(1) obtain r b1 result b2
    where r: "on_ingress (Ingress_register (te_prepared env) (te_fd env)) b = (Ok r, b1)"
      and run: "connect_run n (te_fd env) (ig_address (br_ingress b1)) (te_events env) b1 = (result, b2)"
      and fin: "finish_connect r c upstream result b2 = (Ok (Ok x), b')"
    by (auto simp: connect_to_ingress_def seq_do_Ok_iff look_def)
  have "books (br_peers b) (br_relays b) (ig_address (br_ingress b)) b" by (simp add: books_def)
  from keepsD [OF books_register this r] have "books (br_peers b) (br_relays b) (ig_address (br_ingress b)) b1" .
  from keepsD [OF books_run this run] have b2: "br_peers b2 = br_peers b" "br_relays b2 = br_relays b"
    by (simp_all add: books_def)
  from finish_connect_books [OF fin] assms(2) b2 show ?thesis by auto
qed

lemma intercept_books:
  assumes "intercept n env c requested upstream b = (Ok x, b')"
  shows "\<exists>p'. br_peers b' c = Some p' \<and> \<not> pr_pending p' \<and> pr_target p' = requested
    \<and> pr_internal p' = ig_address (br_ingress b)
    \<and> (\<exists>task. br_relays b' = br_relays b @ [task] \<and> rt_permit task \<and> rt_upstream task = upstream)"
proof -
  from assms obtain b1 b2 b3 where q: "try_acquire b = (Ok (), b1)"
    and v: "broker_valid n b1 = (Ok (), b2)" and i: "insert_peer c requested b2 = (Ok (), b3)"
    and t: "connect_to_ingress n env c upstream b3 = (Ok (Ok x), b')"
    by (auto simp: intercept_def seq_do_Ok_iff ask_kernel_def)
  have b2: "br_relays b2 = br_relays b" "br_ingress b2 = br_ingress b"
    using q v broker_valid_frame [of n b1] by (auto simp: try_acquire_def split: if_splits)
  have b3: "br_relays b3 = br_relays b" "br_peers b3 c = Some \<lparr>pr_target = requested,
      pr_internal = ig_address (br_ingress b), pr_created = br_now b2, pr_pending = True\<rparr>"
    using i b2 by (auto simp: insert_peer_def update_def)
  from to_ingress_books [OF t b3(2)] b3(1) show ?thesis by simp
qed

lemma route_books:
  assumes "route_tcp re n env c requested b = (Ok (Value v), b')"
  shows "\<exists>t p' task. (is_dns requested \<or> Dns_target (br_dns b) requested = Ok t)
    \<and> br_peers b' c = Some p' \<and> \<not> pr_pending p' \<and> pr_target p' = requested
    \<and> pr_internal p' = ig_address (br_ingress b)
    \<and> br_relays b' = br_relays b @ [task] \<and> rt_permit task
    \<and> rt_upstream task = (if is_dns requested then None else Some (t, proxy_for re (br_config b) t))"
proof -
  let ?b = "b\<lparr>br_peers := (br_peers b)(c := None)\<rparr>"
  from assms obtain t where
    t: "(if is_dns requested then Ok (Ip (V4 (sa_ip requested)) (sa_port requested)) else Dns_target (br_dns b) requested) = Ok t"
    and i: "intercept n env c requested (if is_dns requested then None else Some (t, proxy_for re (br_config b) t)) ?b
      = (Ok (Value v), b')"
    by (auto simp: route_tcp_def seq_do_Ok_iff remove_peer_def update_def look_def ask_kernel_def split: if_splits)
  from t have "is_dns requested \<or> Dns_target (br_dns b) requested = Ok t" by (auto split: if_splits)
  with intercept_books [OF i] show ?thesis by auto
qed

lemma connect_books:
  assumes "connect_tcp re n env b = (Ok (Value v), b')"
    and "sockets_state (te_sock env) (te_info_size env) = Ok TCP_CLOSE"
    and "fst (ipv4_at (nt_pid n) (sd_args (nt_data n) ! 1) (sd_args (nt_data n) ! 2) (br_target b)) = Ok requested"
  shows "\<exists>c t p' task. cookie (te_sock env) = Ok c
    \<and> (is_dns requested \<or> Dns_target (br_dns b) requested = Ok t)
    \<and> br_peers b' c = Some p' \<and> pr_target p' = requested \<and> pr_internal p' = ig_address (br_ingress b)
    \<and> br_relays b' = br_relays b @ [task]
    \<and> rt_upstream task = (if is_dns requested then None else Some (t, proxy_for re (br_config b) t))"
proof -
  let ?a1 = "sd_args (nt_data n) ! 1" and ?a2 = "sd_args (nt_data n) ! 2"
  let ?t1 = "snd (family (nt_pid n) ?a1 ?a2 (br_target b))"
  let ?t2 = "snd (ipv4_at (nt_pid n) ?a1 ?a2 ?t1)"
  have same: "fst (ipv4_at (nt_pid n) ?a1 ?a2 ?t1) = Ok requested"
    using assms(3) ipv4_at_mem [of ?t1 "br_target b"] by simp
  from assms(1) same have "connect_known re n env requested (b\<lparr>br_target := ?t2\<rparr>) = (Ok (Value v), b')"
    by (auto simp: connect_tcp_def Let_def seq_do_Ok_iff split: if_splits)
  with assms(2) obtain c b2 where c: "cookie (te_sock env) = Ok c"
    and v: "broker_valid n (b\<lparr>br_target := ?t2\<rparr>) = (Ok (), b2)"
    and route: "route_tcp re n env c requested b2 = (Ok (Value v), b')"
    by (auto simp: connect_known_def seq_do_Ok_iff ask_kernel_def)
  have b2: "br_dns b2 = br_dns b" "br_config b2 = br_config b" "br_relays b2 = br_relays b" "br_ingress b2 = br_ingress b"
    using v broker_valid_frame [of n "b\<lparr>br_target := ?t2\<rparr>"] by auto
  from c route_books [OF route, unfolded b2] show ?thesis by blast
qed


section \<open>Permits and unfinished connections\<close>

definition holding :: "broker \<Rightarrow> nat" where
  "holding b = length (filter rt_permit (br_relays b))"

text \<open>
  \<open>accounts k X b\<close>: \<open>k\<close> permits are either free or held by a relay task, and no peer outside
  \<open>X\<close> is pending.
\<close>

definition accounts :: "nat \<Rightarrow> u64 set \<Rightarrow> broker \<Rightarrow> bool" where
  "accounts k X b \<longleftrightarrow>
     br_permits b + holding b = k \<and> (\<forall>c p. br_peers b c = Some p \<longrightarrow> pr_pending p \<longrightarrow> c \<in> X)"

interpretation accounts: call_frame "accounts k X" for k X
  by unfold_locales (simp_all add: accounts_def holding_def)

lemma accounts_steps:
  "keeps (accounts k X) (on_ingress f)"
  "keeps (accounts k X) (connect_start fd a)"
  "keeps (accounts k X) (drop_registration r)"
  "keeps (accounts k X) (remove_peer c)"
  by (auto simp: keeps_def accounts_def holding_def on_ingress_def connect_start_def
      drop_registration_def remove_peer_def update_def split_beta)

lemmas accounts_run = accounts.keeps_connect_run [OF accounts_steps(2)]

lemma triple_update: "(\<And>b. P b \<Longrightarrow> Q () (f b)) \<Longrightarrow> triple P (update f) Q E"
  by (simp add: triple_def update_def)

lemma accounts_settle:
  "triple (accounts k {c}) (settle_peer c) (\<lambda>_. accounts k {}) E"
  unfolding settle_peer_def
  by (rule triple_update) (auto simp: accounts_def holding_def split: option.splits if_splits)

lemma accounts_spawn:
  "rt_permit task \<Longrightarrow> triple (accounts k X) (spawn_relay task) (\<lambda>_. accounts (k + 1) X) E"
  unfolding spawn_relay_def by (rule triple_update) (simp add: accounts_def holding_def)

lemma accounts_finish:
  "triple (accounts k {c}) (finish_connect r c upstream result) (\<lambda>_. accounts (k + 1) {}) (\<lambda>_. accounts k {c})"
proof (cases "case result of Err e \<Rightarrow> raw_os_error e \<noteq> Some EINPROGRESS | Ok _ \<Rightarrow> False")
  case True
  then obtain e where "result = Err e" by (cases result) auto
  moreover have "triple (accounts k {c}) (seq_do (drop_registration r) (\<lambda>_. fail e))
      (\<lambda>_. accounts (k + 1) {}) (\<lambda>_. accounts k {c})" for e
    by (rule triple_seq [OF triple_keeps [OF accounts_steps(3)]]) (rule triple_fail)
  moreover have "seq_do (ask_kernel (Err e)) f = fail e" for e :: io_error and f :: "unit \<Rightarrow> reply io_result handler"
    by (rule ext) (simp add: seq_do_def ask_kernel_def fail_def)
  ultimately show ?thesis using True by (simp add: finish_connect_def)
next
  case False
  then show ?thesis
    unfolding finish_connect_def if_not_P [OF False]
    by (intro triple_seq [OF accounts_settle] triple_seq [OF accounts_spawn] triple_yield) simp_all
qed

lemma triple_attempt: "keeps I m \<Longrightarrow> triple I (attempt m) (\<lambda>_. I) E"
  by (auto simp: triple_def attempt_def dest: keepsD split: prod.split)

lemma accounts_to_ingress:
  "triple (accounts k {c}) (connect_to_ingress n env c upstream) (\<lambda>_. accounts (k + 1) {}) (\<lambda>_. accounts k {c})"
  unfolding connect_to_ingress_def
proof (rule triple_seq [where Q = "\<lambda>_. accounts k {c}"])
  fix r
  have run: "triple (accounts k {c}) (seq_do (attempt (connect_run n (te_fd env) internal (te_events env)))
      (finish_connect r c upstream)) (\<lambda>_. accounts (k + 1) {}) (\<lambda>_. accounts k {c})" for internal
    by (rule triple_seq [where Q = "\<lambda>_. accounts k {c}"]) (rule triple_attempt [OF accounts_run], rule accounts_finish)
  show "triple (accounts k {c}) (seq_do (look (\<lambda>b. ig_address (br_ingress b))) (\<lambda>internal.
      seq_do (attempt (connect_run n (te_fd env) internal (te_events env))) (finish_connect r c upstream)))
      (\<lambda>_. accounts (k + 1) {}) (\<lambda>_. accounts k {c})"
    by (rule triple_seq [where Q = "\<lambda>_. accounts k {c}"]) (simp add: triple_def look_def, rule run)
qed (rule triple_keeps [OF accounts_steps(1)])

lemma triple_or_else:
  assumes m: "triple P m Q E" and f: "\<And>e. triple (E e) f (\<lambda>_. E') (\<lambda>_. E')"
  shows "triple P (or_else m f) Q (\<lambda>_. E')"
  unfolding triple_def
proof (intro allI impI)
  fix b assume b: "P b"
  obtain r b1 where r: "m b = (r, b1)" by force
  show "case or_else m f b of (Ok a, b') \<Rightarrow> Q a b' | (Err e, b') \<Rightarrow> E' b'"
  proof (cases r)
    case (Ok a)
    with triple_Ok [OF m b] r show ?thesis by (simp add: or_else_def)
  next
    case (Err e)
    with triple_Err [OF m b] r have e: "E e b1" by simp
    obtain q b2 where q: "f b1 = (q, b2)" by force
    have "E' b2" using triple_Ok [OF f e] triple_Err [OF f e] q by (cases q) simp_all
    with r Err q show ?thesis by (simp add: or_else_def)
  qed
qed

lemma accounts_remove: "triple (accounts k {c}) (remove_peer c) (\<lambda>_. accounts k {}) E"
  unfolding remove_peer_def by (rule triple_update) (auto simp: accounts_def holding_def split: if_splits)

lemma accounts_insert: "triple (accounts k {}) (insert_peer c requested) (\<lambda>_. accounts k {c}) E"
  unfolding insert_peer_def by (rule triple_update) (auto simp: accounts_def holding_def split: if_splits)

lemma accounts_release: "triple (accounts k X) release (\<lambda>_. accounts (k + 1) X) E"
  unfolding release_def by (rule triple_update) (simp add: accounts_def holding_def)

lemma accounts_acquire:
  "triple (accounts (k + 1) X) try_acquire (\<lambda>_. accounts k X) (\<lambda>_. accounts (k + 1) X)"
  by (auto simp: triple_def try_acquire_def accounts_def holding_def)

lemma accounts_intercept: "keeps (accounts (k + 1) {}) (intercept n env c requested upstream)"
proof -
  have "triple (accounts (k + 1) {}) (intercept n env c requested upstream)
      (\<lambda>_. accounts (k + 1) {}) (\<lambda>_. accounts (k + 1) {})"
    unfolding intercept_def
    by (rule triple_seq [OF accounts_acquire], rule triple_seq, rule triple_or_else,
        rule triple_seq [OF triple_keeps [OF accounts.keeps_valid]], rule triple_seq [OF accounts_insert],
        rule triple_or_else [OF accounts_to_ingress], rule accounts_remove, rule accounts_release,
        rule triple_keeps [OF keeps_ask_kernel])
  then show ?thesis by (rule keeps_triple)
qed

lemma accounts_known: "keeps (accounts (k + 1) {}) (connect_known re n env requested)"
proof -
  have "keeps (accounts (k + 1) {}) (connect_again n env c)" for c
    unfolding connect_again_def
    by (rule keeps_look) (auto intro!: keeps_seq_do accounts_run split: option.split)
  moreover have "keeps (accounts (k + 1) {}) (route_tcp re n env c requested)" for c
    unfolding route_tcp_def
    by (intro keeps_seq_do [OF accounts_steps(4)] keeps_look keeps_seq_do [OF keeps_ask_kernel])
      (simp add: accounts_intercept [simplified])
  ultimately show ?thesis
    unfolding connect_known_def
    by (intro keeps_seq_do accounts.keeps_calls keeps_ask_kernel) simp
qed

lemma accounts_connect_tcp: "keeps (accounts (k + 1) {}) (connect_tcp re n env)"
  unfolding connect_tcp_def Let_def
  by (intro keeps_seq_do accounts.keeps_calls) (simp add: keeps_seq_do accounts.keeps_calls accounts_known [simplified])

section \<open>Invariants of other components\<close>

text \<open>An invariant that does not look at what these handlers change is kept by them.\<close>

locale tcp_frame = call_frame +
  assumes inv_peers: "inv (b\<lparr>br_peers := peers\<rparr>) = inv b"
    and inv_permits: "inv (b\<lparr>br_permits := k\<rparr>) = inv b"
    and inv_relays: "inv (b\<lparr>br_relays := ts\<rparr>) = inv b"
    and inv_ingress: "inv (b\<lparr>br_ingress := ig\<rparr>) = inv b"
    and inv_connected: "inv (b\<lparr>br_connected := cs\<rparr>) = inv b"
begin

lemma keeps_tcp_updates:
  "keeps inv (remove_peer c)" "keeps inv (insert_peer c requested)" "keeps inv (settle_peer c)"
  "keeps inv release" "keeps inv (drop_registration r)" "keeps inv (spawn_relay task)"
  "keeps inv (connect_start fd a)" "keeps inv try_acquire" "keeps inv (on_ingress f)"
  by (simp_all add: keeps_def remove_peer_def insert_peer_def settle_peer_def release_def drop_registration_def
      spawn_relay_def connect_start_def try_acquire_def on_ingress_def update_def split_beta
      inv_peers inv_permits inv_relays inv_ingress inv_connected)

lemmas keeps_tcp = keeps_calls keeps_tcp_updates keeps_connect_run [OF keeps_tcp_updates(7)]

lemma keeps_intercept: "keeps inv (intercept n env c requested upstream)"
proof -
  have "keeps inv (finish_connect r c upstream result)" for r result
    unfolding finish_connect_def by (cases result) (auto intro!: keeps_seq_do keeps_tcp)
  then have "keeps inv (connect_to_ingress n env c upstream)"
    unfolding connect_to_ingress_def
    by (intro keeps_seq_do keeps_tcp keeps_attempt keeps_look_only)
  then show ?thesis
    unfolding intercept_def by (intro keeps_seq_do keeps_tcp keeps_or_else keeps_ask_kernel)
qed

lemma keeps_connect_tcp: "keeps inv (connect_tcp re n env)"
  unfolding connect_tcp_def connect_known_def connect_again_def route_tcp_def Let_def
  by (auto intro!: keeps_seq_do keeps_tcp keeps_intercept split: option.split)

end

context call_frame
begin

lemma keeps_tcp_target: "keeps inv (tcp_target k so)"
  unfolding tcp_target_def
  by (intro keeps_seq_do keeps_ask_kernel) (simp add: keeps_def split: option.split result.split)

lemma keeps_tcp_peer: "keeps inv (tcp_peer A k n)"
  unfolding tcp_peer_def
  by (auto intro!: keeps_seq_do keeps_tcp_target keeps_calls split: option.split)

end

section \<open>An example\<close>

text \<open>A connection of a fresh socket that succeeds.\<close>

definition example_env :: tcp_env where
  "example_env = \<lparr>te_fd = 13, te_sock = example_socket IPPROTO_TCP, te_info_size = 232, te_prepared = Ok 4000,
     te_events = [Tick, Finished (Some (Ok ()))]\<rparr>"

abbreviation example_connect :: notification where
  "example_connect \<equiv> example_call 42 [3, 0x1000, 16, 0, 0, 0]"

lemma example_answers:
  "cookie (example_socket p) = Ok 42" "sockets_state (example_socket p) 232 = Ok 7"
  "te_fd example_env = 13" "te_sock example_env = example_socket IPPROTO_TCP" "te_info_size example_env = 232"
  "te_prepared example_env = Ok 4000" "te_events example_env = [Tick, Finished (Some (Ok ()))]"
  by (simp_all add: cookie_def sockets_state_def sockets_option_def example_env_def example_socket_def)

lemma example_route:
  assumes "\<not> is_fake_ip a" "\<not> is_loopback a" "\<not> is_unspecified a"
  shows "Dns_target (br_dns (example_broker bs)) (sock_addr a 80) = Ok (Ip (V4 a) 80)"
    and "proxy_for literal_re (br_config (example_broker bs)) (Ip (V4 a) 80) = Socks5 ''p:1'' None"
  using assms ip_rules.get_build [of "[] :: (ipv4 \<times> nat \<times> match_action) list" a]
  by (simp_all add: Dns_target_def Resolver_target_def example_broker_def example_config_def
      RuleMatcher_default_def match_ip_def lpm_def lpm_rule_def)

lemma example_connect_to:
  assumes "Dns_target d (sock_addr a 80) = Ok t" and "proxy_for literal_re example_config t = Socks5 ''p:1'' None"
  shows "fst (connect_tcp literal_re example_connect example_env
    ((example_broker (address_bytes (sock_addr a 80)))\<lparr>br_calls := cs, br_dns := d\<rparr>)) = Ok (Value 0)"
proof -
  let ?a = "sock_addr a 80" and ?n = example_connect
  let ?b = "(example_broker (address_bytes ?a))\<lparr>br_calls := cs, br_dns := d\<rparr>"
  let ?t1 = "snd (family 7 0x1000 16 (br_target ?b))"
  let ?t2 = "snd (ipv4_at 7 0x1000 16 ?t1)"
  let ?b2 = "?b\<lparr>br_target := ?t2\<rparr>"
  have n: "nt_pid ?n = 7" "sd_args (nt_data ?n) ! 1 = 0x1000" "sd_args (nt_data ?n) ! 2 = 16"
    by (simp_all add: example_call_def)
  have m: "tg_mem (br_target ?b) = page_memory (address_bytes ?a)" by (simp add: example_broker_def)
  have "on_memory (family 7 0x1000 16) ?b = (Ok 2, ?b\<lparr>br_target := ?t1\<rparr>)"
    using example_reads(1) [OF m] by simp
  moreover have "on_memory (ipv4_at 7 0x1000 16) (?b\<lparr>br_target := ?t1\<rparr>) = (Ok ?a, ?b2)"
    using example_reads(2) [of ?t1 ?a] m by simp
  ultimately have known: "connect_tcp literal_re ?n example_env ?b = connect_known literal_re ?n example_env ?a ?b2"
    unfolding connect_tcp_def Let_def n by simp
  have b2: "br_answers ?b2 = []" "br_permits ?b2 = 128" by (simp_all add: example_broker_def)
  have route: "proxy_for literal_re (br_config (example_broker (address_bytes ?a))) t = Socks5 ''p:1'' None"
    using assms(2) by (simp add: example_broker_def del: proxy_for.simps)
  have "\<not> is_dns ?a" by (simp add: is_dns_def DNS_PORT_def)
  with assms(1) route b2 show ?thesis
    by (simp add: known connect_known_def seq_do_def ask_kernel_def example_answers broker_valid_quiet route_tcp_def
      remove_peer_def update_def look_def intercept_def try_acquire_def or_else_def insert_peer_def
      connect_to_ingress_def on_ingress_def Ingress_register_def connect_run_def connect_start_def attempt_def
      finish_connect_def settle_peer_def spawn_relay_def Let_def yield_def del: proxy_for.simps)
qed

lemma example_connect_runs:
  assumes "\<not> is_fake_ip a" "\<not> is_loopback a" "\<not> is_unspecified a"
  shows "fst (connect_tcp literal_re example_connect example_env
    ((example_broker (address_bytes (sock_addr a 80)))\<lparr>br_calls := cs\<rparr>)) = Ok (Value 0)"
proof -
  let ?bs = "address_bytes (sock_addr a 80)"
  have "br_config (example_broker ?bs) = example_config"
    "(example_broker ?bs)\<lparr>br_calls := cs, br_dns := br_dns (example_broker ?bs)\<rparr> = (example_broker ?bs)\<lparr>br_calls := cs\<rparr>"
    by (simp_all add: example_broker_def)
  with example_route [OF assms, of ?bs] example_connect_to [of "br_dns (example_broker ?bs)" a "Ip (V4 a) 80" cs]
  show ?thesis by (simp del: proxy_for.simps)
qed

lemma example_address:
  "\<not> is_fake_ip 0xcb007101" "\<not> is_loopback 0xcb007101" "\<not> is_unspecified 0xcb007101"
  by code_simp+


end
