(* ===== verification/Files.thy ===== *)
theory Files
  imports Broker
begin

text \<open>
  The handlers of \<open>src/broker/files.rs\<close>: an \<open>open\<close> of the resolver configuration gets a sealed
  file injected, and a \<open>connect\<close> to the socket of a caching resolver is refused.
\<close>

section \<open>Handlers\<close>

definition as_i32 :: "u64 \<Rightarrow> int" where
  "as_i32 x = sint (ucast x :: u32)"

abbreviation AT_FDCWD :: int where "AT_FDCWD \<equiv> - 100"

definition absolute_path ::
  "('p, int) proc_kernel \<Rightarrow> filesystem \<Rightarrow> socket_access \<Rightarrow> u32 \<Rightarrow> int \<Rightarrow> bytes \<Rightarrow> bytes io_result" where
  "absolute_path k fs access tid dirfd p =
     (if is_absolute p then Ok p
      else and_then
        (if dirfd = AT_FDCWD then fs_read_link fs (''/proc/'' @ show_nat (unat tid) @ ''/cwd'')
         else and_then (SocketAccess_get k access tid dirfd) (\<lambda>directory.
           fs_read_link fs (''/proc/self/fd/'' @ show_nat (nat directory))))
        (\<lambda>base. Ok (path_join base p)))"

definition open_arguments :: "abi \<Rightarrow> notification \<Rightarrow> int \<times> u64 \<times> u64" where
  "open_arguments A n =
     (let args = sd_args (nt_data n); call = sd_nr (nt_data n)
      in if call = SYS_openat A \<or> call = SYS_openat2 A then (as_i32 (args ! 0), args ! 1, args ! 2)
         else (AT_FDCWD, args ! 0, args ! 1))"

definition may_be_resolver :: "resolver_files \<Rightarrow> bytes \<Rightarrow> bool" where
  "may_be_resolver files p \<longleftrightarrow>
     list_ex (\<lambda>f. file_name p = file_name (cf_path f)
       \<or> (case cf_canonical f of Some alias \<Rightarrow> file_name p = file_name alias | None \<Rightarrow> False)) files"

definition find_file :: "resolver_files \<Rightarrow> bytes \<Rightarrow> bytes option \<Rightarrow> config_file option" where
  "find_file files p canonical =
     List.find (\<lambda>f. path_eq (cf_path f) p
       \<or> (case cf_canonical f of
            Some alias \<Rightarrow> path_eq alias p \<or> (case canonical of Some c \<Rightarrow> path_eq alias c | None \<Rightarrow> False)
          | None \<Rightarrow> False)) files"

definition open_flags :: "abi \<Rightarrow> notification \<Rightarrow> u64 \<Rightarrow> u32 handler" where
  "open_flags A n flags_arg =
     (if sd_nr (nt_data n) = SYS_openat2 A
      then on_memory (open_how (nt_pid n) flags_arg (sd_args (nt_data n) ! 3))
      else yield (ucast flags_arg))"

text \<open>The errors of an \<open>open\<close> of a file that is not a directory and may not be written.\<close>

definition open_refused :: "target_arch \<Rightarrow> bytes \<Rightarrow> u32 \<Rightarrow> int option" where
  "open_refused t p flags =
     (if ends_with p [SLASH] \<or> ends_with p [SLASH, DOT] then Some ENOTDIR
      else if flags AND O_DIRECTORY t \<noteq> 0 then Some ENOTDIR
      else if flags AND O_PATH = 0 \<and> flags AND (O_CREAT OR O_EXCL) = O_CREAT OR O_EXCL then Some EEXIST
      else if flags AND O_PATH = 0 \<and> (flags AND O_ACCMODE \<noteq> O_RDONLY \<or> flags AND O_TRUNC \<noteq> 0)
      then Some EACCES
      else None)"

definition broker_addfd :: "notification \<Rightarrow> int \<Rightarrow> bool \<Rightarrow> unit handler" where
  "broker_addfd n source cloexec b =
     listener_call (hd (snd (addfd_send (\<lambda>_. Ok ()) (nt_id n) (of_int source) cloexec))) b"

definition open_file :: "target_arch \<Rightarrow> filesystem \<Rightarrow> notification \<Rightarrow> config_file \<Rightarrow> bytes \<Rightarrow> u32 \<Rightarrow> reply handler" where
  "open_file t fs n f p flags =
     (case open_refused t p flags of
        Some errno \<Rightarrow> fail (Os errno)
      | None \<Rightarrow>
          if flags AND O_NOFOLLOW t \<noteq> 0 \<and> fs_is_symlink fs p = Ok True
          then if flags AND O_PATH \<noteq> 0 then yield Continue else fail (Os ELOOP)
          else
            seq_do (ask_kernel (reopen t fs f flags)) (\<lambda>descriptor.
            seq_do (broker_valid n) (\<lambda>_.
            seq_do (broker_addfd n descriptor (flags AND O_CLOEXEC \<noteq> 0)) (\<lambda>_. yield Sent))))"

definition open_path ::
  "abi \<Rightarrow> ('p, int) proc_kernel \<Rightarrow> filesystem \<Rightarrow> notification \<Rightarrow> int \<Rightarrow> u64 \<Rightarrow> bytes \<Rightarrow> reply handler" where
  "open_path A k fs n dirfd flags_arg given =
     seq_do (look br_files) (\<lambda>files.
     if \<not> may_be_resolver files given then yield Continue
     else
       seq_do (look br_access) (\<lambda>access.
       seq_do (ask_kernel (absolute_path k fs access (nt_pid n) dirfd given)) (\<lambda>p.
       case find_file files p (ok (fs_canonicalize fs p)) of
         None \<Rightarrow> yield Continue
       | Some f \<Rightarrow> seq_do (open_flags A n flags_arg) (open_file (abi_target A) fs n f p))))"

definition files_open :: "abi \<Rightarrow> ('p, int) proc_kernel \<Rightarrow> filesystem \<Rightarrow> notification \<Rightarrow> reply handler" where
  "files_open A k fs n =
     (let (dirfd, path_arg, flags_arg) = open_arguments A n
      in seq_do (on_memory (path (nt_pid n) path_arg)) (open_path A k fs n dirfd flags_arg))"

definition check_unix_path :: "bytes \<Rightarrow> unit handler" where
  "check_unix_path bs =
     (case bs of
        [] \<Rightarrow> yield ()
      | b # _ \<Rightarrow>
          if b = 0 then yield ()
          else if resolver_socket (takeWhile (\<lambda>b. b \<noteq> 0) bs) then fail (Os ECONNREFUSED)
          else yield ())"

definition check_unix_connect :: "notification \<Rightarrow> unit handler" where
  "check_unix_connect n =
     (let args = sd_args (nt_data n)
      in seq_do (on_memory (family (nt_pid n) (args ! 1) (args ! 2))) (\<lambda>fam.
         if fam \<noteq> 1 then yield ()
         else if args ! 2 > 110 then fail (Os EINVAL)
         else seq_do (on_memory (memory_read (nt_pid n) (args ! 1 + 2) (unat (args ! 2) - 2))) check_unix_path))"

section \<open>What the handlers leave alone\<close>

lemma keeps_path: "keeps (\<lambda>t. tg_mem t = m) (path tid a)"
proof -
  have "tg_mem (snd (path_loop tid a bs t)) = tg_mem t" for bs t
  proof (induction "4096 - length bs" arbitrary: bs t rule: less_induct)
    case less
    let ?p = "a + of_nat (length bs)"
    let ?k = "chunk_size ?p (length bs)"
    obtain r t' where r: "memory_read tid ?p ?k t = (r, t')" by force
    then have t': "tg_mem t' = tg_mem t"
      using remote.rd_view [of tid ?p ?k t] by (simp add: memory_read_def)
    show ?case
    proof (cases r)
      case (Ok c)
      with r have "length c = ?k" by (simp add: memory_read_length)
      then have "length bs < 4096 \<Longrightarrow> tg_mem (snd (path_loop tid a (bs @ c) t')) = tg_mem t'"
        using chunk_size_bounds(1) [of "length bs" ?p] by (intro less) simp
      with Ok r t' show ?thesis by (subst path_loop.simps) (auto simp: Let_def fail_def yield_def)
    next
      case (Err e)
      with r t' show ?thesis by (subst path_loop.simps) (simp add: Let_def fail_def)
    qed
  qed
  then show ?thesis by (simp add: keeps_def path_def)
qed

lemma open_how_mem:
  "tg_mem t = tg_mem t' \<Longrightarrow> fst (open_how tid a len t) = fst (open_how tid a len t')"
  using rd_same [of t t' tid a "unat len"]
  by (simp add: open_how_def memory_read_def fst_seq_do split: result.split)

context call_frame
begin

lemma keeps_files_open: "keeps inv (files_open A k fs n)"
proof -
  have "keeps inv (broker_addfd n source cloexec)" for source cloexec
    by (simp add: keeps_def broker_addfd_def keeps_listener)
  then have "keeps inv (open_file t fs n f p flags)" for t f p flags
    unfolding open_file_def by (auto intro!: keeps_seq_do keeps_calls split: option.split)
  then show ?thesis
    unfolding files_open_def open_path_def open_flags_def split_beta Let_def
    by (auto intro!: keeps_seq_do keeps_calls split: option.split)
qed

lemma keeps_check_unix: "keeps inv (check_unix_connect n)"
  unfolding check_unix_connect_def check_unix_path_def Let_def
  by (auto intro!: keeps_seq_do keeps_calls split: list.split)

end

section \<open>Opening the resolver configuration\<close>

lemma component_not_root: "RootDir \<notin> set (List.map_filter component_of ws)"
  by (auto simp: List.map_filter_def component_of_def split: if_splits)

lemma is_absolute_components: "is_absolute p \<longleftrightarrow> RootDir \<in> set (path_components p)"
  by (simp add: path_components_def component_not_root)

lemma path_eq_facts:
  assumes "path_eq p q"
  shows "is_absolute p = is_absolute q" and "file_name p = file_name q"
  using assms by (simp_all add: is_absolute_components path_eq_def file_name_def)

lemma find_file_spelled:
  assumes "f \<in> set files" and "path_eq p (cf_path f)"
  shows "\<exists>g \<in> set files. find_file files p c = Some g"
proof -
  from assms have "\<exists>x \<in> set files. path_eq (cf_path x) p" by (auto simp: path_eq_def)
  then have "find_file files p c \<noteq> None" by (auto simp: find_file_def find_None_iff)
  then obtain g where g: "find_file files p c = Some g" by blast
  then have "g \<in> set files" by (auto simp: find_file_def find_Some_iff)
  with g show ?thesis by blast
qed

lemma open_refused_None:
  "open_refused t p flags = None \<Longrightarrow> flags AND O_PATH = 0 \<Longrightarrow>
   flags AND O_ACCMODE = O_RDONLY \<and> flags AND O_TRUNC = 0"
  by (simp add: open_refused_def split: if_splits)

lemma listener_call_calls: "br_calls (snd (listener_call request b)) = br_calls b @ [request]"
  by (simp add: listener_call_def split: list.split)

lemma open_file_Ok:
  assumes "open_file t fs n g p flags b = (Ok r, b')"
  shows "(flags AND O_PATH = 0 \<longrightarrow> flags AND O_ACCMODE = O_RDONLY \<and> flags AND O_TRUNC = 0)
     \<and> (r = Sent \<and> (\<exists>d. reopen t fs g flags = Ok d \<and> br_calls b' = br_calls b @
            [CheckId (nt_id n), AddFdSend \<lparr>af_id = nt_id n, af_flags = 2, af_srcfd = of_int d, af_newfd = 0,
               af_newfd_flags = if flags AND O_CLOEXEC \<noteq> 0 then O_CLOEXEC else 0\<rparr>])
       \<or> r = Continue \<and> flags AND O_PATH \<noteq> 0 \<and> flags AND O_NOFOLLOW t \<noteq> 0
          \<and> fs_is_symlink fs p = Ok True \<and> br_calls b' = br_calls b)"
proof -
  from assms have ok: "open_refused t p flags = None" by (auto simp: open_file_def split: option.splits)
  show ?thesis
  proof (cases "flags AND O_NOFOLLOW t \<noteq> 0 \<and> fs_is_symlink fs p = Ok True")
    case True
    with assms ok have "r = Continue \<and> flags AND O_PATH \<noteq> 0 \<and> b' = b"
      by (simp add: open_file_def split: if_splits)
    with True open_refused_None [OF ok] show ?thesis by simp
  next
    case False
    with assms ok obtain d b1 where d: "reopen t fs g flags = Ok d"
      and v: "broker_valid n b = (Ok (), b1)"
      and a: "broker_addfd n d (flags AND O_CLOEXEC \<noteq> 0) b1 = (Ok (), b')" and r: "r = Sent"
      by (auto simp: open_file_def seq_do_Ok_iff ask_kernel_def)
    have "br_calls b1 = br_calls b @ [CheckId (nt_id n)]"
      using broker_valid_frame [of n b] v by simp
    moreover have "br_calls b' = br_calls b1 @ [AddFdSend \<lparr>af_id = nt_id n, af_flags = 2, af_srcfd = of_int d,
        af_newfd = 0, af_newfd_flags = if flags AND O_CLOEXEC \<noteq> 0 then O_CLOEXEC else 0\<rparr>]"
      using arg_cong [OF a, of "\<lambda>x. br_calls (snd x)"]
      by (simp add: broker_addfd_def listener_call_calls addfd_send_def)
    ultimately show ?thesis using d r open_refused_None [OF ok] by simp
  qed
qed

lemma open_flags_frame:
  assumes "open_flags A n arg (b\<lparr>br_target := t\<rparr>) = (Ok flags, b')" and "tg_mem t = tg_mem (br_target b)"
  shows "fst (open_flags A n arg b) = Ok flags" and "br_calls b' = br_calls b"
proof -
  from assms(2) open_how_mem [OF assms(2)] have "fst (open_flags A n arg (b\<lparr>br_target := t\<rparr>)) = fst (open_flags A n arg b)"
    by (simp add: open_flags_def on_memory_def split_beta)
  with assms(1) show "fst (open_flags A n arg b) = Ok flags" by simp
  from assms(1) show "br_calls b' = br_calls b" by (auto simp: open_flags_def split: if_splits)
qed


definition example_fs :: filesystem where
  "example_fs = \<lparr>fs_canonicalize = (\<lambda>p. Err (Os ENOENT)), fs_read_link = (\<lambda>p. Err (Os ENOENT)),
     fs_is_symlink = (\<lambda>p. Ok False), fs_open = (\<lambda>p flags. Ok 11)\<rparr>"

lemma example_components:
  "path_components (as_bytes ''/etc/resolv.conf'')
     = [RootDir, Normal (as_bytes ''etc''), Normal (as_bytes ''resolv.conf'')]"
  "path_components (as_bytes ''/etc//resolv.conf'')
     = [RootDir, Normal (as_bytes ''etc''), Normal (as_bytes ''resolv.conf'')]"
  by code_simp+


text \<open>The sockets of \<open>nscd\<close> and \<open>systemd-resolved\<close> are refused, other paths are not.\<close>

lemma check_unix_path_refuses:
  "fst (check_unix_path bs b) = (if bs \<noteq> [] \<and> resolver_socket (takeWhile (\<lambda>b. b \<noteq> 0) bs) then Err (Os ECONNREFUSED) else Ok ())"
proof (cases bs)
  case (Cons x xs)
  have "\<not> resolver_socket []" by (simp add: resolver_socket_def as_bytes_def)
  with Cons show ?thesis by (simp add: check_unix_path_def)
qed (simp add: check_unix_path_def)

end
