(* ===== verification/Datagram.thy ===== *)
theory Datagram
  imports Broker Sockets
begin

text \<open>
  \<open>src/broker/datagram.rs\<close>: calls on UDP sockets. DNS datagrams are sent and received through
  the application's own socket, with the local address of the broker's server in place of the
  server's; every other destination is refused.

  A call may wait for the socket. Its waiting ends with \<open>Hang\<close> when the list of what the kernel
  does is used up: the handler is then still waiting.
\<close>

section \<open>Waiting handlers\<close>

type_synonym 'a waiting = "('a, wait_error, broker) action"

abbreviation io :: "'a handler \<Rightarrow> 'a waiting" where
  "io \<equiv> in_context Io"

text \<open>The result of a part as a value, unless it is still waiting.\<close>

definition outcome :: "'a waiting \<Rightarrow> 'a io_result waiting" where
  "outcome m b =
     (case m b of
        (Ok a, b') \<Rightarrow> (Ok (Ok a), b')
      | (Err (Io e), b') \<Rightarrow> (Ok (Err e), b')
      | (Err Hang, b') \<Rightarrow> (Err Hang, b'))"

section \<open>The socket\<close>

abbreviation MSG_DONTWAIT :: u32 where "MSG_DONTWAIT \<equiv> 0x40"
abbreviation MSG_NOSIGNAL :: u32 where "MSG_NOSIGNAL \<equiv> 0x4000"
abbreviation MSG_WAITFORONE :: u32 where "MSG_WAITFORONE \<equiv> 0x10000"
abbreviation SO_RCVTIMEO :: int where "SO_RCVTIMEO \<equiv> 20"
abbreviation SO_SNDTIMEO :: int where "SO_SNDTIMEO \<equiv> 21"

text \<open>
  What \<open>recvmsg\<close> stores (a name only if it has one, control data up to the size of the buffer)
  and returns; of \<open>sendmsg\<close> only the count matters. One step of the waiting loop: the time
  before the call and its result, and after a call that would block the time until the socket is
  ready and how waiting for it ends.
\<close>

record received =
  rc_count :: nat
  rc_data :: bytes
  rc_name :: "bytes option"
  rc_control :: bytes
  rc_flags :: u32

record xfer =
  xf_elapsed :: nat
  xf_result :: "received io_result"
  xf_wait :: nat
  xf_ready :: "unit io_result"

record datagram_env =
  de_fd :: int
  de_sock :: sock_kernel
  de_bound :: "sock_addr_v4 \<Rightarrow> sock_addr_v4 io_result"
  de_connect :: "unit io_result"
  de_async :: "unit io_result"
  de_getfl :: "u32 io_result"
  de_events :: "nat \<Rightarrow> xfer list"
  de_late :: nat

definition transfer_now ::
  "sock_addr_v4 \<Rightarrow> bytes \<Rightarrow> bytes \<Rightarrow> bool \<Rightarrow> received io_result
     \<Rightarrow> (nat \<times> sock_addr_v4 \<times> bytes \<times> bytes \<times> u32) io_result" where
  "transfer_now dest payload control receiving answer =
     and_then answer (\<lambda>a.
       if receiving then
         Ok (rc_count a,
             decode (case rc_name a of Some name \<Rightarrow> sockaddr_of name | None \<Rightarrow> sockaddr dest),
             copy_at 0 (take (length payload) (rc_data a)) payload,
             take (length control) (rc_control a),
             rc_flags a)
       else Ok (rc_count a, decode (sockaddr dest), payload, control, 0))"

definition transfer_flags :: "u32 \<Rightarrow> bool \<Rightarrow> u32" where
  "transfer_flags flags receiving =
     (if receiving then flags OR MSG_DONTWAIT else flags OR MSG_DONTWAIT OR MSG_NOSIGNAL)"

text \<open>Time passes and the call is made.\<close>

definition transfer_call :: "datagram_env \<Rightarrow> sock_addr_v4 \<Rightarrow> bytes \<Rightarrow> bytes \<Rightarrow> u32 \<Rightarrow> bool \<Rightarrow> xfer \<Rightarrow> unit handler" where
  "transfer_call env dest payload control flags receiving e =
     update (\<lambda>b. b\<lparr>br_now := br_now b + xf_elapsed e,
       br_datagrams := br_datagrams b @
         (if receiving then [] else [UdpSend (de_fd env) dest payload control (transfer_flags flags receiving)])\<rparr>)"

section \<open>One message\<close>

definition ask_server :: "datagram_env \<Rightarrow> sock_addr_v4 \<Rightarrow> sock_addr_v4 handler" where
  "ask_server env destination b =
     (let (r, d) = server_for (de_bound env destination) (br_dns b) destination in (r, b\<lparr>br_dns := d\<rparr>))"

definition send_destination :: "datagram_env \<Rightarrow> notification \<Rightarrow> message \<Rightarrow> sock_addr_v4 handler" where
  "send_destination env n m =
     (if msg_name m \<noteq> 0
      then seq_do (on_memory (ipv4_at (nt_pid n) (msg_name m) (ucast (msg_name_length m)))) (ask_server env)
      else (\<lambda>b. (case sockets_address (de_sock env) True of
                    Ok address \<Rightarrow> if original_server (br_dns b) address \<noteq> None then Ok address else Err (Os ENETUNREACH)
                  | Err e \<Rightarrow> Err (Os EDESTADDRREQ), b)))"

definition store_received ::
  "notification \<Rightarrow> message \<Rightarrow> nat \<times> sock_addr_v4 \<times> bytes \<times> bytes \<times> u32 \<Rightarrow> unit handler" where
  "store_received n m = (\<lambda>(len, source, payload, control, output_flags).
     seq_do (broker_valid n) (\<lambda>_.
     seq_do (on_memory (write_payload m (nt_pid n) (take (min len (length payload)) payload))) (\<lambda>_.
     seq_do (look (\<lambda>b. case original_server (br_dns b) source of Some original \<Rightarrow> original | None \<Rightarrow> source)) (\<lambda>shown.
     on_memory (message_finish m (nt_pid n) shown control output_flags)))))"

definition passed :: "nat option \<Rightarrow> nat \<Rightarrow> bool" where
  "passed deadline now \<longleftrightarrow> (case deadline of Some end_time \<Rightarrow> now \<ge> end_time | None \<Rightarrow> False)"

definition wait_tick :: "nat option \<Rightarrow> nat \<Rightarrow> nat" where
  "wait_tick deadline now =
     min (case deadline of Some end_time \<Rightarrow> end_time - now | None \<Rightarrow> 10000000) 10000000"

definition wait_ready :: "nat option \<Rightarrow> xfer \<Rightarrow> unit handler" where
  "wait_ready deadline e =
     seq_do (look (\<lambda>b. wait_tick deadline (br_now b))) (\<lambda>tick.
     seq_do (update (\<lambda>b. b\<lparr>br_now := br_now b + min (xf_wait e) tick\<rparr>)) (\<lambda>_.
     if xf_wait e \<le> tick then ask_kernel (xf_ready e) else yield ()))"

fun transfer_loop ::
  "datagram_env \<Rightarrow> notification \<Rightarrow> message \<Rightarrow> sock_addr_v4 \<Rightarrow> bytes \<Rightarrow> bytes \<Rightarrow> u32 \<Rightarrow> nat option
     \<Rightarrow> bool \<Rightarrow> xfer list \<Rightarrow> nat waiting" where
  "transfer_loop env n m dest payload control flags deadline receiving [] = fail Hang"
| "transfer_loop env n m dest payload control flags deadline receiving (e # es) =
     seq_do (io (broker_valid n)) (\<lambda>_.
     seq_do (io (transfer_call env dest payload control flags receiving e)) (\<lambda>_.
     case transfer_now dest payload control receiving (xf_result e) of
       Ok got \<Rightarrow>
         seq_do (io (if receiving then store_received n m got else yield ())) (\<lambda>_. yield (fst got))
     | Err error \<Rightarrow>
         if kind error = WouldBlock then
           seq_do (io (ask_kernel (nonblocking (de_getfl env) flags))) (\<lambda>nonblock.
           seq_do (io (look (\<lambda>b. passed deadline (br_now b)))) (\<lambda>late.
           if nonblock \<or> late then fail (Io error)
           else
             seq_do (io (wait_ready deadline e)) (\<lambda>_.
             transfer_loop env n m dest payload control flags deadline receiving es)))
         else if kind error = Interrupted then
           transfer_loop env n m dest payload control flags deadline receiving es
         else fail (Io error)))"

definition transfer ::
  "datagram_env \<Rightarrow> notification \<Rightarrow> message \<Rightarrow> u32 \<Rightarrow> nat option \<Rightarrow> bool \<Rightarrow> xfer list \<Rightarrow> nat waiting" where
  "transfer env n m flags deadline receiving es =
     seq_do (io (ask_kernel (message_capacity m))) (\<lambda>capacity.
     if \<not> receiving \<and> msg_control_length m > 65536 then fail (Io (Os ENOBUFS))
     else
       seq_do (io (if receiving then yield (replicate (min capacity 65536) 0)
                   else on_memory (read_payload m (nt_pid n)))) (\<lambda>payload.
       seq_do (io (if receiving then yield (replicate (min (msg_control_length m) 65536) 0)
                   else on_memory (memory_read (nt_pid n) (msg_control m) (msg_control_length m)))) (\<lambda>control.
       seq_do (io (if receiving then yield (sock_addr 0 0) else send_destination env n m)) (\<lambda>dest.
       transfer_loop env n m dest payload control flags deadline receiving es))))"

section \<open>Deadlines\<close>

definition socket_deadline :: "bytes \<Rightarrow> nat \<Rightarrow> nat option" where
  "socket_deadline timeval now =
     (let sec = sint (from_ne_bytes (take 8 timeval) :: u64); usec = sint (from_ne_bytes (drop 8 timeval) :: u64)
      in if sec = 0 \<and> usec = 0 then None
         else Some (now + nat (max sec 0) * 1000000000 + unat ((of_int (max usec 0) :: u32) * 1000)))"

definition batch_deadline :: "bytes \<Rightarrow> nat \<Rightarrow> nat io_result" where
  "batch_deadline timespec now =
     (let seconds = sint (from_ne_bytes (take 8 timespec) :: u64);
          nanos = sint (from_ne_bytes (drop 8 timespec) :: u64);
          end_time = now + nat seconds * 1000000000 + nat nanos
      in if seconds < 0 \<or> \<not> (0 \<le> nanos \<and> nanos < 1000000000) then Err (Os EINVAL)
         else if end_time div 1000000000 > 2 ^ 63 - 1 then Err (Os EINVAL)
         else Ok end_time)"

fun earlier :: "nat option \<Rightarrow> nat option \<Rightarrow> nat option" where
  "earlier (Some a) (Some b) = Some (min a b)"
| "earlier None b = b"
| "earlier a None = a"

definition remaining_bytes :: "nat \<Rightarrow> nat \<Rightarrow> bytes" where
  "remaining_bytes deadline now =
     (let remaining = deadline - now
      in to_ne_bytes (of_nat (remaining div 1000000000) :: u64) @ to_ne_bytes (of_nat (remaining mod 1000000000) :: u64))"

section \<open>Calls\<close>

definition datagram_connect :: "datagram_env \<Rightarrow> notification \<Rightarrow> reply handler" where
  "datagram_connect env n =
     (let args = sd_args (nt_data n)
      in seq_do (on_memory (family (nt_pid n) (args ! 1) (args ! 2))) (\<lambda>fam.
         if fam = 0 then yield Continue
         else
           seq_do (on_memory (ipv4_at (nt_pid n) (args ! 1) (args ! 2))) (\<lambda>destination.
           seq_do (ask_server env destination) (\<lambda>local.
           seq_do (broker_valid n) (\<lambda>_.
           seq_do (update (\<lambda>b. b\<lparr>br_datagrams := br_datagrams b @ [UdpConnect (de_fd env) local]\<rparr>)) (\<lambda>_.
           seq_do (ask_kernel (de_connect env)) (\<lambda>_. yield (Value 0))))))))"

definition datagram_peer :: "abi \<Rightarrow> datagram_env \<Rightarrow> notification \<Rightarrow> reply handler" where
  "datagram_peer A env n =
     seq_do (ask_kernel (peer_address (de_sock env) (sd_nr (nt_data n) = SYS_getsockopt A))) (\<lambda>actual.
     seq_do (look (\<lambda>b. original_server (br_dns b) actual)) (\<lambda>found.
       case found of
         None \<Rightarrow> yield Continue
       | Some original \<Rightarrow>
           seq_do (broker_valid n) (\<lambda>_.
           seq_do (on_memory (peer_name A n original)) (\<lambda>_. yield (Value 0)))))"

definition is_receive :: "abi \<Rightarrow> u32 \<Rightarrow> bool" where
  "is_receive A call \<longleftrightarrow> call \<in> {SYS_recvfrom A, SYS_recvmsg A, SYS_recvmmsg A}"

definition is_batch :: "abi \<Rightarrow> u32 \<Rightarrow> bool" where
  "is_batch A call \<longleftrightarrow> call \<in> {SYS_sendmmsg A, SYS_recvmmsg A}"

definition is_flat :: "abi \<Rightarrow> u32 \<Rightarrow> bool" where
  "is_flat A call \<longleftrightarrow> call \<in> {SYS_sendto A, SYS_recvfrom A}"

definition call_flags :: "abi \<Rightarrow> notification \<Rightarrow> u32" where
  "call_flags A n =
     (let call = sd_nr (nt_data n); args = sd_args (nt_data n)
      in if is_flat A call \<or> is_batch A call then ucast (args ! 3) else ucast (args ! 2))"

definition current_flags :: "nat \<Rightarrow> bool \<Rightarrow> u32 \<Rightarrow> u32" where
  "current_flags index receiving flags =
     (if index > 0 \<and> receiving \<and> flags AND MSG_WAITFORONE \<noteq> 0 then flags OR MSG_DONTWAIT else flags)
       AND NOT MSG_WAITFORONE"

definition message_for :: "abi \<Rightarrow> notification \<Rightarrow> u64 \<Rightarrow> message on_target" where
  "message_for A n header =
     (let call = sd_nr (nt_data n); args = sd_args (nt_data n)
      in if is_flat A call
         then message_flat (nt_pid n) (args ! 1) (args ! 2) (args ! 4) (args ! 5) (is_receive A call)
         else message_header (nt_pid n) header)"

text \<open>The step for one message of a batch: its length, or the error that ends the batch.\<close>

definition one_message :: "abi \<Rightarrow> datagram_env \<Rightarrow> notification \<Rightarrow> nat option \<Rightarrow> nat \<Rightarrow> u64 \<Rightarrow> nat io_result waiting" where
  "one_message A env n deadline index header =
     (let call = sd_nr (nt_data n); receiving = is_receive A call
      in outcome (seq_do (io (on_memory (message_for A n header))) (\<lambda>m.
           transfer env n m (current_flags index receiving (call_flags A n)) deadline receiving (de_events env index))))"

text \<open>
  The loop over the messages: either the reply of a single call, or the number of messages that
  were completed and the result that the batch has if there is none.
\<close>

fun message_loop ::
  "abi \<Rightarrow> datagram_env \<Rightarrow> notification \<Rightarrow> nat option \<Rightarrow> nat list \<Rightarrow> nat \<Rightarrow> (reply + nat \<times> reply io_result) waiting" where
  "message_loop A env n deadline [] completed = yield (Inr (completed, Ok (Value 0)))"
| "message_loop A env n deadline (index # rest) completed =
     (let base = sd_args (nt_data n) ! 1; header = base + of_nat (index * 64)
      in if unat base + index * 64 \<ge> 2 ^ 64 then fail (Io (Os EFAULT))
         else
           seq_do (one_message A env n deadline index header) (\<lambda>operation.
             case operation of
               Ok len \<Rightarrow>
                 if \<not> is_batch A (sd_nr (nt_data n)) then yield (Inl (Value (int len)))
                 else
                   seq_do (io (broker_valid n)) (\<lambda>_.
                   seq_do (io (attempt (on_memory (write_exact_at (nt_pid n) (header + 56)
                     (to_ne_bytes (of_nat len :: u32)))))) (\<lambda>written.
                   case written of
                     Err error \<Rightarrow> yield (Inr (completed, Err error))
                   | Ok _ \<Rightarrow> message_loop A env n deadline rest (completed + 1)))
             | Err error \<Rightarrow> yield (Inr (completed, Err error))))"

definition finish_batch :: "datagram_env \<Rightarrow> notification \<Rightarrow> nat option \<Rightarrow> nat \<Rightarrow> reply io_result \<Rightarrow> reply handler" where
  "finish_batch env n deadline completed result =
     seq_do (case deadline of
        None \<Rightarrow> yield False
      | Some end_time \<Rightarrow>
          seq_do (broker_valid n) (\<lambda>_.
          seq_do (look (\<lambda>b. remaining_bytes end_time (br_now b))) (\<lambda>bs.
          seq_do (on_memory (write_exact_at (nt_pid n) (sd_args (nt_data n) ! 4) bs)) (\<lambda>_.
          seq_do (update (\<lambda>b. b\<lparr>br_now := br_now b + de_late env\<rparr>)) (\<lambda>_.
          look (\<lambda>b. completed = 0 \<and> br_now b \<ge> end_time
            \<and> (case result of Err e \<Rightarrow> raw_os_error e = Some EAGAIN | Ok _ \<Rightarrow> False)))))))
     (\<lambda>expired.
        if expired then yield (Value 0)
        else if completed > 0 then yield (Value (int completed))
        else ask_kernel result)"

definition datagram_deadlines ::
  "abi \<Rightarrow> datagram_env \<Rightarrow> notification \<Rightarrow> (nat option \<times> nat option) handler" where
  "datagram_deadlines A env n =
     (let call = sd_nr (nt_data n); args = sd_args (nt_data n)
      in seq_do (ask_kernel (sockets_option (de_sock env) 16 SOL_SOCKET_i
             (if is_receive A call then SO_RCVTIMEO else SO_SNDTIMEO))) (\<lambda>timeout.
         seq_do (look (\<lambda>b. socket_deadline timeout (br_now b))) (\<lambda>socket_end.
         if call = SYS_recvmmsg A \<and> args ! 4 \<noteq> 0 then
           seq_do (on_memory (memory_read (nt_pid n) (args ! 4) 16)) (\<lambda>bs.
           seq_do (look (\<lambda>b. batch_deadline bs (br_now b))) (\<lambda>checked.
           seq_do (ask_kernel checked) (\<lambda>batch_end. yield (earlier socket_end (Some batch_end), Some batch_end))))
         else yield (socket_end, None))))"

definition message_count :: "abi \<Rightarrow> notification \<Rightarrow> nat" where
  "message_count A n =
     (if is_batch A (sd_nr (nt_data n)) then min (unat (ucast (sd_args (nt_data n) ! 2) :: u32)) 1024 else 1)"

definition datagram_io :: "abi \<Rightarrow> datagram_env \<Rightarrow> notification \<Rightarrow> reply waiting" where
  "datagram_io A env n =
     seq_do (io (ask_kernel (de_async env))) (\<lambda>_.
     seq_do (io (datagram_deadlines A env n)) (\<lambda>(deadline, batch_end).
     seq_do (message_loop A env n deadline [0..<message_count A n] 0) (\<lambda>ended.
       case ended of
         Inl r \<Rightarrow> yield r
       | Inr (completed, result) \<Rightarrow> io (finish_batch env n batch_end completed result))))"

definition datagram_dispatch :: "abi \<Rightarrow> datagram_env \<Rightarrow> notification \<Rightarrow> reply waiting" where
  "datagram_dispatch A env n =
     (let call = sd_nr (nt_data n)
      in if call = SYS_connect A then io (datagram_connect env n)
         else if call = SYS_getpeername A \<or> call = SYS_getsockopt A then io (datagram_peer A env n)
         else datagram_io A env n)"

section \<open>Where datagrams go\<close>

fun udp_destination :: "udp_call \<Rightarrow> sock_addr_v4" where
  "udp_destination (UdpConnect fd a) = a"
| "udp_destination (UdpSend fd a payload control flags) = a"

definition udp_ok :: "dns \<Rightarrow> udp_call \<Rightarrow> bool" where
  "udp_ok d c \<longleftrightarrow>
     original_server d (udp_destination c) \<noteq> None
     \<and> (case c of
          UdpSend fd a payload control flags \<Rightarrow>
            length payload \<le> 65507 \<and> length control \<le> 65536 \<and> flags AND MSG_DONTWAIT \<noteq> 0
        | UdpConnect fd a \<Rightarrow> True)"

definition dns_closed :: "dns \<Rightarrow> bool" where
  "dns_closed d \<longleftrightarrow> (\<forall>destination local. server_at d destination = Some local \<longrightarrow> original_server d local \<noteq> None)"

definition resolver_only :: "broker \<Rightarrow> bool" where
  "resolver_only b \<longleftrightarrow> dns_closed (br_dns b) \<and> (\<forall>c \<in> set (br_datagrams b). udp_ok (br_dns b) c)"

lemma server_for_closed:
  assumes "dns_closed d" and "server_for bound d destination = (res, d')"
  shows "dns_closed d'" and "original_server d a \<noteq> None \<Longrightarrow> original_server d' a \<noteq> None"
    and "res = Ok local \<Longrightarrow> original_server d' local \<noteq> None"
proof -
  have "dns_closed d' \<and> (original_server d a \<noteq> None \<longrightarrow> original_server d' a \<noteq> None)
    \<and> (res = Ok local \<longrightarrow> original_server d' local \<noteq> None)"
  proof (cases rule: server_for_cases [of bound d destination])
    case (kept r)
    with assms show ?thesis by (auto simp: dns_closed_def)
  next
    case (added l)
    with assms show ?thesis by (auto simp: dns_closed_def original_server_def update_conv')
  qed
  then show "dns_closed d'" "original_server d a \<noteq> None \<Longrightarrow> original_server d' a \<noteq> None"
    "res = Ok local \<Longrightarrow> original_server d' local \<noteq> None" by blast+
qed

lemma udp_ok_mono:
  "udp_ok d c \<Longrightarrow> (\<And>a. original_server d a \<noteq> None \<Longrightarrow> original_server d' a \<noteq> None) \<Longrightarrow> udp_ok d' c"
  unfolding udp_ok_def by blast

lemma triple_ask_server:
  "triple resolver_only (ask_server env destination)
     (\<lambda>local b. resolver_only b \<and> original_server (br_dns b) local \<noteq> None) (\<lambda>_. resolver_only)"
  unfolding triple_def
proof (intro allI impI)
  fix b assume b: "resolver_only b"
  then have c: "dns_closed (br_dns b)" by (simp add: resolver_only_def)
  obtain r d where s: "server_for (de_bound env destination) (br_dns b) destination = (r, d)" by force
  note facts = server_for_closed [OF c s]
  have "resolver_only (b\<lparr>br_dns := d\<rparr>)"
    using b facts(1) udp_ok_mono [of "br_dns b" _ d] facts(2) by (auto simp: resolver_only_def)
  with s facts(3) show "case ask_server env destination b of
      (Ok local, b') \<Rightarrow> resolver_only b' \<and> original_server (br_dns b') local \<noteq> None
    | (Err e, b') \<Rightarrow> resolver_only b'"
    by (cases r) (simp_all add: ask_server_def)
qed

lemma keeps_io: "keeps I m \<Longrightarrow> keeps I (in_context f m)"
  by (simp add: keeps_def in_context_def split_beta split: result.split)

lemma keeps_outcome: "keeps I m \<Longrightarrow> keeps I (outcome m)"
  by (simp add: keeps_def outcome_def split_beta split: result.split wait_error.split)

lemma triple_io: "triple P m Q (\<lambda>_. E) \<Longrightarrow> triple P (in_context f m) Q (\<lambda>_. E)"
  by (auto simp: triple_def in_context_def split: prod.splits result.splits)

text \<open>What a handler may assume while it moves one message.\<close>

definition may_send :: "bool \<Rightarrow> sock_addr_v4 \<Rightarrow> bytes \<Rightarrow> bytes \<Rightarrow> broker \<Rightarrow> bool" where
  "may_send receiving dest payload control b \<longleftrightarrow>
     resolver_only b
     \<and> (receiving \<or> original_server (br_dns b) dest \<noteq> None \<and> length payload \<le> 65507 \<and> length control \<le> 65536)"

interpretation may_send: call_frame "may_send receiving dest payload control" for receiving dest payload control
  by unfold_locales (simp_all add: may_send_def resolver_only_def)

lemma may_send_time: "keeps (may_send receiving dest payload control) (update (\<lambda>b. b\<lparr>br_now := f b\<rparr>))"
  by (rule keeps_update) (simp add: may_send_def resolver_only_def)

lemmas may_send_calls = may_send.keeps_valid may_send.keeps_memory may_send_time

lemma nowait_bit: "(flags OR 0x4040) AND MSG_DONTWAIT \<noteq> (0 :: u32)"
  by (simp add: bit.conj_disj_distrib2 or_eq_0_iff)

lemma may_send_call:
  "keeps (may_send receiving dest payload control) (transfer_call env dest payload control flags receiving e)"
  unfolding transfer_call_def
  by (rule keeps_update)
    (auto simp: may_send_def resolver_only_def udp_ok_def transfer_flags_def nowait_bit)

lemma may_send_wait: "keeps (may_send receiving dest payload control) (wait_ready deadline e)"
  unfolding wait_ready_def
  by (rule keeps_look) (auto intro!: keeps_seq_do may_send_calls)

lemma may_send_store: "keeps (may_send receiving dest payload control) (store_received n m got)"
  unfolding store_received_def
  by (cases got) (auto intro!: keeps_seq_do keeps_look may_send_calls)

lemma may_send_loop:
  "keeps (may_send receiving dest payload control)
     (transfer_loop env n m dest payload control flags deadline receiving es)"
proof (induction es)
  case (Cons e es)
  then have rest: "keeps (may_send receiving dest payload control)
    (case transfer_now dest payload control receiving (xf_result e) of
       Ok got \<Rightarrow> seq_do (io (if receiving then store_received n m got else yield ())) (\<lambda>_. yield (fst got))
     | Err error \<Rightarrow>
         if kind error = WouldBlock then
           seq_do (io (ask_kernel (nonblocking (de_getfl env) flags))) (\<lambda>nonblock.
           seq_do (io (look (\<lambda>b. passed deadline (br_now b)))) (\<lambda>late.
           if nonblock \<or> late then fail (Io error)
           else
             seq_do (io (wait_ready deadline e)) (\<lambda>_.
             transfer_loop env n m dest payload control flags deadline receiving es)))
         else if kind error = Interrupted then
           transfer_loop env n m dest payload control flags deadline receiving es
         else fail (Io error))"
    by (auto intro!: keeps_seq_do keeps_io may_send_store may_send_wait
        split: result.split)
  show ?case
    by (simp, intro keeps_seq_do keeps_io may_send_calls may_send_call rest)
qed simp

lemma may_send_receiving [simp]: "may_send True dest payload control = resolver_only"
  by (simp add: may_send_def fun_eq_iff)

lemmas resolver_calls = may_send_calls [where receiving = True, simplified]

lemma triple_send_destination:
  "triple resolver_only (send_destination env n m)
     (\<lambda>dest b. resolver_only b \<and> original_server (br_dns b) dest \<noteq> None) (\<lambda>_. resolver_only)"
proof (cases "msg_name m = 0")
  case True
  then show ?thesis by (auto simp: triple_def send_destination_def split: result.split)
next
  case False
  then have "send_destination env n m =
      seq_do (on_memory (ipv4_at (nt_pid n) (msg_name m) (ucast (msg_name_length m)))) (ask_server env)"
    by (simp add: send_destination_def)
  then show ?thesis
    by (simp only:) (rule triple_seq [OF triple_keeps [OF resolver_calls(2)] triple_ask_server])
qed

lemma read_payload_length:
  "read_payload m tid t = (Ok bs, t') \<Longrightarrow> length bs \<le> 65507"
  by (auto simp: read_payload_def message_capacity_def capacity_from_Ok_iff dest!: read_vectors_Ok
      split: result.splits if_splits)

lemma triple_read_payload:
  "triple resolver_only (on_memory (read_payload m tid)) (\<lambda>bs b. resolver_only b \<and> length bs \<le> 65507)
     (\<lambda>_. resolver_only)"
  unfolding triple_def
proof (intro allI impI)
  fix b assume b: "resolver_only b"
  obtain r t where r: "read_payload m tid (br_target b) = (r, t)" by force
  have "resolver_only (b\<lparr>br_target := t\<rparr>)" using b by (simp add: resolver_only_def)
  with r read_payload_length show "case on_memory (read_payload m tid) b of
      (Ok bs, b') \<Rightarrow> resolver_only b' \<and> length bs \<le> 65507 | (Err e, b') \<Rightarrow> resolver_only b'"
    by (cases r) (auto simp: on_memory_def)
qed

lemma triple_read_control:
  assumes "k \<le> 65536" and "\<And>m :: bytes on_target. keeps I (on_memory m)"
  shows "triple I (on_memory (memory_read tid a k)) (\<lambda>bs b. I b \<and> length bs \<le> 65536) (\<lambda>_. I)"
  unfolding triple_def
proof (intro allI impI)
  fix b assume b: "I b"
  obtain r t where r: "memory_read tid a k (br_target b) = (r, t)" by force
  with keepsD [OF assms(2) b, of "memory_read tid a k"] have "I (b\<lparr>br_target := t\<rparr>)" by (simp add: on_memory_def)
  with r memory_read_length assms(1) show "case on_memory (memory_read tid a k) b of
      (Ok bs, b') \<Rightarrow> I b' \<and> length bs \<le> 65536 | (Err e, b') \<Rightarrow> I b'"
    by (cases r) (auto simp: on_memory_def)
qed

lemma resolver_transfer: "keeps resolver_only (transfer env n m flags deadline receiving es)"
proof (cases receiving)
  case True
  have "keeps resolver_only (transfer_loop env n m dest payload control flags deadline True es)"
    for dest payload control
    using may_send_loop [of True dest payload control] by simp
  with True show ?thesis by (auto simp: transfer_def intro!: keeps_seq_do keeps_io)
next
  case False
  let ?loop = "\<lambda>dest payload control. transfer_loop env n m dest payload control flags deadline False es"
  have loop: "triple (may_send False dest payload control) (?loop dest payload control)
      (\<lambda>_. resolver_only) (\<lambda>_. resolver_only)" for dest payload control
    by (rule triple_conseq [OF triple_keeps [OF may_send_loop]]) (simp_all add: may_send_def)
  have rest: "triple resolver_only (seq_do (io (send_destination env n m)) (\<lambda>dest. ?loop dest payload control))
      (\<lambda>_. resolver_only) (\<lambda>_. resolver_only)" if "length payload \<le> 65507" "length control \<le> 65536"
    for payload control
    using that
    by (intro triple_seq [OF triple_io [OF triple_send_destination]] triple_conseq [OF loop]) (auto simp: may_send_def)
  have "triple resolver_only (transfer env n m flags deadline False es) (\<lambda>_. resolver_only) (\<lambda>_. resolver_only)"
  proof (cases "msg_control_length m \<le> 65536")
    case True
    have control: "triple resolver_only (seq_do (io (on_memory (memory_read (nt_pid n) (msg_control m) (msg_control_length m))))
        (\<lambda>control. seq_do (io (send_destination env n m)) (\<lambda>dest. ?loop dest payload control)))
        (\<lambda>_. resolver_only) (\<lambda>_. resolver_only)" if "length payload \<le> 65507" for payload
      using that
      by (intro triple_seq [OF triple_io [OF triple_read_control [OF True resolver_calls(2)]]] triple_pure) (rule rest)
    show ?thesis
      using True unfolding transfer_def
      by (simp, intro triple_seq [OF triple_keeps [OF keeps_io [OF keeps_ask_kernel]]]
          triple_seq [OF triple_io [OF triple_read_payload]] triple_pure) (rule control)
  next
    case False
    then show ?thesis
      unfolding transfer_def
      by (simp, intro triple_seq [OF triple_keeps [OF keeps_io [OF keeps_ask_kernel]]] triple_fail)
  qed
  with False show ?thesis by (simp add: keeps_triple)
qed

lemma resolver_message_loop: "keeps resolver_only (message_loop A env n deadline indices completed)"
proof (induction indices arbitrary: completed)
  case (Cons index rest)
  have one: "keeps resolver_only (one_message A env n deadline index header)" for header
    unfolding one_message_def Let_def
    by (intro keeps_outcome keeps_seq_do keeps_io resolver_calls resolver_transfer)
  show ?case
    using Cons
    by (auto simp: Let_def intro!: keeps_seq_do [OF one] keeps_seq_do keeps_io keeps_attempt resolver_calls
        split: result.split)
qed simp

lemma resolver_finish: "keeps resolver_only (finish_batch env n deadline completed result)"
  unfolding finish_batch_def
  by (auto intro!: keeps_seq_do resolver_calls split: option.split)

lemma resolver_deadlines: "keeps resolver_only (datagram_deadlines A env n)"
  unfolding datagram_deadlines_def Let_def
  by (auto intro!: keeps_seq_do resolver_calls)

lemma resolver_connect: "keeps resolver_only (datagram_connect env n)"
proof -
  let ?I = "\<lambda>local b. resolver_only b \<and> original_server (br_dns b) local \<noteq> None"
  let ?rest = "\<lambda>local. seq_do (broker_valid n) (\<lambda>_.
      seq_do (update (\<lambda>b. b\<lparr>br_datagrams := br_datagrams b @ [UdpConnect (de_fd env) local]\<rparr>)) (\<lambda>_.
      seq_do (ask_kernel (de_connect env)) (\<lambda>_. yield (Value 0))))"
  have "keeps (?I local) (broker_valid n)" for local
    by (simp add: keeps_def broker_valid_frame resolver_only_def)
  moreover have "keeps (?I local) (update (\<lambda>b. b\<lparr>br_datagrams := br_datagrams b @ [UdpConnect (de_fd env) local]\<rparr>))" for local
    by (rule keeps_update) (auto simp: resolver_only_def udp_ok_def)
  ultimately have "keeps (?I local) (?rest local)" for local
    by (intro keeps_seq_do keeps_ask_kernel keeps_simple)
  then have "triple (?I local) (?rest local) (\<lambda>_. resolver_only) (\<lambda>_. resolver_only)" for local
    by (rule triple_conseq [OF triple_keeps]) simp_all
  then have "keeps resolver_only (seq_do (ask_server env destination) ?rest)" for destination
    by (intro keeps_triple triple_seq [OF triple_ask_server])
  then show ?thesis
    unfolding datagram_connect_def Let_def
    by (auto intro!: keeps_seq_do [OF resolver_calls(2)])
qed

lemma resolver_peer: "keeps resolver_only (datagram_peer A env n)"
  unfolding datagram_peer_def
  by (auto intro!: keeps_seq_do keeps_look resolver_calls split: option.split)

lemma resolver_dispatch: "keeps resolver_only (datagram_dispatch A env n)"
proof -
  have "keeps resolver_only (datagram_io A env n)"
    unfolding datagram_io_def
    by (auto intro!: keeps_seq_do keeps_io resolver_deadlines resolver_message_loop resolver_finish
        split: sum.split)
  then show ?thesis
    unfolding datagram_dispatch_def Let_def
    by (simp add: keeps_io resolver_connect resolver_peer)
qed

section \<open>Invariants of other components\<close>

text \<open>An invariant that does not look at what these handlers change is kept by them.\<close>

locale udp_frame = call_frame +
  assumes inv_now: "inv (b\<lparr>br_now := time\<rparr>) = inv b"
    and inv_dns: "inv (b\<lparr>br_dns := d\<rparr>) = inv b"
    and inv_datagrams: "inv (b\<lparr>br_datagrams := ds\<rparr>) = inv b"
begin

lemma keeps_udp_updates:
  "keeps inv (update (\<lambda>b. b\<lparr>br_now := f b\<rparr>))"
  "keeps inv (update (\<lambda>b. b\<lparr>br_datagrams := g b\<rparr>))"
  "keeps inv (transfer_call env dest payload control flags receiving e)"
  "keeps inv (ask_server env destination)"
  by (simp_all add: keeps_def update_def transfer_call_def ask_server_def split_beta inv_now inv_dns inv_datagrams)

lemmas keeps_udp = keeps_calls keeps_udp_updates

lemma keeps_transfer_loop:
  "keeps inv (transfer_loop env n m dest payload control flags deadline receiving es)"
proof (induction es)
  case (Cons e es)
  have "keeps inv (wait_ready deadline e)"
    unfolding wait_ready_def by (auto intro!: keeps_seq_do keeps_udp)
  moreover have "keeps inv (store_received n m got)" for got
    unfolding store_received_def by (cases got) (auto intro!: keeps_seq_do keeps_udp)
  ultimately show ?case
    using Cons by (auto intro!: keeps_seq_do keeps_io keeps_udp split: result.split)
qed simp

lemma keeps_transfer: "keeps inv (transfer env n m flags deadline receiving es)"
proof -
  have "keeps inv (send_destination env n m)"
    unfolding send_destination_def
    by (auto intro!: keeps_seq_do keeps_udp simp: keeps_def [of _ "\<lambda>b. (_ b, b)"])
  then show ?thesis
    unfolding transfer_def by (auto intro!: keeps_seq_do keeps_io keeps_udp keeps_transfer_loop)
qed

lemma keeps_message_loop: "keeps inv (message_loop A env n deadline indices completed)"
proof (induction indices arbitrary: completed)
  case (Cons index rest)
  have one: "keeps inv (one_message A env n deadline index header)" for header
    unfolding one_message_def Let_def
    by (intro keeps_outcome keeps_seq_do keeps_io keeps_udp keeps_transfer)
  show ?case
    using Cons
    by (auto simp: Let_def intro!: keeps_seq_do [OF one] keeps_seq_do keeps_io keeps_attempt keeps_udp
        split: result.split)
qed simp

lemma keeps_datagram_dispatch: "keeps inv (datagram_dispatch A env n)"
proof -
  have "keeps inv (finish_batch env n d completed result)" for d completed result
    unfolding finish_batch_def by (auto intro!: keeps_seq_do keeps_udp split: option.split)
  moreover have "keeps inv (datagram_deadlines A env n)"
    unfolding datagram_deadlines_def Let_def by (auto intro!: keeps_seq_do keeps_udp)
  ultimately have "keeps inv (datagram_io A env n)"
    unfolding datagram_io_def
    by (auto intro!: keeps_seq_do keeps_io keeps_message_loop split: sum.split)
  moreover have "keeps inv (datagram_connect env n)"
    unfolding datagram_connect_def Let_def by (auto intro!: keeps_seq_do keeps_udp)
  moreover have "keeps inv (datagram_peer A env n)"
    unfolding datagram_peer_def by (auto intro!: keeps_seq_do keeps_udp split: option.split)
  ultimately show ?thesis
    unfolding datagram_dispatch_def Let_def by (simp add: keeps_io)
qed

end

section \<open>What the calls reply\<close>

lemma message_loop_results:
  "results (\<lambda>ended. case ended of
       Inl r \<Rightarrow> (\<exists>len. r = Value (int len)) \<and> \<not> is_batch A (sd_nr (nt_data n))
     | Inr (c, r) \<Rightarrow> c \<le> completed + length indices \<and> (\<forall>x. r = Ok x \<longrightarrow> x = Value 0))
   (message_loop A env n deadline indices completed)" (is "results (?P completed indices) _")
proof (induction indices arbitrary: completed)
  case (Cons index rest)
  define P where "P = ?P completed (index # rest)"
  have more: "results P (message_loop A env n deadline rest (Suc completed))"
    by (rule results_mono [OF Cons]) (auto simp: P_def split: sum.splits)
  have fin: "P (Inr (completed, Err e))" for e by (simp add: P_def)
  have one: "P (Inl (Value (int len)))" if "\<not> is_batch A (sd_nr (nt_data n))" for len
    using that by (simp add: P_def)
  have "results P (message_loop A env n deadline (index # rest) completed)"
    by (auto simp: Let_def fin one intro!: results_seq more split: result.split)
  then show ?case by (simp only: P_def)
qed simp

lemma datagram_io_results:
  "results (\<lambda>r. \<exists>v. r = Value (int v) \<and> (is_batch A (sd_nr (nt_data n)) \<longrightarrow> v \<le> message_count A n)) (datagram_io A env n)"
  (is "results ?P _")
proof -
  have fin: "results ?P (finish_batch env n d completed result)"
    if "completed \<le> message_count A n" "\<forall>x. result = Ok x \<longrightarrow> x = Value 0" for d completed result
  proof -
    have "results ?P (ask_kernel result)"
      using that(2) by (auto simp: results_def ask_kernel_def intro: exI [of _ 0])
    then show ?thesis
      unfolding finish_batch_def using that(1) by (auto intro!: results_seq exI [of _ 0])
  qed
  show ?thesis
    unfolding datagram_io_def
    by (intro results_seq, simp add: split_beta, intro results_seq results_bind [OF message_loop_results])
      (auto split: sum.splits prod.splits intro!: fin)
qed

text \<open>
  C7. No datagram leaves past the resolver. Whatever a program does with its UDP sockets, they are
  connected to and sent to addresses of the broker's own DNS servers only, with payload and control
  data within the limits of a datagram and never in a way that blocks the broker. A call is left to
  the kernel only to dissolve an association, or to report a peer that is not one of these servers;
  no \<open>sendto\<close>, \<open>sendmsg\<close> or \<open>sendmmsg\<close> ever is. And a batch reports at most 1024 messages.
\<close>

theorem datagrams_reach_resolver_only:
  assumes "resolver_only b" and "datagram_dispatch A env n b = (r, b')"
  shows "resolver_only b'
    \<and> (r = Ok Continue \<longrightarrow>
         sd_nr (nt_data n) = SYS_connect A
           \<and> fst (family (nt_pid n) (sd_args (nt_data n) ! 1) (sd_args (nt_data n) ! 2) (br_target b)) = Ok 0
       \<or> sd_nr (nt_data n) \<in> {SYS_getpeername A, SYS_getsockopt A}
           \<and> (\<exists>a. peer_address (de_sock env) (sd_nr (nt_data n) = SYS_getsockopt A) = Ok a
                 \<and> original_server (br_dns b) a = None))
    \<and> (\<forall>v. r = Ok (Value v) \<longrightarrow> is_batch A (sd_nr (nt_data n)) \<longrightarrow> 0 \<le> v \<and> v \<le> 1024)"
proof (intro conjI impI allI)
  show "resolver_only b'" using keepsD [OF resolver_dispatch assms] .
next
  assume "r = Ok Continue"
  with assms(2) resultsD [OF datagram_io_results, of A env n b Continue b']
  show "sd_nr (nt_data n) = SYS_connect A
      \<and> fst (family (nt_pid n) (sd_args (nt_data n) ! 1) (sd_args (nt_data n) ! 2) (br_target b)) = Ok 0
    \<or> sd_nr (nt_data n) \<in> {SYS_getpeername A, SYS_getsockopt A}
      \<and> (\<exists>a. peer_address (de_sock env) (sd_nr (nt_data n) = SYS_getsockopt A) = Ok a
            \<and> original_server (br_dns b) a = None)"
    by (auto simp: datagram_dispatch_def Let_def datagram_connect_def datagram_peer_def seq_do_Ok_iff
        ask_kernel_def look_def split: if_splits option.splits)
next
  fix v assume r: "r = Ok (Value v)" and batch: "is_batch A (sd_nr (nt_data n))"
  have "message_count A n \<le> 1024" by (simp add: message_count_def)
  then have io: "datagram_io A env n b = (Ok (Value v), b') \<Longrightarrow> 0 \<le> v \<and> v \<le> 1024"
    using resultsD [OF datagram_io_results, of A env n b "Value v" b'] batch by auto
  from assms(2) r io show "0 \<le> v" "v \<le> 1024"
    by (auto simp: datagram_dispatch_def Let_def datagram_connect_def datagram_peer_def seq_do_Ok_iff
        split: if_splits option.splits)
qed

definition example_datagram :: datagram_env where
  "example_datagram = \<lparr>de_fd = 13, de_sock = example_socket IPPROTO_UDP, de_bound = (\<lambda>a. Err (Os EADDRNOTAVAIL)),
     de_connect = Ok (), de_async = Ok (), de_getfl = Ok 0, de_events = (\<lambda>i. []), de_late = 0\<rparr>"

theorem datagrams_reach_resolver_only_witness:
  "\<exists>b'. datagram_dispatch x86_64_abi example_datagram (example_call 42 [3, 0x1000, 16, 0, 0, 0])
       (example_broker (address_bytes virtual_address)) = (Ok (Value 0), b')
     \<and> br_datagrams b' = [UdpConnect 13 (sock_addr LOCALHOST 5300)] \<and> resolver_only b'"
proof -
  let ?b = "example_broker (address_bytes virtual_address)" and ?n = "example_call 42 [3, 0x1000, 16, 0, 0, 0]"
  let ?t1 = "snd (family 7 0x1000 16 (br_target ?b))"
  let ?t2 = "snd (ipv4_at 7 0x1000 16 ?t1)"
  have only: "resolver_only ?b"
    by (simp add: resolver_only_def dns_closed_def example_broker_def original_server_def)
  have n: "nt_pid ?n = 7" "sd_args (nt_data ?n) ! 1 = 0x1000" "sd_args (nt_data ?n) ! 2 = 16" "sd_nr (nt_data ?n) = SYS_connect x86_64_abi"
    by (simp_all add: example_call_def x86_64_abi_def)
  have m: "tg_mem (br_target ?b) = page_memory (address_bytes virtual_address)" by (simp add: example_broker_def)
  have f: "on_memory (family 7 0x1000 16) ?b = (Ok 2, ?b\<lparr>br_target := ?t1\<rparr>)" using example_reads(1) [OF m] by simp
  have i: "on_memory (ipv4_at 7 0x1000 16) (?b\<lparr>br_target := ?t1\<rparr>) = (Ok virtual_address, ?b\<lparr>br_target := ?t2\<rparr>)"
    using example_reads(2) [of ?t1 virtual_address] m by simp
  have s: "ask_server example_datagram virtual_address (?b\<lparr>br_target := ?t2\<rparr>) = (Ok (sock_addr LOCALHOST 5300), ?b\<lparr>br_target := ?t2\<rparr>)"
    by (simp add: ask_server_def server_for_def is_dns_def virtual_address_def example_broker_def)
  have v: "broker_valid ?n (?b\<lparr>br_target := ?t2\<rparr>) = (Ok (), ?b\<lparr>br_target := ?t2, br_calls := [CheckId 1]\<rparr>)"
    by (subst broker_valid_quiet) (simp_all add: example_broker_def example_call_def)
  have e: "de_connect example_datagram = Ok ()" "de_fd example_datagram = 13"
    by (simp_all add: example_datagram_def)
  obtain b' where r: "datagram_dispatch x86_64_abi example_datagram ?n ?b = (Ok (Value 0), b')"
    and d: "br_datagrams b' = [UdpConnect 13 (sock_addr LOCALHOST 5300)]"
    unfolding datagram_dispatch_def Let_def n datagram_connect_def
    by (simp add: in_context_def f i s v seq_do_def
        update_def ask_kernel_def e yield_def) (simp add: example_broker_def)
  from datagrams_reach_resolver_only [OF only r] r d show ?thesis by blast
qed

end
