(* ===== verification/Engine.thy ===== *)
theory Engine
  imports Tcp Files Datagram "HOL-Library.Multiset"
begin

text \<open>
  \<open>src/broker/engine.rs\<close>: which handler a notification gets, the loop that runs the handlers,
  and the draining of the relays at the end.
\<close>

section \<open>Dispatch\<close>

text \<open>
  What the kernel and the tasks around a handler do during one call: the descriptor tables, the
  file system, what is known of each duplicated socket, and the environments of the two kinds of
  sockets.
\<close>

record 'p dispatch_env =
  ev_proc :: "('p, int) proc_kernel"
  ev_fs :: filesystem
  ev_sock :: "int \<Rightarrow> sock_kernel"
  ev_info_size :: nat
  ev_prepared :: "u16 io_result"
  ev_connect :: "connect_event list"
  ev_datagram :: datagram_env

definition tcp_env_of :: "'p dispatch_env \<Rightarrow> int \<Rightarrow> tcp_env" where
  "tcp_env_of env fd =
     \<lparr>te_fd = fd, te_sock = ev_sock env fd, te_info_size = ev_info_size env, te_prepared = ev_prepared env,
      te_events = ev_connect env\<rparr>"

definition datagram_env_of :: "'p dispatch_env \<Rightarrow> int \<Rightarrow> datagram_env" where
  "datagram_env_of env fd = (ev_datagram env)\<lparr>de_fd := fd, de_sock := ev_sock env fd\<rparr>"

definition socket_call :: "u64 list \<Rightarrow> reply io_result" where
  "socket_call args =
     (let fam = as_i32 (args ! 0);
          typ = (ucast (args ! 1) :: u32) AND NOT (0x800 OR 0x80000);
          protocol = as_i32 (args ! 2)
      in if fam = 1 \<or> fam = 16 then Ok Continue
         else if fam \<noteq> 2 then Err (Os EAFNOSUPPORT)
         else if typ = 1 \<and> protocol \<in> {0, IPPROTO_TCP} \<or> typ = 2 \<and> protocol \<in> {0, IPPROTO_UDP}
         then Ok Continue
         else Err (Os EPROTONOSUPPORT))"

definition dispatch_flags :: "abi \<Rightarrow> notification \<Rightarrow> u32" where
  "dispatch_flags A n =
     (let call = sd_nr (nt_data n); args = sd_args (nt_data n)
      in if call \<in> {SYS_sendto A, SYS_recvfrom A, SYS_sendmmsg A, SYS_recvmmsg A} then ucast (args ! 3)
         else if call \<in> {SYS_sendmsg A, SYS_recvmsg A} then ucast (args ! 2)
         else 0)"

definition is_send :: "abi \<Rightarrow> u32 \<Rightarrow> bool" where
  "is_send A call \<longleftrightarrow> call \<in> {SYS_sendto A, SYS_sendmsg A, SYS_sendmmsg A}"

definition dispatch_tcp :: "abi \<Rightarrow> regex_api \<Rightarrow> 'p dispatch_env \<Rightarrow> notification \<Rightarrow> int \<Rightarrow> reply handler" where
  "dispatch_tcp A re env n fd =
     (let call = sd_nr (nt_data n)
      in seq_do (if dispatch_flags A n AND MSG_OOB \<noteq> 0 then tcp_target (ev_sock env fd) True else yield None) (\<lambda>urgent.
         if urgent \<noteq> None then fail (Os EOPNOTSUPP)
         else if call = SYS_connect A then connect_tcp re n (tcp_env_of env fd)
         else if call = SYS_getpeername A \<or> call = SYS_getsockopt A then tcp_peer A (ev_sock env fd) n
         else yield Continue))"

definition dispatch_socket :: "abi \<Rightarrow> regex_api \<Rightarrow> 'p dispatch_env \<Rightarrow> notification \<Rightarrow> int \<Rightarrow> reply waiting" where
  "dispatch_socket A re env n fd =
     seq_do (io (ask_kernel (option_int (ev_sock env fd) SOL_SOCKET_i SO_DOMAIN))) (\<lambda>domain.
     seq_do (io (if domain = DOMAIN_UNIX \<and> sd_nr (nt_data n) = SYS_connect A
                 then check_unix_connect n else yield ())) (\<lambda>_.
     if domain \<noteq> DOMAIN_INET then yield Continue
     else
       seq_do (io (ask_kernel (option_int (ev_sock env fd) SOL_SOCKET_i SO_PROTOCOL))) (\<lambda>protocol.
       if protocol = IPPROTO_TCP then io (dispatch_tcp A re env n fd)
       else if protocol = IPPROTO_UDP then datagram_dispatch A (datagram_env_of env fd) n
       else fail (Io (Os EPROTONOSUPPORT)))))"

definition dispatch :: "abi \<Rightarrow> regex_api \<Rightarrow> 'p dispatch_env \<Rightarrow> notification \<Rightarrow> reply waiting" where
  "dispatch A re env n =
     (let call = sd_nr (nt_data n); args = sd_args (nt_data n)
      in seq_do (io (broker_valid n)) (\<lambda>_.
         if is_open A call then io (files_open A (ev_proc env) (ev_fs env) n)
         else if call = SYS_socket A then io (ask_kernel (socket_call args))
         else if is_send A call \<and> dispatch_flags A n AND MSG_FASTOPEN \<noteq> 0 then fail (Io (Os EOPNOTSUPP))
         else
           seq_do (io (look br_access)) (\<lambda>access.
           seq_do (io (ask_kernel (SocketAccess_get (ev_proc env) access (nt_pid n) (as_i32 (args ! 0))))) (\<lambda>fd.
           seq_do (io (broker_valid n)) (\<lambda>_. dispatch_socket A re env n fd)))))"

section \<open>What dispatch keeps\<close>

locale engine_frame = call_frame +
  fixes re :: regex_api
  assumes keeps_tcp_connect: "keeps inv (connect_tcp re n tenv)"
    and keeps_datagram: "keeps inv (datagram_dispatch A denv n)"
begin

lemma keeps_dispatch: "keeps inv (dispatch A re env n)"
proof -
  have "keeps inv (dispatch_tcp A re env n fd)" for fd
    unfolding dispatch_tcp_def Let_def
    by (auto intro!: keeps_seq_do keeps_tcp_target keeps_tcp_peer keeps_tcp_connect)
  then have "keeps inv (dispatch_socket A re env n fd)" for fd
    unfolding dispatch_socket_def
    by (auto intro!: keeps_seq_do keeps_io keeps_check_unix keeps_datagram)
  then show ?thesis
    unfolding dispatch_def Let_def
    by (auto intro!: keeps_seq_do keeps_io keeps_files_open keeps_calls)
qed

end

interpretation local_udp: udp_frame "stays_local a0 before" for a0 before
  by unfold_locales (simp_all add: stays_local_def)

interpretation local_engine: engine_frame "stays_local a0 before" re for a0 before re
  by unfold_locales (rule local_connect_tcp local_udp.keeps_datagram_dispatch)+

interpretation accounts_udp: udp_frame "accounts k X" for k X
  by unfold_locales (simp_all add: accounts_def holding_def)

interpretation accounts_engine: engine_frame "accounts (Suc k) {}" re for k re
  by unfold_locales (rule accounts_connect_tcp [simplified] accounts_udp.keeps_datagram_dispatch)+

interpretation resolver_tcp: tcp_frame resolver_only
  by unfold_locales (simp_all add: resolver_only_def)

interpretation resolver_engine: engine_frame resolver_only re for re
  by unfold_locales (rule resolver_tcp.keeps_connect_tcp resolver_dispatch)+

section \<open>What is left to the kernel\<close>

lemma continue_allowed_frame [simp]:
  "continue_allowed re n env (b\<lparr>br_answers := as, br_calls := cs\<rparr>) = continue_allowed re n env b"
  by (simp add: continue_allowed_def)

lemma dispatch_socket_inet:
  assumes "dispatch_socket A re env n fd b = (Ok Continue, b')"
    and "option_int (ev_sock env fd) SOL_SOCKET_i SO_DOMAIN = Ok DOMAIN_INET"
  shows "\<exists>protocol. option_int (ev_sock env fd) SOL_SOCKET_i SO_PROTOCOL = Ok protocol
    \<and> (protocol = IPPROTO_TCP \<and> dispatch_tcp A re env n fd b = (Ok Continue, b')
       \<or> protocol = IPPROTO_UDP \<and> datagram_dispatch A (datagram_env_of env fd) n b = (Ok Continue, b'))"
  using assms
  by (auto simp: dispatch_socket_def seq_do_Ok_iff ask_kernel_def split: if_splits)

lemma dispatch_tcp_connect:
  "dispatch_tcp A re env n fd b = (Ok Continue, b') \<Longrightarrow> sd_nr (nt_data n) = SYS_connect A \<Longrightarrow>
   dispatch_flags A n = 0 \<Longrightarrow> continue_allowed re n (tcp_env_of env fd) b"
  by (auto simp: dispatch_tcp_def Let_def seq_do_Ok_iff dest: connect_Continue split: if_splits)

lemma abi_ok_calls:
  assumes "abi_ok A" and "call \<in> {SYS_connect A, SYS_sendto A, SYS_sendmsg A, SYS_sendmmsg A}"
  shows "call \<noteq> SYS_getpeername A" "call \<noteq> SYS_getsockopt A" "\<not> is_open A call" "call \<noteq> SYS_socket A"
    "call = SYS_connect A \<or> is_send A call"
    "call = SYS_connect A \<Longrightarrow> call \<notin> {SYS_sendto A, SYS_recvfrom A, SYS_sendmmsg A, SYS_recvmmsg A, SYS_sendmsg A, SYS_recvmsg A}"
proof -
  let ?other = "{SYS_getpeername A, SYS_getsockopt A, SYS_socket A, SYS_openat A, SYS_openat2 A}"
  have calls: "SYS_connect A \<notin> ?other" "SYS_sendto A \<notin> ?other" "SYS_sendmsg A \<notin> ?other" "SYS_sendmmsg A \<notin> ?other"
    and x: "abi_target A = X86_64 \<Longrightarrow> SYS_open A \<notin> {SYS_connect A, SYS_sendto A, SYS_sendmsg A, SYS_sendmmsg A}"
    and c: "SYS_connect A \<notin> {SYS_sendto A, SYS_recvfrom A, SYS_sendmmsg A, SYS_recvmmsg A, SYS_sendmsg A, SYS_recvmsg A}"
    using assms(1) by (cases "abi_target A"; auto simp: abi_ok_def notified_def)+
  from assms(2) calls have other: "call \<notin> ?other" by (elim insertE emptyE) simp_all
  then show "call \<noteq> SYS_getpeername A" "call \<noteq> SYS_getsockopt A" "call \<noteq> SYS_socket A" by simp_all
  show "\<not> is_open A call" using other x assms(2) by (auto simp: is_open_def)
  show "call = SYS_connect A \<or> is_send A call" using assms(2) unfolding is_send_def by blast
  show "call \<notin> {SYS_sendto A, SYS_recvfrom A, SYS_sendmmsg A, SYS_recvmmsg A, SYS_sendmsg A, SYS_recvmsg A}"
    if "call = SYS_connect A"
    using c that by simp
qed

lemma datagram_Continue:
  assumes "datagram_dispatch A env n b = (Ok Continue, b')" and "abi_ok A"
    and "sd_nr (nt_data n) \<in> {SYS_connect A, SYS_sendto A, SYS_sendmsg A, SYS_sendmmsg A}"
  shows "sd_nr (nt_data n) = SYS_connect A
    \<and> fst (family (nt_pid n) (sd_args (nt_data n) ! 1) (sd_args (nt_data n) ! 2) (br_target b)) = Ok 0"
proof -
  from assms(1) resultsD [OF datagram_io_results, of A env n b Continue b']
  have "sd_nr (nt_data n) = SYS_connect A
      \<and> fst (family (nt_pid n) (sd_args (nt_data n) ! 1) (sd_args (nt_data n) ! 2) (br_target b)) = Ok 0
    \<or> sd_nr (nt_data n) \<in> {SYS_getpeername A, SYS_getsockopt A}"
    by (auto simp: datagram_dispatch_def Let_def datagram_connect_def seq_do_Ok_iff split: if_splits)
  with abi_ok_calls(1,2) [OF assms(2,3)] show ?thesis by blast
qed

text \<open>
  C1. No traffic leaves around the broker. When a call that can choose or reach a destination on an
  IPv4 socket (\<open>connect\<close>, \<open>sendto\<close>, \<open>sendmsg\<close>, \<open>sendmmsg\<close>) is left to the kernel, the socket is a
  TCP socket or the call dissolves the association of a UDP socket. A TCP \<open>connect\<close> is left to the
  kernel only in the three allowed cases: it dissolves an association, the socket was connected
  without the broker before, or its address is numeric, no DNS server, and routed directly. A TCP
  send that is left to the kernel cannot open a connection (\<open>MSG_FASTOPEN\<close>).
\<close>

theorem dispatch_never_leaks:
  assumes "abi_ok A" and "dispatch A re env n b = (Ok Continue, b')"
    and "sd_nr (nt_data n) \<in> {SYS_connect A, SYS_sendto A, SYS_sendmsg A, SYS_sendmmsg A}"
    and "SocketAccess_get (ev_proc env) (br_access b) (nt_pid n) (as_i32 (sd_args (nt_data n) ! 0)) = Ok fd"
    and "option_int (ev_sock env fd) SOL_SOCKET_i SO_DOMAIN = Ok DOMAIN_INET"
  shows "option_int (ev_sock env fd) SOL_SOCKET_i SO_PROTOCOL = Ok IPPROTO_TCP
      \<and> (if sd_nr (nt_data n) = SYS_connect A then continue_allowed re n (tcp_env_of env fd) b
         else dispatch_flags A n AND MSG_FASTOPEN = 0)
    \<or> option_int (ev_sock env fd) SOL_SOCKET_i SO_PROTOCOL = Ok IPPROTO_UDP
      \<and> sd_nr (nt_data n) = SYS_connect A
      \<and> fst (family (nt_pid n) (sd_args (nt_data n) ! 1) (sd_args (nt_data n) ! 2) (br_target b)) = Ok 0"
proof -
  let ?call = "sd_nr (nt_data n)"
  have other: "\<not> is_open A ?call" "?call \<noteq> SYS_socket A"
    and send: "?call \<noteq> SYS_connect A \<Longrightarrow> is_send A ?call" and flags: "?call = SYS_connect A \<Longrightarrow> dispatch_flags A n = 0"
    using abi_ok_calls [OF assms(1,3)] by (auto simp: dispatch_flags_def Let_def)
  from assms(2,4) other obtain b2 where
    fo: "\<not> (is_send A ?call \<and> dispatch_flags A n AND MSG_FASTOPEN \<noteq> 0)"
    and b2: "b2 = snd (broker_valid n (snd (broker_valid n b)))"
    and d: "dispatch_socket A re env n fd b2 = (Ok Continue, b')"
    using broker_valid_frame [of n b]
    by (auto simp: dispatch_def Let_def seq_do_Ok_iff look_def ask_kernel_def split: if_splits)
  have frame: "\<exists>as cs. b2 = b\<lparr>br_answers := as, br_calls := cs\<rparr>"
    unfolding b2 broker_valid_frame by (intro exI) simp
  from dispatch_socket_inet [OF d assms(5)] consider
    "option_int (ev_sock env fd) SOL_SOCKET_i SO_PROTOCOL = Ok IPPROTO_TCP" "dispatch_tcp A re env n fd b2 = (Ok Continue, b')"
  | "option_int (ev_sock env fd) SOL_SOCKET_i SO_PROTOCOL = Ok IPPROTO_UDP"
    "datagram_dispatch A (datagram_env_of env fd) n b2 = (Ok Continue, b')" by blast
  then show ?thesis
  proof cases
    case 1
    with dispatch_tcp_connect [OF 1(2)] flags send fo frame show ?thesis by auto
  next
    case 2
    from datagram_Continue [OF 2(2) assms(1,3)] 2(1) frame show ?thesis by auto
  qed
qed

section \<open>The loop\<close>

datatype shutdown = Running | Drain | Abort

text \<open>
  \<open>en_requests\<close> are the notifications whose handler runs, \<open>en_answered\<close> those that were
  answered; \<open>en_snapshot\<close> is the time at which the running snapshot of the sockets started.
\<close>

record engine =
  en_broker :: broker
  en_requests :: "notification list"
  en_answered :: "notification list"
  en_snapshot :: "nat option"

definition engine_new :: "broker \<Rightarrow> engine" where
  "engine_new b = \<lparr>en_broker = b, en_requests = [], en_answered = [], en_snapshot = None\<rparr>"

text \<open>
  What the loop waits for. The outer result of a joined task is an error when it panicked or was
  cancelled. \<open>RequestRuns i env\<close> lets the handler of the \<open>i\<close>-th request run in an environment
  and joins it, unless it is still waiting.
\<close>

datatype 'p engine_event =
    ShutdownChanged shutdown
  | DnsEnded "unit io_result"
  | IngressEnded "unit io_result"
  | Notified "notification io_result option"
  | RequestRuns nat "'p dispatch_env"
  | RequestPanicked nat
  | SnapshotEnded "(u64 list io_result, unit) result"
  | CleanupTick

definition retain_peers :: "u64 list \<Rightarrow> nat \<Rightarrow> (u64 \<rightharpoonup> peer) \<Rightarrow> u64 \<rightharpoonup> peer" where
  "retain_peers cookies started peers c =
     (case peers c of
        Some p \<Rightarrow> if pr_pending p \<or> pr_created p \<ge> started \<or> c \<in> set cookies then Some p else None
      | None \<Rightarrow> None)"

definition remove_nth :: "nat \<Rightarrow> 'a list \<Rightarrow> 'a list" where
  "remove_nth i xs = take i xs @ drop (Suc i) xs"

definition notified_step :: "notification io_result option \<Rightarrow> engine \<Rightarrow> engine + unit io_result" where
  "notified_step received s =
     (case received of
        None \<Rightarrow> Inr (Ok ())
      | Some (Err e) \<Rightarrow> Inr (Err e)
      | Some (Ok n) \<Rightarrow>
          if length (en_requests s) \<ge> 256 then
            (case broker_respond n (Err (Os EAGAIN)) (en_broker s) of
               (Err e, b) \<Rightarrow> Inr (Err e)
             | (Ok u, b) \<Rightarrow> Inl (s\<lparr>en_broker := b, en_answered := en_answered s @ [n]\<rparr>))
          else Inl (s\<lparr>en_requests := en_requests s @ [n]\<rparr>))"

definition request_step :: "abi \<Rightarrow> regex_api \<Rightarrow> nat \<Rightarrow> 'p dispatch_env \<Rightarrow> engine \<Rightarrow> engine + unit io_result" where
  "request_step A re i env s =
     (if i \<ge> length (en_requests s) then Inl s
      else let n = en_requests s ! i
           in case outcome (dispatch A re env n) (en_broker s) of
                (Err e, b) \<Rightarrow> Inl (s\<lparr>en_broker := b\<rparr>)
              | (Ok result, b) \<Rightarrow>
                  (case broker_respond n result b of
                     (Err e, b') \<Rightarrow> Inr (Err e)
                   | (Ok u, b') \<Rightarrow>
                       Inl (s\<lparr>en_broker := b', en_requests := remove_nth i (en_requests s),
                              en_answered := en_answered s @ [n]\<rparr>)))"

definition snapshot_step :: "(u64 list io_result, unit) result \<Rightarrow> engine \<Rightarrow> engine" where
  "snapshot_step joined s =
     (case en_snapshot s of
        None \<Rightarrow> s
      | Some started \<Rightarrow>
          (case joined of
             Ok (Ok cookies) \<Rightarrow>
               s\<lparr>en_snapshot := None,
                 en_broker := (en_broker s)\<lparr>br_peers := retain_peers cookies started (br_peers (en_broker s))\<rparr>\<rparr>
           | _ \<Rightarrow> s\<lparr>en_snapshot := None\<rparr>))"

text \<open>Joining finished relay tasks and dropping unused locks leave no trace in the state.\<close>

definition cleanup_step :: "engine \<Rightarrow> engine" where
  "cleanup_step s =
     (if en_snapshot s = None \<and> br_peers (en_broker s) \<noteq> Map.empty
      then s\<lparr>en_snapshot := Some (br_now (en_broker s))\<rparr> else s)"

fun engine_step :: "abi \<Rightarrow> regex_api \<Rightarrow> 'p engine_event \<Rightarrow> engine \<Rightarrow> engine + unit io_result" where
  "engine_step A re (ShutdownChanged signal) s = Inr (Ok ())"
| "engine_step A re (DnsEnded r) s = Inr r"
| "engine_step A re (IngressEnded r) s = Inr r"
| "engine_step A re (Notified received) s = notified_step received s"
| "engine_step A re (RequestRuns i env) s = request_step A re i env s"
| "engine_step A re (RequestPanicked i) s = Inr (Err (Custom OtherKind))"
| "engine_step A re (SnapshotEnded joined) s = Inl (snapshot_step joined s)"
| "engine_step A re CleanupTick s = Inl (cleanup_step s)"

text \<open>Draining: \<open>None\<close> is a drain that still waits.\<close>

datatype drain_event =
    RelayJoined "(unit, unit) result"
  | DrainIngress "unit io_result"
  | DrainShutdown "shutdown option"
  | DrainDeadline

fun drain_relays :: "nat \<Rightarrow> shutdown \<Rightarrow> drain_event list \<Rightarrow> unit io_result option" where
  "drain_relays 0 signal es = Some (Ok ())"
| "drain_relays (Suc k) Abort es = Some (Ok ())"
| "drain_relays (Suc k) signal [] = None"
| "drain_relays (Suc k) signal (RelayJoined (Ok u) # es) = drain_relays k signal es"
| "drain_relays (Suc k) signal (RelayJoined (Err p) # es) = Some (Err (Custom OtherKind))"
| "drain_relays (Suc k) signal (DrainIngress r # es) = Some r"
| "drain_relays (Suc k) signal (DrainShutdown None # es) = Some (Ok ())"
| "drain_relays (Suc k) signal (DrainShutdown (Some signal') # es) = drain_relays (Suc k) signal' es"
| "drain_relays (Suc k) signal (DrainDeadline # es) = Some (Err (Custom TimedOut))"

fun engine_run ::
  "abi \<Rightarrow> regex_api \<Rightarrow> 'p engine_event list \<Rightarrow> shutdown \<Rightarrow> drain_event list \<Rightarrow> engine \<Rightarrow> unit io_result option" where
  "engine_run A re [] signal ds s =
     (if signal \<noteq> Running then drain_relays (length (br_relays (en_broker s))) signal ds else None)"
| "engine_run A re (e # es) signal ds s =
     (if signal \<noteq> Running then drain_relays (length (br_relays (en_broker s))) signal ds
      else case engine_step A re e s of
        Inl s' \<Rightarrow> engine_run A re es signal ds s'
      | Inr (Err error) \<Rightarrow> Some (Err error)
      | Inr (Ok u) \<Rightarrow>
          drain_relays (length (br_relays (en_broker s)))
            (case e of ShutdownChanged signal' \<Rightarrow> signal' | _ \<Rightarrow> signal) ds)"

section \<open>Reachable states\<close>

text \<open>
  Between two steps of the loop: a relay task gives back its permit once both sides are connected
  or its attempt has failed, and it ends; the listener accepts a stream; the resolver answers
  queries; time passes and the kernel and the target do what they like.
\<close>

definition task_connected :: "nat \<Rightarrow> broker \<Rightarrow> broker" where
  "task_connected i b =
     b\<lparr>br_relays := (br_relays b)[i := (br_relays b ! i)\<lparr>rt_permit := False\<rparr>], br_permits := br_permits b + 1\<rparr>"

definition task_ended :: "nat \<Rightarrow> broker \<Rightarrow> broker" where
  "task_ended i b =
     b\<lparr>br_relays := remove_nth i (br_relays b),
       br_ingress := Registration_drop (rt_registration (br_relays b ! i)) (br_ingress b)\<rparr>"

inductive background :: "broker \<Rightarrow> broker \<Rightarrow> bool" where
  connected: "i < length (br_relays b) \<Longrightarrow> rt_permit (br_relays b ! i) \<Longrightarrow> background b (task_connected i b)"
| ended: "i < length (br_relays b) \<Longrightarrow> \<not> rt_permit (br_relays b ! i) \<Longrightarrow> background b (task_ended i b)"
| accepted: "background b (b\<lparr>br_ingress := Ingress_deliver socks stream source (br_ingress b)\<rparr>)"
| resolved: "background b (b\<lparr>br_dns := (br_dns b)\<lparr>dns_resolver := r\<rparr>\<rparr>)"
| world: "background b (b\<lparr>br_target := t, br_answers := as, br_now := br_now b + dt\<rparr>)"

inductive engine_reachable :: "abi \<Rightarrow> regex_api \<Rightarrow> engine \<Rightarrow> notification list \<Rightarrow> bool" for A re where
  start: "Broker_new access config dns_bound files_made ingress_bound t = Ok b \<Longrightarrow>
    engine_reachable A re (engine_new b) []"
| event: "engine_reachable A re s received \<Longrightarrow> engine_step A re (e :: nat engine_event) s = Inl s' \<Longrightarrow>
    engine_reachable A re s' (received @ (case e of Notified (Some (Ok n)) \<Rightarrow> [n] | _ \<Rightarrow> []))"
| between: "engine_reachable A re s received \<Longrightarrow> background (en_broker s) b \<Longrightarrow>
    engine_reachable A re (s\<lparr>en_broker := b\<rparr>) received"

inductive_cases backgroundE: "background b b'"

lemma remove_nth_mset: "i < length xs \<Longrightarrow> mset xs = mset (remove_nth i xs) + {#xs ! i#}"
proof -
  assume "i < length xs"
  then have "xs = take i xs @ xs ! i # drop (Suc i) xs" by (simp add: id_take_nth_drop)
  then have "mset xs = mset (take i xs @ xs ! i # drop (Suc i) xs)" by simp
  then show ?thesis by (simp add: remove_nth_def)
qed

lemma request_step_Inl:
  assumes "request_step A re i env s = Inl s'"
  obtains (idle) "s' = s"
  | (waiting) e b where "outcome (dispatch A re env (en_requests s ! i)) (en_broker s) = (Err e, b)"
      "s' = s\<lparr>en_broker := b\<rparr>"
  | (answered) result b b' where "i < length (en_requests s)"
      "outcome (dispatch A re env (en_requests s ! i)) (en_broker s) = (Ok result, b)"
      "broker_respond (en_requests s ! i) result b = (Ok (), b')"
      "s' = s\<lparr>en_broker := b', en_requests := remove_nth i (en_requests s),
         en_answered := en_answered s @ [en_requests s ! i]\<rparr>"
proof (cases "i < length (en_requests s)")
  case True
  let ?n = "en_requests s ! i"
  obtain q b where o: "outcome (dispatch A re env ?n) (en_broker s) = (q, b)" by force
  show ?thesis
  proof (cases q)
    case (Err e)
    with assms True o show ?thesis by (intro waiting) (auto simp: request_step_def Let_def)
  next
    case (Ok result)
    obtain q' b' where r: "broker_respond ?n result b = (q', b')" by force
    with assms True o Ok show ?thesis
      by (cases q') (auto intro!: answered [OF True] simp: request_step_def Let_def)
  qed
next
  case False
  with assms show ?thesis by (intro idle) (simp add: request_step_def)
qed

lemma notified_step_Inl:
  assumes "notified_step received s = Inl s'"
  obtains (refused) n b where "received = Some (Ok n)" "broker_respond n (Err (Os EAGAIN)) (en_broker s) = (Ok (), b)"
      "s' = s\<lparr>en_broker := b, en_answered := en_answered s @ [n]\<rparr>"
  | (spawned) n where "received = Some (Ok n)" "length (en_requests s) < 256"
      "s' = s\<lparr>en_requests := en_requests s @ [n]\<rparr>"
proof -
  from assms obtain n where n: "received = Some (Ok n)"
    by (auto simp: notified_step_def split: option.splits result.splits)
  obtain q b where r: "broker_respond n (Err (Os EAGAIN)) (en_broker s) = (q, b)" by force
  show ?thesis
  proof (cases "length (en_requests s) < 256")
    case True
    with assms n show ?thesis by (intro spawned) (auto simp: notified_step_def)
  next
    case False
    with assms n r show ?thesis by (cases q) (auto intro!: refused simp: notified_step_def)
  qed
qed

text \<open>
  An invariant of the broker that holds at the start and is kept by the handlers, by the tasks in
  the background and by the cleanup holds in every reachable state.
\<close>

locale engine_invariant = engine_frame +
  assumes inv_new: "Broker_new access config dns_bound files_made ingress_bound t = Ok b \<Longrightarrow> inv b"
    and inv_background: "background b b' \<Longrightarrow> inv b \<Longrightarrow> inv b'"
    and inv_retain: "inv b \<Longrightarrow> inv (b\<lparr>br_peers := retain_peers cookies started (br_peers b)\<rparr>)"
begin

lemma request_inv: "request_step A re i env s = Inl s' \<Longrightarrow> inv (en_broker s) \<Longrightarrow> inv (en_broker s')"
  by (erule request_step_Inl)
    (auto dest: keepsD [OF keeps_outcome [OF keeps_dispatch]] keepsD [OF keeps_respond])

lemma step_inv:
  assumes "engine_step A re e s = Inl s'" and "inv (en_broker s)"
  shows "inv (en_broker s')"
proof (cases e)
  case (Notified received)
  with assms have "notified_step received s = Inl s'" by simp
  then show ?thesis
    using assms(2) by (cases rule: notified_step_Inl) (auto dest: keepsD [OF keeps_respond])
next
  case (RequestRuns i env)
  with request_inv assms show ?thesis by simp
next
  case (SnapshotEnded joined)
  with assms inv_retain show ?thesis by (auto simp: snapshot_step_def split: option.split result.split)
next
  case CleanupTick
  with assms show ?thesis by (auto simp: cleanup_step_def)
qed (use assms in auto)

lemma reachable_inv: "engine_reachable A re s received \<Longrightarrow> inv (en_broker s)"
  by (induction rule: engine_reachable.induct) (auto simp: engine_new_def intro: inv_new step_inv inv_background)

end

lemma retain_peers_Some: "retain_peers cookies started peers c = Some p \<Longrightarrow> peers c = Some p"
  by (auto simp: retain_peers_def split: option.splits if_splits)

lemma holding_connected:
  "i < length ts \<Longrightarrow> rt_permit (ts ! i) \<Longrightarrow>
   length (filter rt_permit ts) = Suc (length (filter rt_permit (ts[i := (ts ! i)\<lparr>rt_permit := False\<rparr>])))"
proof (induction ts arbitrary: i)
  case (Cons t ts)
  then show ?case by (cases i) auto
qed simp

lemma holding_ended:
  "i < length ts \<Longrightarrow> \<not> rt_permit (ts ! i) \<Longrightarrow> filter rt_permit (remove_nth i ts) = filter rt_permit ts"
proof (induction ts arbitrary: i)
  case (Cons t ts)
  then show ?case by (cases i) (auto simp: remove_nth_def)
qed simp

lemma deliver_address [simp]: "ig_address (Ingress_deliver socks stream source ig) = ig_address ig"
  by (simp add: Ingress_deliver_def Let_def split: option.split prod.split)

definition broker_inv :: "broker \<Rightarrow> bool" where
  "broker_inv b \<longleftrightarrow> accounts (Suc 127) {} b \<and> stays_local (ig_address (br_ingress b)) [] b \<and> resolver_only b"

lemma background_inv: "background b b' \<Longrightarrow> broker_inv b \<Longrightarrow> broker_inv b'"
proof (induction rule: background.induct)
  case (connected i b)
  then show ?case
    using holding_connected [of i "br_relays b"]
    by (simp add: broker_inv_def task_connected_def accounts_def holding_def stays_local_def resolver_only_def)
next
  case (ended i b)
  then show ?case
    using holding_ended [of i "br_relays b"]
    by (simp add: broker_inv_def task_ended_def accounts_def holding_def stays_local_def resolver_only_def)
next
  case (resolved b r)
  moreover have "original_server ((br_dns b)\<lparr>dns_resolver := r\<rparr>) = original_server (br_dns b)"
    by (simp add: original_server_def fun_eq_iff)
  ultimately show ?case
    by (simp add: broker_inv_def accounts_def holding_def stays_local_def resolver_only_def dns_closed_def udp_ok_def)
qed (simp_all add: broker_inv_def accounts_def holding_def stays_local_def resolver_only_def)

text \<open>Three invariants that every handler keeps are kept together.\<close>

lemma keeps_broker_inv:
  assumes "\<And>a0. keeps (stays_local a0 []) m" and "keeps (accounts (Suc 127) {}) m" and "keeps resolver_only m"
  shows "keeps broker_inv m"
  unfolding keeps_def
proof (intro allI impI)
  fix b assume i: "broker_inv b"
  have l: "stays_local (ig_address (br_ingress b)) [] (snd (m b))"
    using assms(1) i by (simp add: broker_inv_def keeps_def)
  then have "ig_address (br_ingress (snd (m b))) = ig_address (br_ingress b)" by (simp add: stays_local_def)
  with l i assms(2,3) show "broker_inv (snd (m b))" by (simp add: broker_inv_def keeps_def)
qed

lemma Broker_new_inv: "Broker_new access config dns_bound files_made ingress_bound t = Ok b \<Longrightarrow> broker_inv b"
proof -
  assume new: "Broker_new access config dns_bound files_made ingress_bound t = Ok b"
  then obtain d where d: "Dns_new dns_bound = Ok d" "br_dns b = d" by (auto simp: Broker_new_def and_then_Ok_iff)
  let ?empty = "\<lparr>dns_resolver = Resolver_default, dns_servers = \<lparr>forward = [], reverse = []\<rparr>, dns_tasks = []\<rparr>"
  from d(1) obtain local where "server_for dns_bound ?empty virtual_address = (Ok local, d)"
    by (auto simp: Dns_new_def Let_def split: prod.splits result.splits)
  moreover have "dns_closed ?empty" by (simp add: dns_closed_def)
  ultimately have "dns_closed d" using server_for_closed(1) by blast
  moreover from new have "br_peers b = Map.empty" "br_permits b = 128" "br_relays b = []" "br_connected b = []"
    "br_datagrams b = []"
    by (auto simp: Broker_new_def and_then_Ok_iff)
  ultimately show ?thesis
    using d by (simp add: broker_inv_def accounts_def holding_def stays_local_def resolver_only_def)
qed

interpretation broker_books: engine_invariant broker_inv re for re
proof unfold_locales
  show "keeps broker_inv (connect_tcp re n tenv)" for n tenv
    by (rule keeps_broker_inv [OF local_connect_tcp accounts_engine.keeps_tcp_connect resolver_tcp.keeps_connect_tcp])
  show "keeps broker_inv (datagram_dispatch A denv n)" for A denv n
    by (rule keeps_broker_inv [OF local_udp.keeps_datagram_dispatch accounts_udp.keeps_datagram_dispatch resolver_dispatch])
  show "broker_inv (b\<lparr>br_peers := retain_peers cookies started (br_peers b)\<rparr>)" if "broker_inv b" for b cookies started
    using that
    by (auto simp: broker_inv_def accounts_def holding_def stays_local_def resolver_only_def dest!: retain_peers_Some)
  show "broker_inv b" if "Broker_new access config dns_bound files_made ingress_bound t = Ok b"
    for access config dns_bound files_made ingress_bound t b
    by (rule Broker_new_inv [OF that])
  show "broker_inv b'" if "background b b'" "broker_inv b" for b b'
    by (rule background_inv [OF that])
qed (simp_all add: broker_inv_def local.inv_target local.inv_answers local.inv_calls
      accounts.inv_target accounts.inv_answers accounts.inv_calls resolver_tcp.inv_target
      resolver_tcp.inv_answers resolver_tcp.inv_calls)

text \<open>The requests of the loop.\<close>

definition queue_inv :: "engine \<Rightarrow> notification list \<Rightarrow> bool" where
  "queue_inv s received \<longleftrightarrow>
     length (en_requests s) \<le> 256 \<and> mset received = mset (en_requests s) + mset (en_answered s)"

lemma queue_step:
  assumes "engine_step A re e s = Inl s'" and "queue_inv s received"
  shows "queue_inv s' (received @ (case e of Notified (Some (Ok n)) \<Rightarrow> [n] | _ \<Rightarrow> []))"
proof (cases e)
  case (Notified answer)
  with assms have "notified_step answer s = Inl s'" by simp
  then show ?thesis using assms(2) Notified by (cases rule: notified_step_Inl) (auto simp: queue_inv_def)
next
  case (RequestRuns i env)
  with assms have "request_step A re i env s = Inl s'" by simp
  then show ?thesis
  proof (cases rule: request_step_Inl)
    case (answered result b b')
    have "length (remove_nth i (en_requests s)) \<le> length (en_requests s)" by (simp add: remove_nth_def)
    with answered assms(2) remove_nth_mset [OF answered(1)] RequestRuns show ?thesis by (simp add: queue_inv_def)
  qed (use assms(2) RequestRuns in \<open>simp_all add: queue_inv_def\<close>)
next
  case (SnapshotEnded joined)
  with assms show ?thesis by (auto simp: queue_inv_def snapshot_step_def split: option.splits result.splits)
next
  case CleanupTick
  with assms show ?thesis by (auto simp: queue_inv_def cleanup_step_def)
qed (use assms in auto)

lemma queue_reachable: "engine_reachable A re s received \<Longrightarrow> queue_inv s received"
proof (induction rule: engine_reachable.induct)
  case (event s received e s')
  then show ?case by (intro queue_step)
qed (simp_all add: queue_inv_def engine_new_def)


section \<open>Draining\<close>

text \<open>
  Draining ends and is honest. Once the deadline passes it has returned, whatever else happened;
  and it reports success only when every relay has finished, or when it was told to abort, lost the
  control channel, or the listener ended without an error.
\<close>

lemma drain_is_bounded:
  "(DrainDeadline \<in> set es \<longrightarrow> drain_relays k signal es \<noteq> None)
   \<and> (drain_relays k signal es = Some (Ok ()) \<longrightarrow>
        k \<le> length (filter (\<lambda>e. e = RelayJoined (Ok ())) es)
        \<or> signal = Abort \<or> DrainShutdown (Some Abort) \<in> set es \<or> DrainShutdown None \<in> set es
        \<or> DrainIngress (Ok ()) \<in> set es)"
proof (induction es arbitrary: k signal)
  case Nil
  then show ?case by (cases k; cases signal) simp_all
next
  case (Cons e es)
  show ?case
  proof (cases "k = 0 \<or> signal = Abort")
    case True
    then show ?thesis by (cases k) auto
  next
    case False
    then obtain k' where k: "k = Suc k'" and s: "signal = Running \<or> signal = Drain" by (cases k; cases signal) auto
    show ?thesis
    proof (cases e)
      case (RelayJoined r)
      with k s Cons [of k' signal] show ?thesis by (cases r) auto
    next
      case (DrainIngress r)
      with k s show ?thesis by auto
    next
      case (DrainShutdown o')
      show ?thesis
      proof (cases o')
        case (Some signal')
        with DrainShutdown k s Cons [of k signal'] show ?thesis by auto
      qed (use DrainShutdown k s in auto)
    next
      case DrainDeadline
      with k s show ?thesis by auto
    qed
  qed
qed

section \<open>Examples\<close>

definition example_engine_env :: "nat dispatch_env" where
  "example_engine_env =
     \<lparr>ev_proc = example_proc, ev_fs = example_fs, ev_sock = (\<lambda>fd. example_socket IPPROTO_TCP), ev_info_size = 232,
      ev_prepared = Ok 4000, ev_connect = [Tick, Finished (Some (Ok ()))], ev_datagram = example_datagram\<rparr>"


lemma example_access:
  "SocketAccess_get (ev_proc example_engine_env) (br_access (example_broker bs)) (nt_pid example_connect)
     (as_i32 (sd_args (nt_data example_connect) ! 0)) = Ok 13"
proof -
  have "as_i32 3 = 3" by code_simp
  then show ?thesis
    by (simp add: SocketAccess_get_def example_engine_env_def example_proc_def example_broker_def example_call_def
        check_tid_def pidfd_open_def)
qed

lemma example_domain:
  "option_int (ev_sock example_engine_env fd) SOL_SOCKET_i SO_DOMAIN = Ok DOMAIN_INET"
  "option_int (ev_sock example_engine_env fd) SOL_SOCKET_i SO_PROTOCOL = Ok IPPROTO_TCP"
  by (simp_all add: option_int_def sockets_option_def example_engine_env_def example_socket_def)

lemma example_loopback: "\<not> is_fake_ip LOCALHOST" "is_loopback LOCALHOST"
  by code_simp+

lemma example_env_of: "tcp_env_of example_engine_env 13 = example_env"
  by (simp add: tcp_env_of_def example_engine_env_def example_env_def)

text \<open>The example reaches \<open>connect_tcp\<close>.\<close>

lemma example_dispatch:
  "dispatch x86_64_abi literal_re example_engine_env example_connect (example_broker bs) =
     io (connect_tcp literal_re example_connect example_env)
       ((example_broker bs)\<lparr>br_calls := [CheckId 1, CheckId 1]\<rparr>)"
proof -
  let ?n = example_connect and ?old = "example_broker bs"
  let ?b = "?old\<lparr>br_calls := [CheckId 1, CheckId 1]\<rparr>"
  have n: "nt_pid ?n = 7" "nt_id ?n = 1" "sd_nr (nt_data ?n) = SYS_connect x86_64_abi"
    by (simp_all add: example_call_def x86_64_abi_def)
  have calls: "\<not> is_open x86_64_abi (SYS_connect x86_64_abi)" "SYS_connect x86_64_abi \<noteq> SYS_socket x86_64_abi"
    "\<not> is_send x86_64_abi (SYS_connect x86_64_abi)"
    by (simp_all add: is_open_def is_send_def x86_64_abi_def)
  have flags: "dispatch_flags x86_64_abi ?n = 0"
    unfolding dispatch_flags_def Let_def n by (simp add: x86_64_abi_def)
  have q: "br_answers ?old = []" "br_calls ?old = []" by (simp_all add: example_broker_def)
  have v1: "broker_valid ?n ?old = (Ok (), ?old\<lparr>br_calls := [CheckId 1]\<rparr>)"
    by (simp only: broker_valid_quiet [OF q(1)] q(2) n(2) append_Nil)
  have v2: "broker_valid ?n (?old\<lparr>br_calls := [CheckId 1]\<rparr>) = (Ok (), ?b)"
    using q by (simp add: broker_valid_quiet n(2))
  have socket: "dispatch_socket x86_64_abi literal_re example_engine_env ?n 13 ?b
      = io (connect_tcp literal_re ?n example_env) ?b"
    by (simp add: dispatch_socket_def ask_kernel_def example_domain dispatch_tcp_def Let_def flags n example_env_of
        in_context_def seq_do_def yield_def)
  show ?thesis
    unfolding dispatch_def Let_def n
    using calls socket example_access [of bs]
    by (simp add: in_context_def v1 v2 seq_do_def look_def ask_kernel_def n)
qed

lemma example_loopback_connect:
  "fst (connect_tcp literal_re example_connect example_env
     ((example_broker (address_bytes (sock_addr LOCALHOST 80)))\<lparr>br_calls := cs\<rparr>)) = Ok Continue"
proof -
  let ?a = "sock_addr LOCALHOST 80" and ?n = example_connect
  let ?b = "(example_broker (address_bytes ?a))\<lparr>br_calls := cs\<rparr>"
  let ?t1 = "snd (family 7 0x1000 16 (br_target ?b))"
  let ?t2 = "snd (ipv4_at 7 0x1000 16 ?t1)"
  have n: "nt_pid ?n = 7" "sd_args (nt_data ?n) ! 1 = 0x1000" "sd_args (nt_data ?n) ! 2 = 16"
    by (simp_all add: example_call_def)
  have m: "tg_mem (br_target ?b) = page_memory (address_bytes ?a)" by (simp add: example_broker_def)
  have "on_memory (family 7 0x1000 16) ?b = (Ok 2, ?b\<lparr>br_target := ?t1\<rparr>)"
    using example_reads(1) [OF m] by simp
  moreover have "on_memory (ipv4_at 7 0x1000 16) (?b\<lparr>br_target := ?t1\<rparr>) = (Ok ?a, ?b\<lparr>br_target := ?t2\<rparr>)"
    using example_reads(2) [of ?t1 ?a] m by simp
  ultimately have known: "connect_tcp literal_re ?n example_env ?b
      = connect_known literal_re ?n example_env ?a (?b\<lparr>br_target := ?t2\<rparr>)"
    unfolding connect_tcp_def Let_def n by simp
  have quiet: "br_answers (?b\<lparr>br_target := ?t2\<rparr>) = []" by (simp add: example_broker_def)
  have route: "proxy_for literal_re (br_config ?b) (Ip (V4 LOCALHOST) 80) = Direct"
    using example_loopback ip_rules.get_build [of "[] :: (ipv4 \<times> nat \<times> match_action) list" LOCALHOST]
    by (simp add: example_broker_def example_config_def RuleMatcher_default_def match_ip_def lpm_def lpm_rule_def)
  have target: "Dns_target (br_dns ?b) ?a = Ok (Ip (V4 LOCALHOST) 80)" "\<not> is_dns ?a"
    using example_loopback by (simp_all add: Dns_target_def Resolver_target_def is_dns_def DNS_PORT_def)
  show ?thesis
    using route target quiet
    by (simp add: known connect_known_def seq_do_def ask_kernel_def example_answers broker_valid_quiet
        route_tcp_def remove_peer_def update_def look_def yield_def del: proxy_for.simps)
qed

theorem dispatch_never_leaks_witness:
  "continue_allowed literal_re example_connect (tcp_env_of example_engine_env 13)
     (example_broker (address_bytes (sock_addr LOCALHOST 80)))"
proof -
  let ?b = "example_broker (address_bytes (sock_addr LOCALHOST 80))"
  obtain b' where d: "dispatch x86_64_abi literal_re example_engine_env example_connect ?b = (Ok Continue, b')"
    using example_loopback_connect [of "[CheckId 1, CheckId 1]"]
    by (simp add: example_dispatch) (metis prod.collapse)
  have ok: "abi_ok x86_64_abi" by (simp add: abi_ok_def notified_def x86_64_abi_def)
  have c: "sd_nr (nt_data example_connect) = SYS_connect x86_64_abi"
    by (simp add: example_call_def x86_64_abi_def)
  from dispatch_never_leaks [OF ok d _ example_access example_domain(1)] c example_domain(2)
  show ?thesis by simp
qed

end
