(* ===== verification/Socks5.thy ===== *)
theory Socks5
  imports Proxy
begin

text \<open>
  \<open>src/proxy/socks5.rs\<close>: the SOCKS5 handshake as actions on the TCP stream to the proxy.
  Every \<open>bail!\<close> and every \<open>context\<close> is an error value.
\<close>

section \<open>Constants and errors\<close>

abbreviation SOCKS5_VERSION :: u8 where "SOCKS5_VERSION \<equiv> 0x05"
abbreviation METHOD_NO_AUTH :: u8 where "METHOD_NO_AUTH \<equiv> 0x00"
abbreviation METHOD_USER_PASS :: u8 where "METHOD_USER_PASS \<equiv> 0x02"
abbreviation METHOD_NO_ACCEPTABLE :: u8 where "METHOD_NO_ACCEPTABLE \<equiv> 0xFF"
abbreviation CMD_CONNECT :: u8 where "CMD_CONNECT \<equiv> 0x01"
abbreviation RSV :: u8 where "RSV \<equiv> 0x00"
abbreviation ATYP_IPV4 :: u8 where "ATYP_IPV4 \<equiv> 0x01"
abbreviation ATYP_DOMAIN :: u8 where "ATYP_DOMAIN \<equiv> 0x03"
abbreviation ATYP_IPV6 :: u8 where "ATYP_IPV6 \<equiv> 0x04"
abbreviation REP_SUCCESS :: u8 where "REP_SUCCESS \<equiv> 0x00"
abbreviation AUTH_VERSION :: u8 where "AUTH_VERSION \<equiv> 0x01"
abbreviation AUTH_SUCCESS :: u8 where "AUTH_SUCCESS \<equiv> 0x00"

datatype socks5_error =
    TcpConnect io_error
  | WriteGreeting wait_error
  | ReadMethod wait_error
  | UnexpectedVersion u8
  | CredentialsRequired
  | NoAcceptableMethod
  | UnknownMethod u8
  | MissingCredentials
  | UsernameTooLong
  | PasswordTooLong
  | WriteAuth wait_error
  | ReadAuth wait_error
  | AuthFailed u8
  | HostnameTooLong
  | WriteConnect wait_error
  | ReadReply wait_error
  | UnexpectedReplyVersion u8
  | ConnectFailed string u8
  | SkipBnd socks5_error
  | SkipRead wait_error
  | UnknownAtyp u8

type_synonym 'a socks5 = "('a, socks5_error, tcp) action"

record socks5_connector =
  s5_server :: string
  s5_auth :: "(string \<times> string) option"

section \<open>The handshake\<close>

definition greeting :: "bool \<Rightarrow> bytes" where
  "greeting has_auth =
     (let methods = (if has_auth then [METHOD_NO_AUTH, METHOD_USER_PASS] else [METHOD_NO_AUTH])
      in [SOCKS5_VERSION, of_nat (length methods)] @ methods)"

definition negotiate_method :: "bool \<Rightarrow> u8 socks5" where
  "negotiate_method has_auth =
     seq_do (in_context WriteGreeting (write_all (greeting has_auth))) (\<lambda>_.
     seq_do (in_context ReadMethod (read_exact 2)) (\<lambda>resp.
       if resp ! 0 \<noteq> SOCKS5_VERSION then fail (UnexpectedVersion (resp ! 0))
       else if resp ! 1 = METHOD_NO_AUTH then yield (resp ! 1)
       else if resp ! 1 = METHOD_USER_PASS
       then (if \<not> has_auth then fail CredentialsRequired else yield (resp ! 1))
       else if resp ! 1 = METHOD_NO_ACCEPTABLE then fail NoAcceptableMethod
       else fail (UnknownMethod (resp ! 1))))"

definition auth_request :: "string \<Rightarrow> string \<Rightarrow> bytes" where
  "auth_request user pass =
     [AUTH_VERSION, of_nat (length user)] @ as_bytes user @ [of_nat (length pass)] @ as_bytes pass"

definition authenticate :: "string \<Rightarrow> string \<Rightarrow> unit socks5" where
  "authenticate user pass =
     (if length (as_bytes user) > 255 then fail UsernameTooLong
      else if length (as_bytes pass) > 255 then fail PasswordTooLong
      else seq_do (in_context WriteAuth (write_all (auth_request user pass))) (\<lambda>_.
           seq_do (in_context ReadAuth (read_exact 2)) (\<lambda>resp.
             if resp ! 1 \<noteq> AUTH_SUCCESS then fail (AuthFailed (resp ! 1)) else yield ())))"

fun connect_request :: "proxy_target \<Rightarrow> (bytes, socks5_error) result" where
  "connect_request (Ip (V4 v4) port) =
     Ok ([SOCKS5_VERSION, CMD_CONNECT, RSV] @ [ATYP_IPV4] @ octets v4 @ to_be_bytes port)"
| "connect_request (Ip (V6 v6) port) =
     Ok ([SOCKS5_VERSION, CMD_CONNECT, RSV] @ [ATYP_IPV6] @ to_be_bytes v6 @ to_be_bytes port)"
| "connect_request (Domain host port) =
     (if length (as_bytes host) > 255 then Err HostnameTooLong
      else Ok ([SOCKS5_VERSION, CMD_CONNECT, RSV] @ [ATYP_DOMAIN] @ [of_nat (length (as_bytes host))]
               @ as_bytes host @ to_be_bytes port))"

definition socks5_reply_message :: "u8 \<Rightarrow> string" where
  "socks5_reply_message rep =
     (if rep = 0x01 then ''general SOCKS server failure''
      else if rep = 0x02 then ''connection not allowed by ruleset''
      else if rep = 0x03 then ''network unreachable''
      else if rep = 0x04 then ''host unreachable''
      else if rep = 0x05 then ''connection refused''
      else if rep = 0x06 then ''TTL expired''
      else if rep = 0x07 then ''command not supported''
      else if rep = 0x08 then ''address type not supported''
      else ''unknown error'')"

definition skip_addr :: "u8 \<Rightarrow> unit socks5" where
  "skip_addr atyp =
     (if atyp = ATYP_IPV4 then seq_do (in_context SkipRead (read_exact 6)) (\<lambda>_. yield ())
      else if atyp = ATYP_IPV6 then seq_do (in_context SkipRead (read_exact 18)) (\<lambda>_. yield ())
      else if atyp = ATYP_DOMAIN
      then seq_do (in_context SkipRead (read_exact 1)) (\<lambda>len_buf.
           seq_do (in_context SkipRead (read_exact (unat (len_buf ! 0) + 2))) (\<lambda>_. yield ()))
      else fail (UnknownAtyp atyp))"

definition send_connect_request :: "proxy_target \<Rightarrow> unit socks5" where
  "send_connect_request target =
     (case connect_request target of
        Err e \<Rightarrow> fail e
      | Ok req \<Rightarrow>
          seq_do (in_context WriteConnect (write_all req)) (\<lambda>_.
          seq_do (in_context ReadReply (read_exact 4)) (\<lambda>hdr.
            if hdr ! 0 \<noteq> SOCKS5_VERSION then fail (UnexpectedReplyVersion (hdr ! 0))
            else if hdr ! 1 \<noteq> REP_SUCCESS
            then fail (ConnectFailed (socks5_reply_message (hdr ! 1)) (hdr ! 1))
            else in_context SkipBnd (skip_addr (hdr ! 3)))))"

definition socks5_handshake :: "(string \<times> string) option \<Rightarrow> proxy_target \<Rightarrow> unit socks5" where
  "socks5_handshake auth target =
     seq_do (negotiate_method (auth \<noteq> None)) (\<lambda>method.
     seq_do (if method = METHOD_USER_PASS
             then (case auth of
                     None \<Rightarrow> fail MissingCredentials
                   | Some (user, pass) \<Rightarrow> authenticate user pass)
             else yield ()) (\<lambda>_.
       send_connect_request target))"

text \<open>
  \<open>connect\<close>: \<open>tcp_connect\<close> is what \<open>TcpStream::connect\<close> gives for the address of the
  proxy.
\<close>

definition Socks5Connector_connect ::
  "(string \<Rightarrow> tcp io_result) \<Rightarrow> socks5_connector \<Rightarrow> proxy_target
     \<Rightarrow> (tcp proxy_stream, socks5_error) result" where
  "Socks5Connector_connect tcp_connect c target =
     (case tcp_connect (s5_server c) of
        Err e \<Rightarrow> Err (TcpConnect e)
      | Ok stream \<Rightarrow>
          (case socks5_handshake (s5_auth c) target stream of
             (Ok u, stream') \<Rightarrow> Ok (ProxyStream_new stream' [])
           | (Err e, stream') \<Rightarrow> Err e))"

section \<open>Dialogues\<close>

text \<open>
  \<open>dialogue m P\<close> says exactly when an action succeeds on a stream whose writes work:
  \<open>P a c s\<close> holds of the value \<open>a\<close>, the bytes \<open>c\<close> consumed and the bytes \<open>s\<close>
  sent. Nothing beyond \<open>c\<close> is taken from the stream.
\<close>

definition dialogue :: "('a, 'e, tcp) action \<Rightarrow> ('a \<Rightarrow> bytes \<Rightarrow> bytes \<Rightarrow> bool) \<Rightarrow> bool" where
  "dialogue m P \<longleftrightarrow>
     (\<forall>t. tx_fail t = [] \<longrightarrow>
       (\<forall>a t'. m t = (Ok a, t') \<longrightarrow> tx_fail t' = [] \<and>
          (\<exists>c s. P a c s \<and> tcp_content t = c @ tcp_content t' \<and> tx t' = tx t @ s)) \<and>
       (\<forall>a c s rest. P a c s \<longrightarrow> tcp_content t = c @ rest \<longrightarrow>
          (\<exists>t'. m t = (Ok a, t') \<and> tcp_content t' = rest \<and> tx t' = tx t @ s \<and> tx_fail t' = [])))"

lemma dialogueI:
  assumes "\<And>t a t'. tx_fail t = [] \<Longrightarrow> m t = (Ok a, t') \<Longrightarrow> tx_fail t' = [] \<and>
      (\<exists>c s. P a c s \<and> tcp_content t = c @ tcp_content t' \<and> tx t' = tx t @ s)"
    and "\<And>t a c s rest. tx_fail t = [] \<Longrightarrow> P a c s \<Longrightarrow> tcp_content t = c @ rest \<Longrightarrow>
      \<exists>t'. m t = (Ok a, t') \<and> tcp_content t' = rest \<and> tx t' = tx t @ s \<and> tx_fail t' = []"
  shows "dialogue m P"
  unfolding dialogue_def using assms by blast

lemma dialogue_sound:
  "dialogue m P \<Longrightarrow> tx_fail t = [] \<Longrightarrow> m t = (Ok a, t') \<Longrightarrow> tx_fail t' = [] \<and>
     (\<exists>c s. P a c s \<and> tcp_content t = c @ tcp_content t' \<and> tx t' = tx t @ s)"
  unfolding dialogue_def by blast

lemma dialogue_complete:
  "dialogue m P \<Longrightarrow> tx_fail t = [] \<Longrightarrow> P a c s \<Longrightarrow> tcp_content t = c @ rest \<Longrightarrow>
     \<exists>t'. m t = (Ok a, t') \<and> tcp_content t' = rest \<and> tx t' = tx t @ s \<and> tx_fail t' = []"
  unfolding dialogue_def by metis

named_theorems dialogues "what the actions of a handshake say and hear"

lemma dialogue_cong:
  assumes "dialogue m P" and "\<And>a c s. P a c s \<longleftrightarrow> Q a c s"
  shows "dialogue m Q"
proof -
  have "P = Q" using assms(2) by (intro ext) simp
  with assms(1) show ?thesis by simp
qed

lemma dialogue_yield [dialogues]: "dialogue (yield v) (\<lambda>a c s. a = v \<and> c = [] \<and> s = [])"
  by (rule dialogueI) auto

lemma dialogue_fail [dialogues]: "dialogue (fail e) (\<lambda>a c s. False)"
  by (rule dialogueI) auto

lemma dialogue_context [dialogues]: "dialogue m P \<Longrightarrow> dialogue (in_context f m) P"
  by (simp only: dialogue_def in_context_Ok_iff)

lemma dialogue_read [dialogues]:
  "dialogue (read_exact n) (\<lambda>a c s. c = a \<and> length a = n \<and> s = [])"
proof (rule dialogueI)
  fix t a t' assume "tx_fail t = []" "read_exact n t = (Ok a, t')"
  with read_exact_Ok [OF this(2)] show "tx_fail t' = [] \<and>
      (\<exists>c s. (c = a \<and> length a = n \<and> s = []) \<and> tcp_content t = c @ tcp_content t' \<and> tx t' = tx t @ s)"
    by simp
next
  fix t and a c s rest :: bytes
  assume f: "tx_fail t = []" and "c = a \<and> length a = n \<and> s = []"
    "tcp_content t = c @ rest"
  then obtain t' where "read_exact n t = (Ok a, t')" "tcp_content t' = rest" "same_peer t t'"
    by (auto elim: read_exact_prefix [of t a rest n])
  with f \<open>c = a \<and> _\<close> show "\<exists>t'. read_exact n t = (Ok a, t') \<and> tcp_content t' = rest \<and>
      tx t' = tx t @ s \<and> tx_fail t' = []"
    by (simp add: same_peer_def)
qed

lemma dialogue_write [dialogues]: "dialogue (write_all bs) (\<lambda>a c s. c = [] \<and> s = bs)"
  by (rule dialogueI) auto

lemma dialogue_seq:
  assumes "dialogue m P" and "\<And>a c s. P a c s \<Longrightarrow> dialogue (f a) (Q a)"
  shows "dialogue (seq_do m f) (\<lambda>b c s. \<exists>a c1 c2 s1 s2. P a c1 s1 \<and> Q a b c2 s2 \<and> c = c1 @ c2 \<and> s = s1 @ s2)"
proof (rule dialogueI)
  fix t b t' assume f: "tx_fail t = []" and m: "seq_do m f t = (Ok b, t')"
  then obtain a t1 where a: "m t = (Ok a, t1)" "f a t1 = (Ok b, t')" by (auto simp: seq_do_Ok_iff)
  from dialogue_sound [OF assms(1) f a(1)] obtain c1 s1 where 1: "tx_fail t1 = []" "P a c1 s1"
    "tcp_content t = c1 @ tcp_content t1" "tx t1 = tx t @ s1" by blast
  from dialogue_sound [OF assms(2) [OF 1(2)] 1(1) a(2)] 1
  show "tx_fail t' = [] \<and> (\<exists>c s. (\<exists>a c1 c2 s1 s2. P a c1 s1 \<and> Q a b c2 s2 \<and> c = c1 @ c2 \<and> s = s1 @ s2)
      \<and> tcp_content t = c @ tcp_content t' \<and> tx t' = tx t @ s)"
    by (metis append.assoc)
next
  fix t b c s rest assume f: "tx_fail t = []" and c: "tcp_content t = c @ rest"
    and "\<exists>a c1 c2 s1 s2. P a c1 s1 \<and> Q a b c2 s2 \<and> c = c1 @ c2 \<and> s = s1 @ s2"
  then obtain a c1 c2 s1 s2 where p: "P a c1 s1" "Q a b c2 s2" "c = c1 @ c2" "s = s1 @ s2" by blast
  with c have c': "tcp_content t = c1 @ c2 @ rest" by simp
  from dialogue_complete [OF assms(1) f p(1) c'] obtain t1 where
    1: "m t = (Ok a, t1)" "tcp_content t1 = c2 @ rest" "tx t1 = tx t @ s1" "tx_fail t1 = []" by blast
  from dialogue_complete [OF assms(2) [OF p(1)] 1(4) p(2) 1(2)] 1 p(4)
  show "\<exists>t'. seq_do m f t = (Ok b, t') \<and> tcp_content t' = rest \<and> tx t' = tx t @ s \<and> tx_fail t' = []"
    by auto
qed

lemma dialogue_if [dialogues]:
  "dialogue m P \<Longrightarrow> dialogue n Q \<Longrightarrow>
     dialogue (if b then m else n) (\<lambda>a c s. b \<and> P a c s \<or> \<not> b \<and> Q a c s)"
  by simp

section \<open>What the handshake says and hears\<close>

lemma length_2_iff: "length xs = 2 \<longleftrightarrow> (\<exists>x y. xs = [x, y])"
  by (auto simp: numeral_eq_Suc length_Suc_conv)

lemma length_4_iff: "length xs = 4 \<longleftrightarrow> (\<exists>w x y z. xs = [w, x, y, z])"
  by (auto simp: numeral_eq_Suc length_Suc_conv)

text \<open>Reads of a fixed number of bytes, with the bytes named.\<close>

lemma dialogue_read_1:
  assumes "\<And>x. dialogue (f [x]) (Q x)"
  shows "dialogue (seq_do (in_context g (read_exact 1)) f) (\<lambda>b c s. \<exists>x c'. c = x # c' \<and> Q x b c' s)"
proof (rule dialogue_cong)
  show "dialogue (seq_do (in_context g (read_exact 1)) f) (\<lambda>b c s. \<exists>a c1 c2 s1 s2.
      (c1 = a \<and> length a = 1 \<and> s1 = []) \<and> Q (a ! 0) b c2 s2 \<and> c = c1 @ c2 \<and> s = s1 @ s2)"
    by (intro dialogue_seq dialogue_context dialogue_read) (use assms in \<open>auto simp: length_Suc_conv\<close>)
  fix b c s
  show "(\<exists>a c1 c2 s1 s2. (c1 = a \<and> length a = 1 \<and> s1 = []) \<and> Q (a ! 0) b c2 s2 \<and>
      c = c1 @ c2 \<and> s = s1 @ s2) \<longleftrightarrow> (\<exists>x c'. c = x # c' \<and> Q x b c' s)" (is "?L \<longleftrightarrow> ?R")
  proof
    show "?L \<Longrightarrow> ?R" by (auto simp: length_Suc_conv)
    assume ?R
    then obtain x c' where "c = [x] @ c'" "Q x b c' s" by auto
    then show ?L by (intro exI [of _ "[x]"] exI [of _ c'] exI [of _ "[]"] exI [of _ s]) simp
  qed
qed

lemma dialogue_read_2:
  assumes "\<And>x y. dialogue (f [x, y]) (Q x y)"
  shows "dialogue (seq_do (in_context g (read_exact 2)) f)
    (\<lambda>b c s. \<exists>x y c'. c = x # y # c' \<and> Q x y b c' s)"
proof (rule dialogue_cong)
  show "dialogue (seq_do (in_context g (read_exact 2)) f) (\<lambda>b c s. \<exists>a c1 c2 s1 s2.
      (c1 = a \<and> length a = 2 \<and> s1 = []) \<and> Q (a ! 0) (a ! 1) b c2 s2 \<and> c = c1 @ c2 \<and> s = s1 @ s2)"
    by (intro dialogue_seq dialogue_context dialogue_read) (use assms in \<open>auto simp: length_2_iff\<close>)
  fix b c s
  show "(\<exists>a c1 c2 s1 s2. (c1 = a \<and> length a = 2 \<and> s1 = []) \<and> Q (a ! 0) (a ! 1) b c2 s2 \<and>
      c = c1 @ c2 \<and> s = s1 @ s2) \<longleftrightarrow> (\<exists>x y c'. c = x # y # c' \<and> Q x y b c' s)" (is "?L \<longleftrightarrow> ?R")
  proof
    show "?L \<Longrightarrow> ?R" by (auto simp: length_2_iff)
    assume ?R
    then obtain x y c' where "c = [x, y] @ c'" "Q x y b c' s" by auto
    then show ?L by (intro exI [of _ "[x, y]"] exI [of _ c'] exI [of _ "[]"] exI [of _ s]) simp
  qed
qed

lemma dialogue_read_4:
  assumes "\<And>w x y z. dialogue (f [w, x, y, z]) (Q w x y z)"
  shows "dialogue (seq_do (in_context g (read_exact 4)) f)
    (\<lambda>b c s. \<exists>w x y z c'. c = w # x # y # z # c' \<and> Q w x y z b c' s)"
proof (rule dialogue_cong)
  show "dialogue (seq_do (in_context g (read_exact 4)) f) (\<lambda>b c s. \<exists>a c1 c2 s1 s2.
      (c1 = a \<and> length a = 4 \<and> s1 = []) \<and> Q (a ! 0) (a ! 1) (a ! 2) (a ! 3) b c2 s2 \<and>
      c = c1 @ c2 \<and> s = s1 @ s2)"
    by (intro dialogue_seq dialogue_context dialogue_read) (use assms in \<open>auto simp: length_4_iff\<close>)
  fix b c s
  show "(\<exists>a c1 c2 s1 s2. (c1 = a \<and> length a = 4 \<and> s1 = []) \<and> Q (a ! 0) (a ! 1) (a ! 2) (a ! 3) b c2 s2 \<and>
      c = c1 @ c2 \<and> s = s1 @ s2) \<longleftrightarrow> (\<exists>w x y z c'. c = w # x # y # z # c' \<and> Q w x y z b c' s)"
    (is "?L \<longleftrightarrow> ?R")
  proof
    show "?L \<Longrightarrow> ?R" by (auto simp: length_4_iff)
    assume ?R
    then obtain w x y z c' where "c = [w, x, y, z] @ c'" "Q w x y z b c' s" by auto
    then show ?L by (intro exI [of _ "[w, x, y, z]"] exI [of _ c'] exI [of _ "[]"] exI [of _ s]) simp
  qed
qed

lemmas dialogue_steps =
  dialogue_read_1 dialogue_read_2 dialogue_read_4 dialogue_seq dialogues

lemma dialogue_negotiate:
  "dialogue (negotiate_method has_auth)
     (\<lambda>m c s. c = [SOCKS5_VERSION, m] \<and> s = greeting has_auth \<and>
        (m = METHOD_NO_AUTH \<or> m = METHOD_USER_PASS \<and> has_auth))"
  unfolding negotiate_method_def
  by (rule dialogue_cong, (rule dialogue_steps)+) auto

lemma dialogue_authenticate:
  "dialogue (authenticate user pass)
     (\<lambda>u c s. (\<exists>v. c = [v, AUTH_SUCCESS]) \<and> s = auth_request user pass \<and>
        length user \<le> 255 \<and> length pass \<le> 255)"
  unfolding authenticate_def
  by (rule dialogue_cong, (rule dialogue_steps)+) auto

lemma dialogue_then_connect:
  assumes "\<And>u. dialogue (f u) Q"
  shows "dialogue (seq_do (authenticate user pass) f)
    (\<lambda>b c s. \<exists>v c' s'. c = v # AUTH_SUCCESS # c' \<and> s = auth_request user pass @ s' \<and>
       length user \<le> 255 \<and> length pass \<le> 255 \<and> Q b c' s')"
proof (rule dialogue_cong, rule dialogue_seq [OF dialogue_authenticate assms])
  fix b c s
  show "(\<exists>(a :: unit) c1 c2 s1 s2. ((\<exists>v. c1 = [v, AUTH_SUCCESS]) \<and> s1 = auth_request user pass \<and>
        length user \<le> 255 \<and> length pass \<le> 255) \<and> Q b c2 s2 \<and> c = c1 @ c2 \<and> s = s1 @ s2) \<longleftrightarrow>
      (\<exists>v c' s'. c = v # AUTH_SUCCESS # c' \<and> s = auth_request user pass @ s' \<and>
        length user \<le> 255 \<and> length pass \<le> 255 \<and> Q b c' s')" (is "?L \<longleftrightarrow> ?R")
  proof
    show "?L \<Longrightarrow> ?R" by auto
    assume ?R
    then obtain v c' s' where "c = [v, AUTH_SUCCESS] @ c'" "s = auth_request user pass @ s'"
      "length user \<le> 255" "length pass \<le> 255" "Q b c' s'" by auto
    then show ?L
      by (intro exI [of _ "()"] exI [of _ "[v, AUTH_SUCCESS]"] exI [of _ c'] exI [of _ "auth_request user pass"]
          exI [of _ s']) auto
  qed
qed

text \<open>A bound address of the given type, with its port.\<close>

definition bnd_address :: "u8 \<Rightarrow> bytes \<Rightarrow> bool" where
  "bnd_address atyp bs \<longleftrightarrow>
     atyp = ATYP_IPV4 \<and> length bs = 6
     \<or> atyp = ATYP_IPV6 \<and> length bs = 18
     \<or> atyp = ATYP_DOMAIN \<and> (\<exists>n r. bs = n # r \<and> length r = unat n + 2)"

lemma dialogue_skip_addr:
  "dialogue (skip_addr atyp) (\<lambda>u c s. bnd_address atyp c \<and> s = [])"
  unfolding skip_addr_def bnd_address_def
  by (rule dialogue_cong, (rule dialogue_steps)+) auto

lemma dialogue_connect:
  "dialogue (send_connect_request target)
     (\<lambda>u c s. connect_request target = Ok s \<and>
        (\<exists>rsv atyp bnd. c = [SOCKS5_VERSION, REP_SUCCESS, rsv, atyp] @ bnd \<and> bnd_address atyp bnd))"
proof (cases "connect_request target")
  case (Err e)
  then show ?thesis by (simp add: send_connect_request_def) (rule dialogue_fail)
next
  case (Ok req)
  show ?thesis unfolding send_connect_request_def Ok result.case
    by (rule dialogue_cong, (rule dialogue_steps dialogue_skip_addr)+) auto
qed

text \<open>What a proxy that grants the connection sends, and what it has been sent by then.\<close>

definition proxy_grants :: "(string \<times> string) option \<Rightarrow> u8 \<Rightarrow> bytes \<Rightarrow> bool" where
  "proxy_grants auth method reply \<longleftrightarrow>
     (\<exists>rsv atyp bnd. bnd_address atyp bnd \<and>
        (method = METHOD_NO_AUTH
         \<and> reply = [SOCKS5_VERSION, method] @ [SOCKS5_VERSION, REP_SUCCESS, rsv, atyp] @ bnd
         \<or> method = METHOD_USER_PASS \<and> auth \<noteq> None
         \<and> (\<exists>v. reply = [SOCKS5_VERSION, method] @ [v, AUTH_SUCCESS]
                    @ [SOCKS5_VERSION, REP_SUCCESS, rsv, atyp] @ bnd)))"

definition client_sends :: "(string \<times> string) option \<Rightarrow> u8 \<Rightarrow> bytes \<Rightarrow> bytes" where
  "client_sends auth method req =
     greeting (auth \<noteq> None)
     @ (if method = METHOD_USER_PASS
        then (case auth of None \<Rightarrow> [] | Some (user, pass) \<Rightarrow> auth_request user pass) else [])
     @ req"

definition short_credentials :: "(string \<times> string) option \<Rightarrow> bool" where
  "short_credentials auth \<longleftrightarrow>
     (case auth of None \<Rightarrow> True | Some (user, pass) \<Rightarrow> length user \<le> 255 \<and> length pass \<le> 255)"

lemma dialogue_handshake:
  assumes "short_credentials auth"
  shows "dialogue (socks5_handshake auth target)
    (\<lambda>u c s. \<exists>method req. connect_request target = Ok req \<and> proxy_grants auth method c
       \<and> s = client_sends auth method req)"
proof (cases auth)
  case None
  show ?thesis unfolding socks5_handshake_def None option.case
    by (rule dialogue_cong, (rule dialogue_steps dialogue_negotiate dialogue_connect)+)
      (auto simp: proxy_grants_def client_sends_def None intro: exI [of _ METHOD_NO_AUTH])
next
  case (Some up)
  obtain user pass where up: "up = (user, pass)" by fastforce
  have two: "seq_do (if m = METHOD_USER_PASS then authenticate user pass else yield ()) f =
      (if m = METHOD_USER_PASS then seq_do (authenticate user pass) f else f ())" for m f
    by (auto simp: seq_do_def yield_def)
  show ?thesis unfolding socks5_handshake_def Some up option.case prod.case two
    by (rule dialogue_cong, (rule dialogue_then_connect dialogue_steps dialogue_negotiate dialogue_connect)+)
      (use assms in \<open>auto simp: proxy_grants_def client_sends_def Some up short_credentials_def\<close>)
qed

section \<open>Correctness of the connector\<close>

text \<open>
  C18. SOCKS5 tunnels: over a stream whose writes work, and with credentials that fit their
  length bytes, the connector succeeds exactly when the proxy's bytes are a method selection
  it may answer, a successful login where that method asks for one, and a successful reply
  with a bound address. It has then sent the greeting, the login where asked, and the request
  for the target, and the tunnel starts with the first byte behind the reply, however the
  bytes were segmented.
\<close>

theorem socks5_connect_exact:
  assumes "tcp_connect (s5_server c) = Ok t" and "tx_fail t = []" and "short_credentials (s5_auth c)"
  shows "(\<exists>p. Socks5Connector_connect tcp_connect c target = Ok p
            \<and> ps_content tcp_content p = tunnel \<and> tx (ps_inner p) = tx t @ sent) \<longleftrightarrow>
         (\<exists>method reply req. tcp_content t = reply @ tunnel \<and> connect_request target = Ok req
            \<and> proxy_grants (s5_auth c) method reply
            \<and> sent = client_sends (s5_auth c) method req)" (is "?L \<longleftrightarrow> ?R")
proof
  note d = dialogue_handshake [OF assms(3), of target]
  {
    assume ?L
    then obtain t' where h: "socks5_handshake (s5_auth c) target t = (Ok (), t')"
      and "tcp_content t' = tunnel" "tx t' = tx t @ sent"
      using assms(1)
      by (auto simp: Socks5Connector_connect_def ProxyStream_new_def ps_content_def
          split: prod.splits result.splits)
    with dialogue_sound [OF d assms(2) h] show ?R by auto
  next
    assume ?R
    then obtain m reply req where r: "tcp_content t = reply @ tunnel"
      "connect_request target = Ok req" "proxy_grants (s5_auth c) m reply"
      "sent = client_sends (s5_auth c) m req" by blast
    from dialogue_complete [OF d assms(2) _ r(1), where a = "()" and s = sent] r
    obtain t' where "socks5_handshake (s5_auth c) target t = (Ok (), t')" "tcp_content t' = tunnel"
      "tx t' = tx t @ sent" by blast
    then show ?L using assms(1)
      by (simp add: Socks5Connector_connect_def ProxyStream_new_def ps_content_def)
  }
qed

definition sample_proxy :: tcp where
  "sample_proxy = \<lparr>rx = [[5], [0, 5, 0, 0, 1, 127, 0, 0], [1, 0, 0, 72, 73]], rx_end = Stalled,
     tx = [], tx_fail = []\<rparr>"

theorem socks5_connect_exact_witness:
  "\<exists>p. Socks5Connector_connect (\<lambda>_. Ok sample_proxy)
         \<lparr>s5_server = ''proxy:1080'', s5_auth = Some (''u'', ''p'')\<rparr> (Domain ''a'' 80) = Ok p
       \<and> ps_content tcp_content p = [72, 73]
       \<and> tx (ps_inner p) = [5, 2, 0, 2, 5, 1, 0, 3, 1, 97, 0, 80]"
proof -
  let ?c = "\<lparr>s5_server = ''proxy:1080'', s5_auth = Some (''u'', ''p'')\<rparr>"
  have req: "connect_request (Domain ''a'' 80) = Ok [5, 1, 0, 3, 1, 97, 0, 80]"
    by (simp add: to_be_bytes_u16 as_bytes_def byte_of_def)
  have "proxy_grants (s5_auth ?c) METHOD_NO_AUTH [5, 0, 5, 0, 0, 1, 127, 0, 0, 1, 0, 0]"
    by (simp add: proxy_grants_def bnd_address_def)
  moreover have "tcp_content sample_proxy = [5, 0, 5, 0, 0, 1, 127, 0, 0, 1, 0, 0] @ [72, 73]"
    by (simp add: tcp_content_def sample_proxy_def)
  moreover have "client_sends (s5_auth ?c) METHOD_NO_AUTH [5, 1, 0, 3, 1, 97, 0, 80] =
      [5, 2, 0, 2, 5, 1, 0, 3, 1, 97, 0, 80]"
    by (simp add: client_sends_def greeting_def)
  moreover have "short_credentials (s5_auth ?c)" by (simp add: short_credentials_def)
  ultimately show ?thesis
    using socks5_connect_exact [of "\<lambda>_. Ok sample_proxy" ?c sample_proxy "Domain ''a'' 80" "[72, 73]"
        "[5, 2, 0, 2, 5, 1, 0, 3, 1, 97, 0, 80]"] req
    by (fastforce simp: sample_proxy_def)
qed

text \<open>
  The request of RFC 1928, read back: version, command, reserved byte, address type, address
  and port.
\<close>

fun read_request :: "bytes \<Rightarrow> proxy_target option" where
  "read_request (ver # cmd # rsv # atyp # r) =
     (if ver \<noteq> 5 \<or> cmd \<noteq> 1 then None
      else if atyp = 1 \<and> length r = 6
      then Some (Ip (V4 (from_be_bytes (take 4 r))) (from_be_bytes (drop 4 r)))
      else if atyp = 4 \<and> length r = 18
      then Some (Ip (V6 (from_be_bytes (take 16 r))) (from_be_bytes (drop 16 r)))
      else if atyp = 3 \<and> r \<noteq> [] \<and> length r = unat (hd r) + 3
      then Some (Domain (of_bytes (take (unat (hd r)) (tl r))) (from_be_bytes (drop (unat (hd r)) (tl r))))
      else None)"
| "read_request _ = None"

text \<open>
  The request names the target: a proxy that reads the request by the RFC gets back exactly
  the target, the host name byte for byte, so the name is resolved by the proxy.
\<close>

lemma connect_request_roundtrip:
  assumes "connect_request target = Ok req"
  shows "read_request req = Some target"
  using assms
proof (cases target)
  case (Domain host port)
  with assms have "length host < 256" "req = 5 # 1 # 0 # 3 # of_nat (length host) # as_bytes host @ to_be_bytes port"
    by (auto split: if_splits)
  with Domain show ?thesis by (simp add: unat_of_nat_small)
next
  case (Ip a port)
  with assms show ?thesis by (cases a) (auto simp: octets_def)
qed

lemma read_exact_tx: "read_exact n t = (r, t') \<Longrightarrow> tx t' = tx t"
  by (auto simp: read_exact_def split: option.splits)

lemma skip_addr_tx: "skip_addr atyp t = (r, t') \<Longrightarrow> tx t' = tx t"
  by (auto simp: skip_addr_def seq_do_def in_context_def yield_def fail_def dest!: read_exact_tx
      split: if_splits prod.splits result.splits)

lemma send_connect_request_tx:
  assumes "tx_fail t = []" and "send_connect_request target t = (r, t')"
  shows "tx t' = tx t \<or> (\<exists>req. connect_request target = Ok req \<and> tx t' = tx t @ req)"
proof (cases "connect_request target")
  case (Ok req)
  obtain q t1 where q: "read_exact 4 (t\<lparr>tx := tx t @ req\<rparr>) = (q, t1)" by fastforce
  with assms Ok read_exact_tx [OF q] show ?thesis
    by (cases q) (auto simp: send_connect_request_def seq_do_def in_context_def fail_def
        dest!: skip_addr_tx split: if_splits prod.splits result.splits)
next
  case (Err e)
  with assms show ?thesis by (simp add: send_connect_request_def)
qed

text \<open>
  C34. Credentials stay at home unless asked for: whatever follows, when the proxy selects any
  method but the password method, nothing but the greeting and the request is ever sent.
\<close>

theorem credentials_only_on_demand:
  assumes "tcp_content t = SOCKS5_VERSION # method # rest" and "method \<noteq> METHOD_USER_PASS"
    and "tx_fail t = []" and "socks5_handshake auth target t = (res, t')"
  shows "tx t' = tx t @ greeting (auth \<noteq> None)
         \<or> (\<exists>req. connect_request target = Ok req \<and> tx t' = tx t @ greeting (auth \<noteq> None) @ req)"
proof -
  let ?g = "greeting (auth \<noteq> None)"
  let ?t = "t\<lparr>tx := tx t @ ?g\<rparr>"
  have c: "tcp_content ?t = [SOCKS5_VERSION, method] @ rest" using assms(1) by simp
  obtain t1 where t1: "read_exact 2 ?t = (Ok [SOCKS5_VERSION, method], t1)" "same_peer ?t t1"
    by (rule read_exact_prefix [OF c, of 2]) simp_all
  have n: "negotiate_method (auth \<noteq> None) t =
      (if method = METHOD_NO_AUTH then Ok METHOD_NO_AUTH
       else if method = METHOD_NO_ACCEPTABLE then Err NoAcceptableMethod
       else Err (UnknownMethod method), t1)"
    using assms(2,3) t1(1)
    by (simp add: negotiate_method_def seq_do_def in_context_def yield_def fail_def)
  have t1_tx: "tx t1 = tx t @ ?g" "tx_fail t1 = []" using t1(2) assms(3) by (simp_all add: same_peer_def)
  show ?thesis
  proof (cases "method = METHOD_NO_AUTH")
    case False
    with n assms(4) t1_tx show ?thesis by (auto simp: socks5_handshake_def seq_do_def split: if_splits)
  next
    case True
    with n assms(4) have c: "send_connect_request target t1 = (res, t')"
      by (simp add: socks5_handshake_def seq_do_def yield_def)
    from send_connect_request_tx [OF t1_tx(2) c] t1_tx(1) show ?thesis by auto
  qed
qed

theorem credentials_only_on_demand_witness:
  "tx (snd (socks5_handshake (Some (''u'', ''p'')) (Domain ''a'' 80) sample_proxy)) = [5, 2, 0, 2]
   \<or> tx (snd (socks5_handshake (Some (''u'', ''p'')) (Domain ''a'' 80) sample_proxy)) =
       [5, 2, 0, 2, 5, 1, 0, 3, 1, 97, 0, 80]"
proof -
  have "connect_request (Domain ''a'' 80) = Ok [5, 1, 0, 3, 1, 97, 0, 80]"
    by (simp add: to_be_bytes_u16 as_bytes_def byte_of_def)
  then show ?thesis
    using credentials_only_on_demand [of sample_proxy METHOD_NO_AUTH
        "[5, 0, 0, 1, 127, 0, 0, 1, 0, 0, 72, 73]" "Some (''u'', ''p'')" "Domain ''a'' 80",
        OF _ _ _ prod.collapse [symmetric]]
    by (simp add: sample_proxy_def tcp_content_def greeting_def)
qed

end
