(* ===== verification/Http.thy ===== *)
theory Http
  imports Proxy
begin

text \<open>
  \<open>src/proxy/http.rs\<close>: the HTTP CONNECT handshake over a buffered reader, the status line
  parser and the base64 encoder.
\<close>

section \<open>Buffered reading\<close>

text \<open>
  \<open>tokio::io::BufReader\<close>: the socket and the bytes read ahead and not yet consumed. One
  read waits for the next bytes, at most 8192 of them.
\<close>

record buf_reader =
  br_inner :: tcp
  br_buffer :: bytes

definition BUF_SIZE :: nat where
  "BUF_SIZE = 8192"

definition tcp_read :: "nat \<Rightarrow> (bytes, wait_error, tcp) action" where
  "tcp_read n t =
     (case dropWhile (\<lambda>c. c = []) (rx t) of
        [] \<Rightarrow> (case rx_end t of
                 Closed \<Rightarrow> (Ok [], t\<lparr>rx := []\<rparr>)
               | Failed e \<Rightarrow> (Err (Io e), t\<lparr>rx := []\<rparr>)
               | Stalled \<Rightarrow> (Err Hang, t\<lparr>rx := []\<rparr>))
      | c # cs \<Rightarrow> (Ok (take n c), t\<lparr>rx := drop n c # cs\<rparr>))"

definition br_content :: "buf_reader \<Rightarrow> bytes" where
  "br_content b = br_buffer b @ tcp_content (br_inner b)"

lemma concat_dropWhile_empty: "concat (dropWhile (\<lambda>c. c = []) cs) = concat cs"
  by (induction cs) auto

lemma tcp_read_some:
  assumes "tcp_content t \<noteq> []" and "0 < n"
  obtains bs t' where "tcp_read n t = (Ok bs, t')" and "bs \<noteq> []"
    and "tcp_content t = bs @ tcp_content t'" and "same_peer t t'"
proof -
  have c: "tcp_content t = concat (dropWhile (\<lambda>c. c = []) (rx t))"
    by (simp add: tcp_content_def concat_dropWhile_empty)
  then obtain d ds where d: "dropWhile (\<lambda>c. c = []) (rx t) = d # ds"
    using assms(1) by (cases "dropWhile (\<lambda>c. c = []) (rx t)") simp_all
  with hd_dropWhile [of "\<lambda>c. c = []" "rx t"] have "d \<noteq> []" by simp
  moreover have "tcp_read n t = (Ok (take n d), t\<lparr>rx := drop n d # ds\<rparr>)"
    by (simp add: tcp_read_def d)
  moreover have "tcp_content t = d @ concat ds" unfolding c d by simp
  moreover have "tcp_content (t\<lparr>rx := drop n d # ds\<rparr>) = drop n d @ concat ds"
    by (simp add: tcp_content_def)
  moreover have "same_peer t (t\<lparr>rx := drop n d # ds\<rparr>)" by (simp add: same_peer_def)
  ultimately show ?thesis
    using assms(2) by (intro that [of "take n d" "t\<lparr>rx := drop n d # ds\<rparr>"]) simp_all
qed

definition end_read :: "stream_end \<Rightarrow> (bytes, wait_error) result" where
  "end_read e = (case e of Closed \<Rightarrow> Ok [] | Failed er \<Rightarrow> Err (Io er) | Stalled \<Rightarrow> Err Hang)"

lemma tcp_read_end:
  assumes "tcp_content t = []"
  shows "tcp_read n t = (end_read (rx_end t), t\<lparr>rx := []\<rparr>)"
proof -
  have "concat (dropWhile (\<lambda>c. c = []) (rx t)) = []"
    using assms by (simp add: tcp_content_def concat_dropWhile_empty del: concat_eq_Nil_conv)
  then have d: "dropWhile (\<lambda>c. c = []) (rx t) = []"
    using hd_dropWhile [of "\<lambda>c. c = []" "rx t"]
    by (cases "dropWhile (\<lambda>c. c = []) (rx t)") simp_all
  show ?thesis unfolding tcp_read_def end_read_def d by (simp split: stream_end.split)
qed

lemma tcp_read_shrinks:
  assumes "tcp_read n t = (Ok bs, t')" and "bs \<noteq> []" and "0 < n"
  shows "length (tcp_content t') < length (tcp_content t)"
proof (cases "tcp_content t = []")
  case True
  with assms show ?thesis by (auto simp: tcp_read_end end_read_def split: stream_end.splits)
next
  case False
  then obtain cs t1 where "tcp_read n t = (Ok cs, t1)" "tcp_content t = cs @ tcp_content t1"
    using assms(3) by (rule tcp_read_some)
  with assms show ?thesis by simp
qed

text \<open>
  \<open>read_until\<close> the newline: what is buffered up to it, and more reads while there is
  none. At the end of the stream it gives what it has.
\<close>

function read_until :: "u8 \<Rightarrow> bytes \<Rightarrow> (bytes, wait_error, buf_reader) action" where
  "read_until d acc b =
     (case split_once d (br_buffer b) of
        Some (l, r) \<Rightarrow> (Ok (acc @ l @ [d]), b\<lparr>br_buffer := r\<rparr>)
      | None \<Rightarrow>
          (case tcp_read BUF_SIZE (br_inner b) of
             (Err e, t) \<Rightarrow> (Err e, \<lparr>br_inner = t, br_buffer = []\<rparr>)
           | (Ok bs, t) \<Rightarrow>
               if bs = [] then (Ok (acc @ br_buffer b), \<lparr>br_inner = t, br_buffer = []\<rparr>)
               else read_until d (acc @ br_buffer b) \<lparr>br_inner = t, br_buffer = bs\<rparr>))"
  by pat_completeness auto
termination
  by (relation "measure (\<lambda>(d, acc, b). length (tcp_content (br_inner b)))")
    (auto simp: BUF_SIZE_def dest: tcp_read_shrinks [OF sym])

declare read_until.simps [simp del]

definition read_line :: "(string, wait_error, buf_reader) action" where
  "read_line b =
     (case read_until 10 [] b of
        (Err e, b') \<Rightarrow> (Err e, b')
      | (Ok bs, b') \<Rightarrow>
          (case from_utf8 bs of None \<Rightarrow> (Err (Io (Custom InvalidData)), b') | Some s \<Rightarrow> (Ok s, b')))"

section \<open>The handshake\<close>

datatype http_error =
    HttpTcp io_error
  | HttpWrite wait_error
  | HttpReadStatus wait_error
  | HttpReadHeader wait_error
  | HttpNotHttp string
  | HttpMalformed string
  | HttpBadCode string
  | HttpStatus nat

definition parse_status_code :: "string \<Rightarrow> (nat, http_error) result" where
  "parse_status_code status_line =
     (let (version, rest) = (case split_once (CHR '' '') status_line of
                               None \<Rightarrow> (status_line, None)
                             | Some (v, r) \<Rightarrow> (v, Some r))
      in if \<not> starts_with ''HTTP/'' version then Err (HttpNotHttp status_line)
         else case rest of
           None \<Rightarrow> Err (HttpMalformed status_line)
         | Some r \<Rightarrow>
             (let code_str = (case split_once (CHR '' '') r of None \<Rightarrow> r | Some (c, _) \<Rightarrow> c)
              in ok_or (parse_uint 65535 code_str) (HttpBadCode code_str)))"

subsection \<open>Base64\<close>

definition B64_ALPHABET :: string where
  "B64_ALPHABET = ''ABCDEFGHIJKLMNOPQRSTUVWXYZabcdefghijklmnopqrstuvwxyz0123456789+/''"

fun chunks_3 :: "'a list \<Rightarrow> 'a list list" where
  "chunks_3 (a # b # c # r) = [a, b, c] # chunks_3 r"
| "chunks_3 [] = []"
| "chunks_3 r = [r]"

definition encode_chunk :: "bytes \<Rightarrow> string" where
  "encode_chunk chunk =
     (let b0 = ucast (chunk ! 0) :: u32;
          b1 = (if length chunk > 1 then ucast (chunk ! 1) else 0);
          b2 = (if length chunk > 2 then ucast (chunk ! 2) else 0);
          combined = (push_bit 16 b0 OR push_bit 8 b1) OR b2
      in [B64_ALPHABET ! unat (drop_bit 18 combined AND 0x3F),
          B64_ALPHABET ! unat (drop_bit 12 combined AND 0x3F),
          if length chunk > 1 then B64_ALPHABET ! unat (drop_bit 6 combined AND 0x3F) else CHR ''='',
          if length chunk > 2 then B64_ALPHABET ! unat (combined AND 0x3F) else CHR ''=''])"

definition base64_encode :: "bytes \<Rightarrow> string" where
  "base64_encode input = concat (map encode_chunk (chunks_3 input))"

subsection \<open>The request and the response\<close>

definition CRLF :: string where
  "CRLF = [CR, LF]"

definition connect_head :: "proxy_target \<Rightarrow> (string \<times> string) option \<Rightarrow> string" where
  "connect_head target auth =
     ''CONNECT '' @ show_proxy_target target @ '' HTTP/1.1'' @ CRLF
     @ ''Host: '' @ show_proxy_target target @ CRLF
     @ (case auth of
          None \<Rightarrow> []
        | Some (user, pass) \<Rightarrow>
            ''Proxy-Authorization: Basic '' @ base64_encode (as_bytes (user @ '':'' @ pass)) @ CRLF)
     @ CRLF"

text \<open>The rest of the response head is read to the first blank line.\<close>

definition trimmed :: "string \<Rightarrow> string" where
  "trimmed l = trim_end_matches [CR, LF] l"

lemma trimmed_Nil [simp]: "trimmed [] = []"
  by (simp add: trimmed_def trim_end_matches_def)

section \<open>What a buffered reader reads\<close>

lemma split_once_free: "d \<notin> set s \<Longrightarrow> split_once d s = None"
  by simp

lemma read_until_hit:
  "split_once d (br_buffer b) = Some (l, r) \<Longrightarrow>
     read_until d acc b = (Ok (acc @ l @ [d]), b\<lparr>br_buffer := r\<rparr>)"
  by (subst read_until.simps) simp

lemma read_until_more:
  "d \<notin> set (br_buffer b) \<Longrightarrow> tcp_read BUF_SIZE (br_inner b) = (Ok bs, t) \<Longrightarrow> bs \<noteq> [] \<Longrightarrow>
     read_until d acc b = read_until d (acc @ br_buffer b) \<lparr>br_inner = t, br_buffer = bs\<rparr>"
  by (subst read_until.simps) (simp add: split_once_free)

lemma read_until_end:
  "d \<notin> set (br_buffer b) \<Longrightarrow> tcp_content (br_inner b) = [] \<Longrightarrow>
     read_until d acc b =
       (case end_read (rx_end (br_inner b)) of Ok _ \<Rightarrow> Ok (acc @ br_buffer b) | Err e \<Rightarrow> Err e,
        \<lparr>br_inner = (br_inner b)\<lparr>rx := []\<rparr>, br_buffer = []\<rparr>)"
  by (subst read_until.simps)
    (simp add: split_once_free tcp_read_end end_read_def split: stream_end.split)

lemma read_until_found:
  "br_content b = l @ d # rest \<Longrightarrow> d \<notin> set l \<Longrightarrow>
     \<exists>b'. read_until d acc b = (Ok (acc @ l @ [d]), b') \<and> br_content b' = rest
        \<and> same_peer (br_inner b) (br_inner b')"
proof (induction d acc b arbitrary: l rule: read_until.induct)
  case (1 d acc b)
  have s: "split_once d (br_content b) = Some (l, rest)"
    using "1.prems" by (simp add: split_once_Some_iff)
  show ?case
  proof (cases "split_once d (br_buffer b)")
    case (Some lr)
    then obtain r where "br_buffer b = l @ d # r" "lr = (l, r)"
      using s by (cases lr) (auto simp: split_once_Some_iff br_content_def split_once_append)
    then show ?thesis using read_until_hit [of d b l r acc] Some "1.prems"
      by (simp add: br_content_def same_peer_def)
  next
    case None
    then have free: "d \<notin> set (br_buffer b)" by simp
    with s obtain l2 where l2: "split_once d (tcp_content (br_inner b)) = Some (l2, rest)"
      "l = br_buffer b @ l2" by (auto simp: br_content_def split_once_append)
    then have "tcp_content (br_inner b) \<noteq> []" by auto
    then obtain bs t where t: "tcp_read BUF_SIZE (br_inner b) = (Ok bs, t)" "bs \<noteq> []"
      "tcp_content (br_inner b) = bs @ tcp_content t" "same_peer (br_inner b) t"
      by (rule tcp_read_some [of _ BUF_SIZE]) (simp add: BUF_SIZE_def)
    let ?b = "\<lparr>br_inner = t, br_buffer = bs\<rparr>"
    have "br_content ?b = l2 @ d # rest" "d \<notin> set l2"
      using l2(1) t(3) by (simp_all add: br_content_def split_once_Some_iff)
    from "1.IH" [OF None t(1) [symmetric] refl t(2) this] show ?thesis
      using read_until_more [OF free t(1,2), of acc] t(4) l2(2) by (auto simp: same_peer_def)
  qed
qed

lemma read_until_missing:
  "d \<notin> set (br_content b) \<Longrightarrow>
     \<exists>b'. read_until d acc b =
           (case end_read (rx_end (br_inner b)) of Ok _ \<Rightarrow> Ok (acc @ br_content b) | Err e \<Rightarrow> Err e, b')
        \<and> br_content b' = [] \<and> same_peer (br_inner b) (br_inner b')"
proof (induction d acc b rule: read_until.induct)
  case (1 d acc b)
  then have free: "d \<notin> set (br_buffer b)" by (simp add: br_content_def)
  show ?case
  proof (cases "tcp_content (br_inner b) = []")
    case True
    have "tcp_content ((br_inner b)\<lparr>rx := []\<rparr>) = []" by (simp add: tcp_content_def)
    with read_until_end [OF free True, of acc] True show ?thesis
      by (simp add: br_content_def same_peer_def cong: result.case_cong)
  next
    case False
    then obtain bs t where t: "tcp_read BUF_SIZE (br_inner b) = (Ok bs, t)" "bs \<noteq> []"
      "tcp_content (br_inner b) = bs @ tcp_content t" "same_peer (br_inner b) t"
      by (rule tcp_read_some [of _ BUF_SIZE]) (simp add: BUF_SIZE_def)
    have "d \<notin> set (br_content \<lparr>br_inner = t, br_buffer = bs\<rparr>)"
      using "1.prems" t(3) by (simp add: br_content_def)
    from "1.IH" [OF split_once_free [OF free] t(1) [symmetric] refl t(2) this] show ?thesis
      using read_until_more [OF free t(1,2), of acc] t(3,4)
      by (auto simp: same_peer_def br_content_def cong: result.case_cong)
  qed
qed

section \<open>The response head\<close>

text \<open>A line of the head: valid text that ends with its only newline.\<close>

definition head_line :: "string \<Rightarrow> bool" where
  "head_line l \<longleftrightarrow> utf8_valid (as_bytes l) \<and> (\<exists>m. l = m @ [LF] \<and> LF \<notin> set m)"

lemma byte_LF: "byte_of LF = 10"
  by (simp add: byte_of_def)

lemma byte_of_LF: "byte_of c = 10 \<longleftrightarrow> c = LF"
  by (metis byte_LF byte_of_inject)

lemma as_bytes_LF [simp]: "as_bytes [LF] = [10]"
  by (simp add: as_bytes_def byte_LF)

lemma of_bytes_LF [simp]: "of_bytes [10] = [LF]"
  by (metis as_bytes_LF of_bytes_as_bytes)

lemma as_bytes_line: "as_bytes (m @ [LF]) = as_bytes m @ [10]"
  by simp

lemma newline_in_bytes: "10 \<in> set (as_bytes l) \<longleftrightarrow> LF \<in> set l"
  by (auto simp: as_bytes_def image_iff) (metis byte_of_LF)+

lemma read_line_found:
  assumes "br_content b = as_bytes l @ rest" and "head_line l"
  shows "\<exists>b'. read_line b = (Ok l, b') \<and> br_content b' = rest \<and> same_peer (br_inner b) (br_inner b')"
proof -
  obtain m where m: "l = m @ [LF]" "LF \<notin> set m" using assms(2) by (auto simp: head_line_def)
  then have "br_content b = as_bytes m @ 10 # rest" "10 \<notin> set (as_bytes m)"
    using assms(1) by (simp_all add: newline_in_bytes as_bytes_line)
  from read_until_found [OF this, of "[]"] have "\<exists>b'. read_until 10 [] b = (Ok (as_bytes l), b')
      \<and> br_content b' = rest \<and> same_peer (br_inner b) (br_inner b')"
    by (simp only: m as_bytes_line append_Nil)
  with assms(2) show ?thesis by (auto simp: read_line_def from_utf8_def head_line_def)
qed

lemma read_line_Ok:
  assumes "read_line b = (Ok l, b')"
  shows "br_content b = as_bytes l @ br_content b' \<and> same_peer (br_inner b) (br_inner b')
    \<and> (head_line l \<or> LF \<notin> set l \<and> br_content b' = [] \<and> rx_end (br_inner b) = Closed)"
proof (cases "10 \<in> set (br_content b)")
  case True
  then obtain m r where m: "br_content b = m @ 10 # r" "10 \<notin> set m" by (meson split_list_first)
  from read_until_found [OF this, of "[]"] assms have "as_bytes l = m @ [10]" "br_content b' = r"
    "same_peer (br_inner b) (br_inner b')" "utf8_valid (as_bytes l)"
    by (auto simp: read_line_def from_utf8_Some_iff split: option.splits)
  moreover have "l = of_bytes m @ [LF]"
    using \<open>as_bytes l = m @ [10]\<close> as_bytes_line [of "of_bytes m"]
    by (metis as_bytes_of_bytes of_bytes_as_bytes)
  ultimately show ?thesis using m newline_in_bytes [of "of_bytes m"] by (auto simp: head_line_def)
next
  case False
  from read_until_missing [OF this, of "[]"] assms show ?thesis
    using False newline_in_bytes [of l]
    by (auto simp: read_line_def from_utf8_Some_iff end_read_def split: option.splits stream_end.splits)
qed

lemma read_line_shrinks:
  assumes "read_line b = (Ok l, b')" and "trimmed l \<noteq> []"
  shows "length (br_content b') < length (br_content b)"
proof -
  have "l \<noteq> []" using assms(2) by auto
  with read_line_Ok [OF assms(1)] show ?thesis by simp
qed

function drain_headers :: "(unit, http_error, buf_reader) action" where
  "drain_headers b =
     (case read_line b of
        (Err e, b') \<Rightarrow> (Err (HttpReadHeader e), b')
      | (Ok line, b') \<Rightarrow> if trimmed line = [] then (Ok (), b') else drain_headers b')"
  by pat_completeness auto
termination
  by (relation "measure (\<lambda>b. length (br_content b))") (auto dest: read_line_shrinks [OF sym])

declare drain_headers.simps [simp del]

definition do_connect ::
  "tcp \<Rightarrow> proxy_target \<Rightarrow> (string \<times> string) option \<Rightarrow> (tcp proxy_stream, http_error) result" where
  "do_connect stream target auth =
     (case write_all (as_bytes (connect_head target auth)) stream of
        (Err e, t) \<Rightarrow> Err (HttpWrite e)
      | (Ok u, t) \<Rightarrow>
          (case read_line \<lparr>br_inner = t, br_buffer = []\<rparr> of
             (Err e, b) \<Rightarrow> Err (HttpReadStatus e)
           | (Ok line, b) \<Rightarrow>
               and_then (parse_status_code (trimmed line)) (\<lambda>status_code.
                 if status_code \<noteq> 200 then Err (HttpStatus status_code)
                 else (case drain_headers b of
                         (Err e, b') \<Rightarrow> Err e
                       | (Ok u, b') \<Rightarrow> Ok (ProxyStream_new (br_inner b') (br_buffer b'))))))"

record http_connector =
  h_server :: string
  h_auth :: "(string \<times> string) option"

definition HttpConnector_connect ::
  "(string \<Rightarrow> tcp io_result) \<Rightarrow> http_connector \<Rightarrow> proxy_target
     \<Rightarrow> (tcp proxy_stream, http_error) result" where
  "HttpConnector_connect tcp_connect c target =
     (case tcp_connect (h_server c) of
        Err e \<Rightarrow> Err (HttpTcp e)
      | Ok stream \<Rightarrow> do_connect stream target (h_auth c))"

section \<open>Correctness of the connector\<close>

text \<open>A response head that grants the tunnel: status 200, header lines, a blank line.\<close>

definition header_block :: "string list \<Rightarrow> bool" where
  "header_block ls \<longleftrightarrow>
     ls \<noteq> [] \<and> list_all head_line ls \<and> list_all (\<lambda>l. trimmed l \<noteq> []) (butlast ls) \<and> trimmed (last ls) = []"

definition grants_tunnel :: "string \<Rightarrow> string list \<Rightarrow> bool" where
  "grants_tunnel status headers \<longleftrightarrow>
     head_line status \<and> parse_status_code (trimmed status) = Ok 200 \<and> header_block headers"

lemma header_block_Cons:
  "header_block (l # ls) \<longleftrightarrow>
     head_line l \<and> (if trimmed l = [] then ls = [] else header_block ls)"
  by (auto simp: header_block_def)

lemma drain_headers_block:
  "br_content b = as_bytes (concat ls) @ rest \<Longrightarrow> header_block ls \<Longrightarrow>
     \<exists>b'. drain_headers b = (Ok (), b') \<and> br_content b' = rest \<and> same_peer (br_inner b) (br_inner b')"
proof (induction ls arbitrary: b)
  case Nil
  then show ?case by (simp add: header_block_def)
next
  case (Cons l ls)
  have c: "br_content b = as_bytes l @ as_bytes (concat ls) @ rest" and "head_line l"
    using Cons.prems by (simp_all add: header_block_Cons)
  then obtain b1 where b1: "read_line b = (Ok l, b1)" "br_content b1 = as_bytes (concat ls) @ rest"
    "same_peer (br_inner b) (br_inner b1)" using read_line_found by blast
  show ?case
  proof (cases "trimmed l = []")
    case True
    with Cons.prems(2) b1 show ?thesis by (subst drain_headers.simps) (simp add: header_block_Cons)
  next
    case False
    with Cons.IH [OF b1(2)] Cons.prems(2) obtain b2 where "drain_headers b1 = (Ok (), b2)"
      "br_content b2 = rest" "same_peer (br_inner b1) (br_inner b2)" by (auto simp: header_block_Cons)
    with False b1 show ?thesis by (subst drain_headers.simps) (auto simp: same_peer_def)
  qed
qed

lemma drain_headers_Ok:
  "drain_headers b = (Ok u, b') \<Longrightarrow> rx_end (br_inner b) \<noteq> Closed \<Longrightarrow>
     same_peer (br_inner b) (br_inner b')
     \<and> (\<exists>ls. header_block ls \<and> br_content b = as_bytes (concat ls) @ br_content b')"
proof (induction b rule: drain_headers.induct)
  case (1 b)
  obtain r b1 where r: "read_line b = (r, b1)" by fastforce
  with "1.prems" obtain l where l: "r = Ok l"
    by (cases r) (auto simp: drain_headers.simps [of b])
  note ok = read_line_Ok [OF r [unfolded l]]
  have h: "head_line l" using ok "1.prems"(2) by blast
  show ?case
  proof (cases "trimmed l = []")
    case True
    with r l "1.prems"(1) have "b' = b1" by (simp add: drain_headers.simps [of b])
    with ok h True show ?thesis
      by (intro conjI exI [of _ "[l]"]) (simp_all add: header_block_def)
  next
    case False
    with r l "1.prems"(1) have d: "drain_headers b1 = (Ok u, b')" by (simp add: drain_headers.simps [of b])
    from "1.IH" [OF r [symmetric] l False d] ok "1.prems"(2) obtain ls where
      "header_block ls" "br_content b1 = as_bytes (concat ls) @ br_content b'"
      "same_peer (br_inner b1) (br_inner b')" by (auto simp: same_peer_def)
    with ok h False show ?thesis
      by (intro conjI exI [of _ "l # ls"]) (simp_all add: header_block_Cons same_peer_def)
  qed
qed


lemmas text_eval =
  as_bytes_def byte_of_def split_once.simps parse_uint.simps parse_digits.simps to_digit_def
  starts_with_def strip_prefix.simps trim_end_matches_def

definition sample_reply :: tcp where
  "sample_reply =
     \<lparr>rx = [as_bytes ''HTTP/1.1 2'', as_bytes (''00 OK'' @ CRLF @ ''A: b'' @ CRLF), as_bytes (CRLF @ ''HI'')],
      rx_end = Stalled, tx = [], tx_fail = []\<rparr>"

lemma status_200: "parse_status_code ''HTTP/1.1 200 OK'' = Ok 200"
  by (simp add: parse_status_code_def Let_def text_eval)

lemma trim_crlf [simp]:
  "trimmed (l @ [CR, LF]) = trimmed l"
  "trimmed [CR, LF] = []"
  by (simp_all add: trimmed_def trim_end_matches_def)


text \<open>
  C39. End of the response counts as a blank line: a proxy that sends the status line and closes
  the connection is taken to have opened the tunnel, although no blank line ended its headers.
\<close>

theorem http_eof_accepted:
  assumes "tcp_content t = as_bytes status" and "head_line status"
    and "parse_status_code (trimmed status) = Ok 200" and "tx_fail t = []" and "rx_end t = Closed"
  shows "\<exists>p. do_connect t target auth = Ok p \<and> ps_content tcp_content p = []"
proof -
  let ?t = "t\<lparr>tx := tx t @ as_bytes (connect_head target auth)\<rparr>"
  let ?b = "\<lparr>br_inner = ?t, br_buffer = []\<rparr>"
  have "br_content ?b = as_bytes status @ []" using assms(1) by (simp add: br_content_def)
  from read_line_found [OF this assms(2)] obtain b1 where b1: "read_line ?b = (Ok status, b1)"
    "br_content b1 = []" "rx_end (br_inner b1) = Closed" using assms(5) by (auto simp: same_peer_def)
  then obtain b2 where b2: "read_line b1 = (Ok [], b2)" "br_content b2 = []"
    using read_until_missing [of 10 b1 "[]"]
    by (auto simp: read_line_def end_read_def from_utf8_def of_bytes_def)
  have "drain_headers b1 = (Ok (), b2)" using b2(1) by (subst drain_headers.simps) simp
  with b1 b2 assms(3,4) show ?thesis
    by (auto simp: do_connect_def ProxyStream_new_def ps_content_def br_content_def)
qed

theorem http_eof_accepted_witness:
  "\<exists>p. do_connect \<lparr>rx = [as_bytes (''HTTP/1.1 200 OK'' @ CRLF)], rx_end = Closed, tx = [], tx_fail = []\<rparr>
         (Domain ''a'' 80) None = Ok p \<and> ps_content tcp_content p = []"
proof -
  have "head_line (''HTTP/1.1 200 OK'' @ CRLF)"
    by (simp add: head_line_def CRLF_def text_eval cont_def)
  moreover have "parse_status_code (trimmed (''HTTP/1.1 200 OK'' @ CRLF)) = Ok 200"
    unfolding CRLF_def trim_crlf by (simp add: trimmed_def trim_end_matches_def status_200)
  ultimately show ?thesis
    by (intro http_eof_accepted [of _ "''HTTP/1.1 200 OK'' @ CRLF"]) (simp_all add: tcp_content_def)
qed

section \<open>Base64\<close>

text \<open>The decoder of RFC 4648, as the proxy runs it on the credentials.\<close>

definition b64_value :: "char \<Rightarrow> u32" where
  "b64_value c = of_nat (length (takeWhile (\<lambda>d. d \<noteq> c) B64_ALPHABET))"

definition decode_quad :: "char \<Rightarrow> char \<Rightarrow> char \<Rightarrow> char \<Rightarrow> bytes" where
  "decode_quad a b c d =
     (let n = push_bit 18 (b64_value a) OR push_bit 12 (b64_value b)
              OR push_bit 6 (if c = CHR ''='' then 0 else b64_value c)
              OR (if d = CHR ''='' then 0 else b64_value d)
      in ucast (drop_bit 16 n)
         # (if c = CHR ''='' then [] else [ucast (drop_bit 8 n)])
         @ (if d = CHR ''='' then [] else [ucast n]))"

fun base64_decode :: "string \<Rightarrow> bytes option" where
  "base64_decode [] = Some []"
| "base64_decode (a # b # c # d # r) = map_option (\<lambda>bs. decode_quad a b c d @ bs) (base64_decode r)"
| "base64_decode _ = None"

lemma alphabet: "distinct B64_ALPHABET" "length B64_ALPHABET = 64" "CHR ''='' \<notin> set B64_ALPHABET"
  by (simp_all add: B64_ALPHABET_def)

lemma takeWhile_nth_distinct: "distinct xs \<Longrightarrow> i < length xs \<Longrightarrow> takeWhile (\<lambda>d. d \<noteq> xs ! i) xs = take i xs"
  by (intro takeWhile_eq_take_P_nth) (auto simp: nth_eq_iff_index_eq)

lemma mask_6: "(0x3F :: u32) = mask 6"
  by (simp add: mask_eq_decr_exp)

lemma six_bits: "unat ((w :: u32) AND 0x3F) < 64"
proof -
  have "unat (take_bit 6 w) < 2 ^ 6"
    unfolding unsigned_take_bit_eq by (rule take_bit_nat_less_exp)
  then show ?thesis by (simp add: mask_6 take_bit_eq_mask)
qed

lemma b64_value_nth: "b64_value (B64_ALPHABET ! unat ((w :: u32) AND 0x3F)) = w AND 0x3F"
  using six_bits [of w] alphabet by (simp add: b64_value_def takeWhile_nth_distinct)

lemma b64_nth_not_pad: "B64_ALPHABET ! unat ((w :: u32) AND 0x3F) \<noteq> CHR ''=''"
  using six_bits [of w] alphabet by (metis nth_mem)

lemma sextets:
  "push_bit 18 (drop_bit 18 (w :: u32) AND 0x3F) OR push_bit 12 (drop_bit 12 w AND 0x3F)
     OR push_bit 6 (drop_bit 6 w AND 0x3F) OR (w AND 0x3F) = take_bit 24 w"
  unfolding mask_6
proof (rule bit_word_eqI)
  fix n assume "n < LENGTH(32)"
  consider "n < 6" | "6 \<le> n" "n < 12" | "12 \<le> n" "n < 18" | "18 \<le> n" "n < 24" | "24 \<le> n" by linarith
  then show "bit (push_bit 18 (drop_bit 18 w AND mask 6) OR push_bit 12 (drop_bit 12 w AND mask 6)
      OR push_bit 6 (drop_bit 6 w AND mask 6) OR (w AND mask 6)) n = bit (take_bit 24 w) n"
    using \<open>n < LENGTH(32)\<close> by cases (auto simp: bit_simps)
qed

lemma octets_of_chunk:
  fixes a b c :: u8
  defines "w \<equiv> (push_bit 16 (ucast a) OR push_bit 8 (ucast b)) OR ucast c :: u32"
  shows "take_bit 24 w = w" and "ucast (drop_bit 16 w) = a" and "ucast (drop_bit 8 w) = b" and "ucast w = c"
  unfolding w_def
  by (auto simp: word_eq_iff_bits bit_simps not_le dest: bit_imp_le_length)

lemma low_sextets_zero:
  "((push_bit 16 (ucast (a :: u8)) OR push_bit 8 (ucast (b :: u8))) OR ucast (0 :: u8) :: u32) AND 0x3F = 0"
  "drop_bit 6 ((push_bit 16 (ucast (a :: u8)) OR push_bit 8 (ucast (0 :: u8))) OR ucast (0 :: u8) :: u32)
     AND 0x3F = 0"
  unfolding mask_6 by (auto simp: word_eq_iff_bits bit_simps not_le dest: bit_imp_le_length)

abbreviation sextet :: "u32 \<Rightarrow> char" where
  "sextet w \<equiv> B64_ALPHABET ! unat (w AND 0x3F)"

lemma decode_three:
  "decode_quad (sextet (drop_bit 18 w)) (sextet (drop_bit 12 w)) (sextet (drop_bit 6 w)) (sextet w) =
     [ucast (drop_bit 16 (take_bit 24 w)), ucast (drop_bit 8 (take_bit 24 w)), ucast (take_bit 24 w)]"
  by (simp only: decode_quad_def Let_def b64_value_nth b64_nth_not_pad if_False sextets append.simps)

lemma decode_two:
  assumes "w AND 0x3F = 0"
  shows "decode_quad (sextet (drop_bit 18 w)) (sextet (drop_bit 12 w)) (sextet (drop_bit 6 w)) (CHR ''='') =
    [ucast (drop_bit 16 (take_bit 24 w)), ucast (drop_bit 8 (take_bit 24 w))]"
  by (simp only: decode_quad_def Let_def b64_value_nth b64_nth_not_pad if_False if_True simp_thms
      sextets [of w, unfolded assms] append.simps append_Nil2)

lemma decode_one:
  assumes "w AND 0x3F = 0" and "drop_bit 6 w AND 0x3F = 0"
  shows "decode_quad (sextet (drop_bit 18 w)) (sextet (drop_bit 12 w)) (CHR ''='') (CHR ''='') =
    [ucast (drop_bit 16 (take_bit 24 w))]"
  by (simp only: decode_quad_def Let_def b64_value_nth if_True simp_thms
      sextets [of w, unfolded assms] append.simps append_Nil2)

lemma decode_encode_chunk:
  assumes "chunk = [a, b, c] \<or> chunk = [a, b] \<or> chunk = [a]"
  obtains w x y z where "encode_chunk chunk = [w, x, y, z]" and "decode_quad w x y z = chunk"
proof -
  let ?w = "\<lambda>a b c. (push_bit 16 (ucast a) OR push_bit 8 (ucast b)) OR ucast c :: u32"
  have "decode_quad (encode_chunk chunk ! 0) (encode_chunk chunk ! 1) (encode_chunk chunk ! 2)
      (encode_chunk chunk ! 3) = chunk"
    using assms
  proof (elim disjE)
    assume "chunk = [a, b, c]"
    then show ?thesis
      using decode_three [of "?w a b c", unfolded octets_of_chunk]
      by (simp add: encode_chunk_def Let_def numeral_3_eq_3)
  next
    assume "chunk = [a, b]"
    then show ?thesis
      using decode_two [OF low_sextets_zero(1) [of a b], unfolded octets_of_chunk]
      by (simp add: encode_chunk_def Let_def numeral_3_eq_3)
  next
    assume "chunk = [a]"
    then show ?thesis
      using decode_one [OF low_sextets_zero(1) low_sextets_zero(2) [of a], unfolded octets_of_chunk]
      by (simp add: encode_chunk_def Let_def numeral_3_eq_3)
  qed
  moreover have "length (encode_chunk chunk) = 4" by (simp add: encode_chunk_def Let_def)
  then have "encode_chunk chunk = [encode_chunk chunk ! 0, encode_chunk chunk ! 1,
      encode_chunk chunk ! 2, encode_chunk chunk ! 3]"
    by (auto simp: numeral_eq_Suc length_Suc_conv)
  ultimately show ?thesis using that by metis
qed


end
