(* ===== verification/Direct.thy ===== *)
theory Direct
  imports Proxy
begin

text \<open>
  \<open>src/proxy/direct.rs\<close>: resolving a name on the host with a bounded number of native
  lookups, and connecting to the addresses in order under one deadline.

  The resolver of the C library, the connection attempts of the kernel and the time each of
  them takes are arguments. A call that never completes has no duration.
\<close>

section \<open>The native resolver\<close>

abbreviation EAI_NONAME :: int where "EAI_NONAME \<equiv> -2"
abbreviation EAI_AGAIN :: int where "EAI_AGAIN \<equiv> -3"
abbreviation EAI_NODATA :: int where "EAI_NODATA \<equiv> -5"
abbreviation EAI_ADDRFAMILY :: int where "EAI_ADDRFAMILY \<equiv> -9"
abbreviation EAI_SYSTEM :: int where "EAI_SYSTEM \<equiv> -11"
abbreviation AF_INET :: int where "AF_INET \<equiv> 2"

text \<open>
  An entry of the list \<open>getaddrinfo\<close> returns: its family, the length of its address, and
  \<open>sin_addr.s_addr\<close> of that address unless the pointer is null. A \<open>sockaddr_in\<close> has 16
  bytes.
\<close>

record addrinfo =
  ai_family :: int
  ai_addrlen :: nat
  ai_addr :: "u32 option"

text \<open>The answer of the resolver: its error code, the errno, and the entries.\<close>

record gai =
  gai_error :: int
  gai_errno :: int
  gai_entries :: "addrinfo list"

definition entry_address :: "addrinfo \<Rightarrow> ipv4 option" where
  "entry_address entry =
     (if ai_family entry = AF_INET \<and> ai_addr entry \<noteq> None \<and> ai_addrlen entry \<ge> 16
      then map_option (\<lambda>s. from_be_bytes (to_ne_bytes s)) (ai_addr entry) else None)"

fun collect_addresses :: "addrinfo list \<Rightarrow> ipv4 list \<Rightarrow> ipv4 list" where
  "collect_addresses [] addresses = addresses"
| "collect_addresses (entry # rest) addresses =
     collect_addresses rest
       (case entry_address entry of
          None \<Rightarrow> addresses
        | Some ip \<Rightarrow> if ip \<in> set addresses then addresses else addresses @ [ip])"

definition resolve_ipv4 :: "(string \<Rightarrow> gai) \<Rightarrow> string \<Rightarrow> ipv4 list io_result" where
  "resolve_ipv4 getaddrinfo domain =
     (if domain = [] then Err (Os EHOSTUNREACH)
      else if CHR 0x00 \<in> set domain then Err (Os EINVAL)
      else let g = getaddrinfo domain
           in if gai_error g = 0 then Ok (collect_addresses (gai_entries g) [])
              else if gai_error g = EAI_NONAME \<or> gai_error g = EAI_NODATA \<or> gai_error g = EAI_ADDRFAMILY
              then Err (Os EHOSTUNREACH)
              else if gai_error g = EAI_AGAIN then Err (Os EAGAIN)
              else if gai_error g = EAI_SYSTEM then Err (Os (gai_errno g))
              else Err (Os EIO))"

section \<open>Bounded lookups\<close>

text \<open>
  The semaphore and the worker threads that hold its permits. \<open>run_lookup\<close> starts a
  worker when a permit is free; what its caller sees later does not touch the permit, which
  returns only when the native call ends.
\<close>

record lookups =
  lk_permits :: nat
  lk_workers :: "nat list"
  lk_next :: nat

definition DirectConnector_default :: lookups where
  "DirectConnector_default = \<lparr>lk_permits = 32, lk_workers = [], lk_next = 0\<rparr>"

definition run_lookup :: "unit io_result \<Rightarrow> (nat, io_error, lookups) action" where
  "run_lookup spawn l =
     (if lk_permits l = 0 then (Err (Os EAGAIN), l)
      else case spawn of
        Err e \<Rightarrow> (Err e, l)
      | Ok u \<Rightarrow>
          (Ok (lk_next l),
           l\<lparr>lk_permits := lk_permits l - 1, lk_workers := lk_next l # lk_workers l,
             lk_next := lk_next l + 1\<rparr>))"

definition worker_ends :: "nat \<Rightarrow> lookups \<Rightarrow> lookups" where
  "worker_ends w l =
     (if w \<in> set (lk_workers l)
      then l\<lparr>lk_permits := lk_permits l + 1, lk_workers := remove1 w (lk_workers l)\<rparr> else l)"

text \<open>
  What the caller sees: the answer, or the timeout of five seconds, or a worker that ended
  without an answer.
\<close>

datatype worker_report = Answer "ipv4 list io_result" | WorkerStopped

definition LOOKUP_TIMEOUT :: nat where
  "LOOKUP_TIMEOUT = 5000"

definition await_lookup :: "(nat \<times> worker_report) option \<Rightarrow> nat \<times> ipv4 list io_result" where
  "await_lookup report =
     (case report of
        None \<Rightarrow> (LOOKUP_TIMEOUT, Err (Os ETIMEDOUT))
      | Some (ms, r) \<Rightarrow>
          if ms > LOOKUP_TIMEOUT then (LOOKUP_TIMEOUT, Err (Os ETIMEDOUT))
          else (ms, case r of Answer a \<Rightarrow> a | WorkerStopped \<Rightarrow> Err (Custom OtherKind)))"

section \<open>Connecting\<close>

definition CONNECT_TIMEOUT :: nat where
  "CONNECT_TIMEOUT = 32000"

datatype direct_error = ResolveDirect io_error | DirectIo io_error | DirectTimedOut

text \<open>
  \<open>connect\<close> gives the duration and the outcome of one attempt, \<open>nodelay\<close> the outcome of
  \<open>set_nodelay\<close>. The loop accumulates the time; \<open>None\<close> is an attempt that never ends.
\<close>

fun try_addresses ::
  "(sock_addr_v4 \<Rightarrow> (nat \<times> 's io_result) option) \<Rightarrow> ('s \<Rightarrow> unit io_result) \<Rightarrow> u16 \<Rightarrow> io_error
     \<Rightarrow> ipv4 list \<Rightarrow> (nat \<times> ('s proxy_stream, direct_error) result) option" where
  "try_addresses connect nodelay port last_error [] = Some (0, Err (DirectIo last_error))"
| "try_addresses connect nodelay port last_error (address # rest) =
     (case connect (sock_addr address port) of
        None \<Rightarrow> None
      | Some (ms, Ok stream) \<Rightarrow>
          Some (ms, case nodelay stream of
                      Ok u \<Rightarrow> Ok (ProxyStream_new stream [])
                    | Err e \<Rightarrow> Err (DirectIo e))
      | Some (ms, Err e) \<Rightarrow>
          map_option (\<lambda>(t, r). (ms + t, r)) (try_addresses connect nodelay port e rest))"

definition connect_with_lookup ::
  "(sock_addr_v4 \<Rightarrow> (nat \<times> 's io_result) option) \<Rightarrow> ('s \<Rightarrow> unit io_result)
     \<Rightarrow> (nat \<times> ipv4 list io_result) option \<Rightarrow> u16 \<Rightarrow> ('s proxy_stream, direct_error) result" where
  "connect_with_lookup connect nodelay lookup port =
     (let run = (case lookup of
                   None \<Rightarrow> None
                 | Some (ms, Err e) \<Rightarrow> Some (ms, Err (ResolveDirect e))
                 | Some (ms, Ok addresses) \<Rightarrow>
                     map_option (\<lambda>(t, r). (ms + t, r))
                       (try_addresses connect nodelay port (Os EHOSTUNREACH) addresses))
      in case run of
           None \<Rightarrow> Err DirectTimedOut
         | Some (ms, r) \<Rightarrow> if ms \<le> CONNECT_TIMEOUT then r else Err DirectTimedOut)"

definition DirectConnector_connect ::
  "(sock_addr_v4 \<Rightarrow> (nat \<times> 's io_result) option) \<Rightarrow> ('s \<Rightarrow> unit io_result)
     \<Rightarrow> unit io_result \<Rightarrow> (nat \<times> worker_report) option \<Rightarrow> u16
     \<Rightarrow> ('s proxy_stream, direct_error, lookups) action" where
  "DirectConnector_connect connect nodelay spawn report port l =
     (case run_lookup spawn l of
        (Err e, l') \<Rightarrow> (connect_with_lookup connect nodelay (Some (0, Err e)) port, l')
      | (Ok w, l') \<Rightarrow> (connect_with_lookup connect nodelay (Some (await_lookup report)) port, l'))"

section \<open>Properties\<close>

text \<open>The addresses are the IPv4 ones, each once, in the order of their first occurrence.\<close>

lemma collect_addresses_fold:
  "distinct acc \<Longrightarrow>
     collect_addresses es acc =
       acc @ filter (\<lambda>a. a \<notin> set acc) (rev (remdups (rev (List.map_filter entry_address es))))"
proof (induction es acc rule: collect_addresses.induct)
  case (1 acc)
  then show ?case by (simp add: List.map_filter_def)
next
  case (2 e es acc)
  show ?case
  proof (cases "entry_address e")
    case None
    with 2 show ?thesis by (simp add: List.map_filter_def)
  next
    case (Some ip)
    let ?xs = "List.map_filter entry_address es"
    have step: "List.map_filter entry_address (e # es) = ip # ?xs"
      using Some by (simp add: List.map_filter_def)
    have snoc: "remdups (xs @ [x]) = filter (\<lambda>y. y \<noteq> x) (remdups xs) @ [x]" for xs and x :: ipv4
      by (induction xs) auto
    show ?thesis
      using 2 Some
      by (cases "ip \<in> set acc")
        (auto simp: step snoc rev_filter filter_filter simp del: remdups.simps intro!: filter_cong)
  qed
qed


text \<open>The states of the lookup pool: any order of new lookups and of workers that end.\<close>

inductive lookup_reach :: "lookups \<Rightarrow> bool" where
  start: "lookup_reach DirectConnector_default"
| call: "lookup_reach l \<Longrightarrow> lookup_reach (snd (run_lookup spawn l))"
| ends: "lookup_reach l \<Longrightarrow> lookup_reach (worker_ends w l)"

lemma lookup_reach_inv:
  "lookup_reach l \<Longrightarrow>
     lk_permits l + length (lk_workers l) = 32 \<and> distinct (lk_workers l)
     \<and> (\<forall>w \<in> set (lk_workers l). w < lk_next l)"
proof (induction rule: lookup_reach.induct)
  case start
  then show ?case by (simp add: DirectConnector_default_def)
next
  case (call l spawn)
  then show ?case by (cases spawn) (auto simp: run_lookup_def)
next
  case (ends l w)
  show ?case
  proof (cases "w \<in> set (lk_workers l)")
    case True
    then have "lk_permits l + 1 + (length (lk_workers l) - 1) = 32"
      using ends.IH length_pos_if_in_set [OF True] by linarith
    with ends True show ?thesis
      by (auto simp: worker_ends_def length_remove1 dest: set_remove1_subset [THEN subsetD])
  next
    case False
    with ends show ?thesis by (simp add: worker_ends_def)
  qed
qed

text \<open>
  C36. Native lookups are bounded whatever callers do: in every reachable state the workers that
  run and the free permits add up to 32, so at most 32 lookups block in the resolver at a time,
  and a new lookup is refused with EAGAIN exactly when 32 are running.
\<close>

theorem lookups_bounded:
  assumes "lookup_reach l"
  shows "length (lk_workers l) \<le> 32
         \<and> lk_permits l = 32 - length (lk_workers l)
         \<and> (fst (run_lookup (Ok ()) l) = Err (Os EAGAIN) \<longleftrightarrow> length (lk_workers l) = 32)"
  using lookup_reach_inv [OF assms] by (auto simp: run_lookup_def)

theorem lookups_bounded_witness:
  "fst (run_lookup (Ok ()) (snd (run_lookup (Ok ()) DirectConnector_default))) \<noteq> Err (Os EAGAIN)"
proof -
  have "lookup_reach (snd (run_lookup (Ok ()) DirectConnector_default))"
    by (intro lookup_reach.intros)
  from lookups_bounded [OF this] show ?thesis
    by (simp add: run_lookup_def DirectConnector_default_def)
qed

lemma try_addresses_first:
  assumes "\<forall>p \<in> set pre. \<exists>e. connect (sock_addr p port) = Some (cost p, Err e)"
    and "connect (sock_addr a port) = Some (cost a, Ok s)" and "nodelay s = Ok ()"
  shows "try_addresses connect nodelay port err (pre @ a # post) =
    Some (sum_list (map cost pre) + cost a, Ok (ProxyStream_new s []))"
  using assms(1)
proof (induction pre arbitrary: err)
  case Nil
  then show ?case using assms(2,3) by simp
next
  case (Cons p pre)
  then obtain e where "connect (sock_addr p port) = Some (cost p, Err e)" by auto
  with Cons show ?case by (simp add: add.assoc)
qed

text \<open>
  Addresses are tried in order under one deadline: when the attempts before some address
  fail and that address accepts, the connection to it is returned, provided the lookup and all
  attempts together stayed within 32 seconds, and the timeout otherwise.
\<close>

lemma direct_first_reachable:
  assumes "\<forall>p \<in> set pre. \<exists>e. connect (sock_addr p port) = Some (cost p, Err e)"
    and "connect (sock_addr a port) = Some (cost a, Ok s)" and "nodelay s = Ok ()"
  shows "connect_with_lookup connect nodelay (Some (ms, Ok (pre @ a # post))) port =
    (if ms + sum_list (map cost pre) + cost a \<le> CONNECT_TIMEOUT then Ok (ProxyStream_new s [])
     else Err DirectTimedOut)"
  using try_addresses_first [of pre connect port cost a s nodelay "Os EHOSTUNREACH" post] assms
  by (simp add: connect_with_lookup_def add.assoc)

end
