(* ===== verification/Relay.thy ===== *)
theory Relay
  imports Proxy Sockets
begin

text \<open>
  \<open>src/broker/relay.rs\<close>: forwarding between the application's connection and the upstream
  stream. The loop body is one action on the state of the relay; what the kernel answers during
  a pass (accepted bytes, queue lengths, the pending socket error, the readiness it waits for) is
  a record, so a run is a list of such records.
\<close>

section \<open>State and answers\<close>

abbreviation BUFFER :: nat where "BUFFER \<equiv> 65536"

record relay =
  rl_app :: tcp
  rl_host :: "tcp proxy_stream"
  to_application :: bytes
  to_host :: bytes
  close_after_drain :: bool

record relay_answers =
  ra_app_write :: "nat io_result"
  ra_queued :: "nat io_result"
  ra_host_write :: "nat io_result"
  ra_error :: "io_error option io_result"
  ra_outq :: "nat io_result"
  ra_inq :: "nat io_result"
  ra_ready :: "unit io_result"

type_synonym 'a relaying = "('a, io_error, relay) action"

section \<open>One pass\<close>

definition relay_read_host :: "bool relaying" where
  "relay_read_host st =
     (if \<not> close_after_drain st \<and> length (to_application st) < BUFFER then
        case try_read tcp_try_read (rl_host st) (BUFFER - length (to_application st)) of
          (Ok bs, h) \<Rightarrow>
            if bs = [] then (Ok True, st\<lparr>rl_host := h, close_after_drain := True\<rparr>)
            else (Ok True, st\<lparr>rl_host := h, to_application := to_application st @ bs\<rparr>)
        | (Err e, h) \<Rightarrow> (if kind e = WouldBlock then Ok False else Err e, st\<lparr>rl_host := h\<rparr>)
      else (Ok False, st))"

definition relay_read_app :: "nat \<Rightarrow> bool relaying" where
  "relay_read_app queued st =
     (if (\<not> close_after_drain st \<or> queued > 0) \<and> length (to_host st) < BUFFER then
        case tcp_try_read (rl_app st) (BUFFER - length (to_host st)) of
          (Ok bs, a) \<Rightarrow>
            if bs = [] then (Ok True, st\<lparr>rl_app := a, close_after_drain := True\<rparr>)
            else (Ok True, st\<lparr>rl_app := a, to_host := to_host st @ bs\<rparr>)
        | (Err e, a) \<Rightarrow> (if kind e = WouldBlock then Ok False else Err e, st\<lparr>rl_app := a\<rparr>)
      else (Ok False, st))"

text \<open>
  \<open>flush\<close>: the kernel takes at most the bytes it is offered; the result is whether it took
  some, what stays pending and what was written.
\<close>

definition flush :: "nat io_result \<Rightarrow> bytes \<Rightarrow> bool io_result \<times> bytes \<times> bytes" where
  "flush answer pending =
     (if pending = [] then (Ok False, pending, [])
      else case answer of
        Ok n \<Rightarrow>
          let count = min n (length pending)
          in if count = 0 then (Err (Custom WriteZero), pending, [])
             else (Ok True, drop count pending, take count pending)
      | Err e \<Rightarrow> (if kind e = WouldBlock then Ok False else Err e, pending, []))"

definition relay_flush_app :: "nat io_result \<Rightarrow> bool relaying" where
  "relay_flush_app answer st =
     (case flush answer (to_application st) of
        (r, pending, written) \<Rightarrow>
          (r, st\<lparr>to_application := pending, rl_app := (rl_app st)\<lparr>tx := tx (rl_app st) @ written\<rparr>\<rparr>))"

definition relay_flush_host :: "nat io_result \<Rightarrow> bool relaying" where
  "relay_flush_host answer st =
     (case flush answer (to_host st) of
        (r, pending, written) \<Rightarrow>
          (r, st\<lparr>to_host := pending,
                 rl_host := (rl_host st)\<lparr>ps_inner := (ps_inner (rl_host st))
                   \<lparr>tx := tx (ps_inner (rl_host st)) @ written\<rparr>\<rparr>\<rparr>))"

definition ask :: "'a io_result \<Rightarrow> ('a, io_error, 's) action" where
  "ask answer s = (answer, s)"

definition relay_take_error :: "io_error option io_result \<Rightarrow> unit relaying" where
  "relay_take_error answer st =
     (if close_after_drain st
      then seq_do (ask answer) (\<lambda>pending. case pending of Some e \<Rightarrow> fail e | None \<Rightarrow> yield ()) st
      else (Ok (), st))"

definition relay_drained :: "nat io_result \<Rightarrow> nat io_result \<Rightarrow> bool relaying" where
  "relay_drained outq inq st =
     (if close_after_drain st \<and> to_application st = [] \<and> to_host st = []
      then seq_do (ask outq) (\<lambda>out. if out = 0 then seq_do (ask inq) (\<lambda>queued. yield (queued = 0)) else yield False) st
      else (Ok False, st))"

text \<open>
  The branches of the final \<open>select!\<close>. It panics when all are disabled, which the model turns
  into an error of its own so that its absence can be stated.
\<close>

definition select_branches :: "nat \<Rightarrow> relay \<Rightarrow> bool list" where
  "select_branches queued st =
     [\<not> close_after_drain st \<and> length (to_application st) < BUFFER,
      (\<not> close_after_drain st \<or> queued > 0) \<and> length (to_host st) < BUFFER,
      to_host st \<noteq> [],
      to_application st \<noteq> [],
      close_after_drain st]"

definition relay_wait :: "nat \<Rightarrow> unit io_result \<Rightarrow> unit relaying" where
  "relay_wait queued ready st =
     (if list_ex id (select_branches queued st) then (ready, st) else (Err (Custom OtherKind), st))"

definition relay_pass :: "relay_answers \<Rightarrow> bool relaying" where
  "relay_pass k =
     seq_do relay_read_host (\<lambda>p1.
     seq_do (relay_flush_app (ra_app_write k)) (\<lambda>p2.
     seq_do (ask (ra_queued k)) (\<lambda>queued.
     seq_do (relay_read_app queued) (\<lambda>p3.
     seq_do (relay_flush_host (ra_host_write k)) (\<lambda>p4.
     seq_do (relay_take_error (ra_error k)) (\<lambda>_.
     seq_do (relay_drained (ra_outq k) (ra_inq k)) (\<lambda>drained.
     if drained then yield True
     else if p1 \<or> p2 \<or> p3 \<or> p4 then yield False
     else seq_do (relay_wait queued (ra_ready k)) (\<lambda>_. yield False))))))))"

text \<open>\<open>None\<close> means that the relay is still running when the answers end.\<close>

fun relay_loop :: "relay_answers list \<Rightarrow> relay \<Rightarrow> unit io_result option \<times> relay" where
  "relay_loop [] st = (None, st)"
| "relay_loop (k # ks) st =
     (case relay_pass k st of
        (Ok True, st') \<Rightarrow> (Some (Ok ()), st')
      | (Ok False, st') \<Rightarrow> relay_loop ks st'
      | (Err e, st') \<Rightarrow> (Some (Err e), st'))"

definition relay_init :: "tcp \<Rightarrow> tcp proxy_stream \<Rightarrow> relay" where
  "relay_init app host =
     \<lparr>rl_app = app, rl_host = host, to_application = [], to_host = [], close_after_drain = False\<rparr>"

definition relay_run ::
  "unit io_result \<Rightarrow> unit io_result \<Rightarrow> relay_answers list \<Rightarrow> tcp \<Rightarrow> tcp proxy_stream
     \<Rightarrow> unit io_result option \<times> relay" where
  "relay_run app_nodelay host_nodelay ks app host =
     (case and_then app_nodelay (\<lambda>_. host_nodelay) of
        Err e \<Rightarrow> (Some (Err e), relay_init app host)
      | Ok _ \<Rightarrow> relay_loop ks (relay_init app host))"

section \<open>Nothing is lost, reordered or made up\<close>

lemma keeps_ask [simp]: "keeps I (ask r)"
  by (simp add: keeps_def ask_def)

lemma tcp_try_read_tx [simp]: "tcp_try_read t n = (r, t') \<Longrightarrow> tx t' = tx t"
  by (auto simp: tcp_try_read_def split: list.splits stream_end.splits if_splits)

lemma try_read_tx: "try_read tcp_try_read p n = (r, p') \<Longrightarrow> tx (ps_inner p') = tx (ps_inner p)"
  by (auto simp: try_read_def cursor_read_def Let_def split: if_splits prod.splits)

lemma flush_parts: "flush answer pending = (r, rest, written) \<Longrightarrow> pending = written @ rest"
  by (auto simp: flush_def Let_def split: if_splits result.splits)

text \<open>
  One direction: what was read from \<open>source\<close> since it was \<open>source0\<close> is what was written plus
  what is buffered.
\<close>

definition forwarded :: "bytes \<Rightarrow> bytes \<Rightarrow> bytes \<Rightarrow> bytes \<Rightarrow> bytes \<Rightarrow> bool" where
  "forwarded source0 sink0 source sink buffer \<longleftrightarrow>
     (\<exists>written. sink = sink0 @ written \<and> source0 = written @ buffer @ source) \<and> length buffer \<le> BUFFER"

definition relayed :: "tcp \<Rightarrow> tcp proxy_stream \<Rightarrow> relay \<Rightarrow> bool" where
  "relayed app host st \<longleftrightarrow>
     forwarded (ps_content tcp_content host) (tx app)
       (ps_content tcp_content (rl_host st)) (tx (rl_app st)) (to_application st)
     \<and> forwarded (tcp_content app) (tx (ps_inner host))
       (tcp_content (rl_app st)) (tx (ps_inner (rl_host st))) (to_host st)"

lemma forwarded_read:
  "forwarded source0 sink0 (bs @ source) sink buffer \<Longrightarrow> length buffer + length bs \<le> BUFFER \<Longrightarrow>
   forwarded source0 sink0 source sink (buffer @ bs)"
  by (auto simp: forwarded_def)

lemma forwarded_write:
  "forwarded source0 sink0 source sink (written @ rest) \<Longrightarrow>
   forwarded source0 sink0 source (sink @ written) rest"
  by (auto simp: forwarded_def)

lemma content_tx [simp]: "tcp_content (t\<lparr>tx := bs\<rparr>) = tcp_content t"
  by (simp add: tcp_content_def)

lemma ps_content_inner [simp]:
  "ps_content c (p\<lparr>ps_inner := t\<rparr>) = drop (ps_position p) (ps_buffered p) @ c t"
  by (simp add: ps_content_def)

lemma keeps_read_host: "keeps (relayed app host) relay_read_host"
  unfolding keeps_def
proof (intro allI impI)
  fix st assume I: "relayed app host st"
  obtain r h where rd: "try_read tcp_try_read (rl_host st) (BUFFER - length (to_application st)) = (r, h)"
    by force
  note tx = try_read_tx [OF rd]
  show "relayed app host (snd (relay_read_host st))"
  proof (cases "\<not> close_after_drain st \<and> length (to_application st) < BUFFER")
    case room: True
    show ?thesis
    proof (cases r)
      case (Ok bs)
      note c = tunnel.read_Ok [OF rd [unfolded Ok]] and b = tunnel.read_bound [OF rd [unfolded Ok]]
      have "forwarded (ps_content tcp_content host) (tx app) (ps_content tcp_content h) (tx (rl_app st))
          (to_application st @ bs)"
        using I b room unfolding relayed_def c by (intro forwarded_read) (blast, linarith)
      with I tx room rd Ok c show ?thesis
        by (auto simp: relay_read_host_def relayed_def)
    next
      case (Err e)
      with I tx room rd tunnel.read_Err [OF rd [unfolded Err]] show ?thesis
        by (simp add: relay_read_host_def relayed_def)
    qed
  next
    case False
    then have "relay_read_host st = (Ok False, st)" unfolding relay_read_host_def by (rule if_not_P)
    with I show ?thesis by simp
  qed
qed

lemma keeps_read_app: "keeps (relayed app host) (relay_read_app queued)"
  unfolding keeps_def
proof (intro allI impI)
  fix st assume I: "relayed app host st"
  obtain r a where rd: "tcp_try_read (rl_app st) (BUFFER - length (to_host st)) = (r, a)" by force
  note tx = tcp_try_read_tx [OF rd]
  show "relayed app host (snd (relay_read_app queued st))"
  proof (cases "(\<not> close_after_drain st \<or> queued > 0) \<and> length (to_host st) < BUFFER")
    case room: True
    show ?thesis
    proof (cases r)
      case (Ok bs)
      note c = tcp_source.read_Ok [OF rd [unfolded Ok]] and b = tcp_source.read_bound [OF rd [unfolded Ok]]
      have "forwarded (tcp_content app) (tx (ps_inner host)) (tcp_content a) (tx (ps_inner (rl_host st)))
          (to_host st @ bs)"
        using I b room unfolding relayed_def c by (intro forwarded_read) (blast, linarith)
      with I tx room rd Ok c show ?thesis
        by (auto simp: relay_read_app_def relayed_def)
    next
      case (Err e)
      with I tx room rd tcp_source.read_Err [OF rd [unfolded Err]] show ?thesis
        by (simp add: relay_read_app_def relayed_def)
    qed
  next
    case False
    then have "relay_read_app queued st = (Ok False, st)" unfolding relay_read_app_def by (rule if_not_P)
    with I show ?thesis by simp
  qed
qed

lemma keeps_flush_app: "keeps (relayed app host) (relay_flush_app answer)"
  unfolding keeps_def
proof (intro allI impI)
  fix st assume I: "relayed app host st"
  obtain r rest written where f: "flush answer (to_application st) = (r, rest, written)"
    by (cases "flush answer (to_application st)") auto
  have "forwarded (ps_content tcp_content host) (tx app) (ps_content tcp_content (rl_host st))
      (tx (rl_app st) @ written) rest"
    using I unfolding relayed_def flush_parts [OF f] by (intro forwarded_write) blast
  with I f show "relayed app host (snd (relay_flush_app answer st))"
    by (simp add: relay_flush_app_def relayed_def)
qed

lemma keeps_flush_host: "keeps (relayed app host) (relay_flush_host answer)"
  unfolding keeps_def
proof (intro allI impI)
  fix st assume I: "relayed app host st"
  obtain r rest written where f: "flush answer (to_host st) = (r, rest, written)"
    by (cases "flush answer (to_host st)") auto
  have "forwarded (tcp_content app) (tx (ps_inner host)) (tcp_content (rl_app st))
      (tx (ps_inner (rl_host st)) @ written) rest"
    using I unfolding relayed_def flush_parts [OF f] by (intro forwarded_write) blast
  with I f show "relayed app host (snd (relay_flush_host answer st))"
    by (simp add: relay_flush_host_def relayed_def ps_content_def)
qed

lemma relay_checks_state [simp]:
  "snd (relay_take_error answer st) = st" "snd (relay_drained outq inq st) = st"
  "snd (relay_wait queued ready st) = st"
  by (auto simp: relay_take_error_def relay_drained_def relay_wait_def seq_do_def ask_def yield_def fail_def
      split: result.splits option.splits)

lemmas keeps_parts =
  keeps_read_host keeps_read_app keeps_flush_app keeps_flush_host keeps_simple keeps_ask
  keeps_same [OF relay_checks_state(1)] keeps_same [OF relay_checks_state(2)] keeps_same [OF relay_checks_state(3)]

lemma keeps_pass: "keeps (relayed app host) (relay_pass k)"
  unfolding relay_pass_def by (intro keeps_seq_do keeps_parts) (simp add: keeps_seq_do keeps_parts)

lemma relay_loop_keeps:
  "(\<And>k. keeps I (relay_pass k)) \<Longrightarrow> I st \<Longrightarrow> relay_loop ks st = (r, st') \<Longrightarrow> I st'"
proof (induction ks arbitrary: st)
  case (Cons k ks)
  obtain q st1 where q: "relay_pass k st = (q, st1)" by force
  with Cons.prems(1,2) have "I st1" by (blast dest: keepsD)
  with Cons q show ?case by (auto split: result.splits bool.splits)
qed simp

text \<open>Why the relay closes: one of the two sources is exhausted.\<close>

definition exhausted :: "relay \<Rightarrow> bool" where
  "exhausted st \<longleftrightarrow>
     (close_after_drain st \<longrightarrow> ps_content tcp_content (rl_host st) = [] \<or> tcp_content (rl_app st) = [])"

lemma tcp_try_read_eof: "tcp_try_read t n = (Ok [], t') \<Longrightarrow> 0 < n \<Longrightarrow> tcp_content t' = []"
  by (auto simp: tcp_try_read_def tcp_content_def split: list.splits stream_end.splits if_splits)

lemma try_read_eof:
  "try_read tcp_try_read p n = (Ok [], p') \<Longrightarrow> 0 < n \<Longrightarrow> ps_content tcp_content p' = []"
  by (auto simp: try_read_def cursor_read_def Let_def has_buffered_data_def dest: tcp_try_read_eof
      split: if_splits prod.splits)

lemma exhausted_read_host: "keeps exhausted relay_read_host"
  unfolding keeps_def
  by (auto simp: exhausted_def relay_read_host_def dest: try_read_eof split: prod.splits result.splits)

lemma exhausted_read_app: "keeps exhausted (relay_read_app queued)"
  unfolding keeps_def
proof (intro allI impI)
  fix st assume I: "exhausted st"
  obtain r a where rd: "tcp_try_read (rl_app st) (BUFFER - length (to_host st)) = (r, a)" by force
  have shrinks: "tcp_content a = []" if "tcp_content (rl_app st) = []"
    using that rd tcp_source.read_Ok [of "rl_app st" _ _ a] tcp_source.read_Err [of "rl_app st" _ _ a]
    by (cases r) auto
  show "exhausted (snd (relay_read_app queued st))"
    using I rd shrinks tcp_try_read_eof [of "rl_app st" "BUFFER - length (to_host st)" a]
    by (auto simp: exhausted_def relay_read_app_def split: result.splits)
qed

lemma exhausted_flush: "keeps exhausted (relay_flush_app answer)" "keeps exhausted (relay_flush_host answer)"
  by (auto simp: keeps_def exhausted_def relay_flush_app_def relay_flush_host_def ps_content_def
      split: prod.splits)

lemma exhausted_pass: "keeps exhausted (relay_pass k)"
  unfolding relay_pass_def
  by (intro keeps_seq_do keeps_parts exhausted_read_host exhausted_read_app exhausted_flush)
    (simp add: keeps_seq_do keeps_parts)

lemma relay_drained_True:
  "relay_drained outq inq st = (Ok True, st') \<Longrightarrow>
     st' = st \<and> close_after_drain st \<and> to_application st = [] \<and> to_host st = []
     \<and> outq = Ok 0 \<and> inq = Ok 0"
  by (auto simp: relay_drained_def seq_do_Ok_iff ask_def split: if_splits)

lemma relay_pass_True:
  "relay_pass k st = (Ok True, st') \<Longrightarrow>
     close_after_drain st' \<and> to_application st' = [] \<and> to_host st' = []"
  by (auto simp: relay_pass_def seq_do_Ok_iff dest: relay_drained_True split: if_splits)

lemma relay_loop_Ok:
  "relay_loop ks st = (Some (Ok ()), st') \<Longrightarrow>
     close_after_drain st' \<and> to_application st' = [] \<and> to_host st' = []"
proof (induction ks arbitrary: st)
  case (Cons k ks)
  obtain q st1 where q: "relay_pass k st = (q, st1)" by force
  show ?case
  proof (cases q)
    case (Ok b)
    with Cons q show ?thesis by (cases b) (auto dest: relay_pass_True)
  next
    case (Err e)
    with Cons.prems q show ?thesis by simp
  qed
qed simp

lemma relayed_init: "relayed app host (relay_init app host)" "exhausted (relay_init app host)"
  by (simp_all add: relayed_def forwarded_def relay_init_def exhausted_def)

text \<open>
  C8. The relay neither loses nor reorders nor makes up bytes, however the kernel splits reads and
  writes, blocks or fails: at every moment what it wrote to the application, followed by its buffer
  and by what is still unread upstream, is what the upstream stream held, the same the other way,
  and neither buffer exceeds 65536 bytes. When it ends without an error both buffers are empty and
  one of the two sources has been forwarded completely.
\<close>

theorem relay_conserves:
  assumes "relay_run app_nodelay host_nodelay ks app host = (r, st)"
  shows "relayed app host st \<and>
    (r = Some (Ok ()) \<longrightarrow> to_application st = [] \<and> to_host st = [] \<and>
       (tx (rl_app st) = tx app @ ps_content tcp_content host
        \<or> tx (ps_inner (rl_host st)) = tx (ps_inner host) @ tcp_content app))"
proof (cases "and_then app_nodelay (\<lambda>_. host_nodelay)")
  case (Err e)
  with assms relayed_init show ?thesis by (auto simp: relay_run_def)
next
  case (Ok u)
  with assms have l: "relay_loop ks (relay_init app host) = (r, st)" by (simp add: relay_run_def)
  have inv: "relayed app host st" "exhausted st"
    using relay_loop_keeps [OF keeps_pass relayed_init(1) l]
      relay_loop_keeps [OF exhausted_pass relayed_init(2) l] .
  have "to_application st = [] \<and> to_host st = [] \<and>
       (tx (rl_app st) = tx app @ ps_content tcp_content host
        \<or> tx (ps_inner (rl_host st)) = tx (ps_inner host) @ tcp_content app)" if "r = Some (Ok ())"
  proof -
    from l that have "close_after_drain st \<and> to_application st = [] \<and> to_host st = []"
      by (blast dest: relay_loop_Ok)
    with inv show ?thesis by (auto simp: relayed_def exhausted_def forwarded_def)
  qed
  with inv(1) show ?thesis by blast
qed

section \<open>The relay ends\<close>

lemma select_enabled: "list_ex id (select_branches queued st)"
  by (cases "to_application st") (auto simp: select_branches_def)

text \<open>
  The work left: unread bytes count twice, buffered ones once, and every read that finds no
  data uses up a segment.
\<close>

definition tcp_work :: "tcp \<Rightarrow> nat" where
  "tcp_work t = 2 * length (tcp_content t) + length (rx t)"

definition host_work :: "tcp proxy_stream \<Rightarrow> nat" where
  "host_work p = 2 * length (ps_content tcp_content p) + length (rx (ps_inner p))"

definition relay_work :: "relay \<Rightarrow> nat" where
  "relay_work st =
     host_work (rl_host st) + tcp_work (rl_app st) + length (to_application st) + length (to_host st)
     + (if close_after_drain st then 0 else 1)"

definition ends_closed :: "relay \<Rightarrow> bool" where
  "ends_closed st \<longleftrightarrow> rx_end (rl_app st) = Closed \<and> rx_end (ps_inner (rl_host st)) = Closed"

text \<open>The outcome of a read that is to make progress, with the work before and after it.\<close>

definition uses_up :: "bytes io_result \<Rightarrow> nat \<Rightarrow> nat \<Rightarrow> bool" where
  "uses_up r w w' \<longleftrightarrow>
     (case r of Ok bs \<Rightarrow> if bs = [] then w' \<le> w else w' + length bs < w
              | Err e \<Rightarrow> kind e = WouldBlock \<and> w' < w)"

lemma tcp_read_uses_up:
  assumes "tcp_try_read t n = (r, t')" "rx_end t = Closed" "0 < n"
  shows "uses_up r (tcp_work t) (tcp_work t') \<and> rx_end t' = Closed"
  using assms
  by (auto simp: tcp_try_read_def uses_up_def tcp_work_def tcp_content_def
      split: list.splits stream_end.splits if_splits)

lemma tcp_try_read_nonempty: "tcp_try_read t n = (Ok [], t') \<Longrightarrow> 0 < n \<Longrightarrow> rx t = []"
  by (auto simp: tcp_try_read_def split: list.splits if_splits)

lemma host_read_uses_up:
  assumes "try_read tcp_try_read p n = (r, p')" "rx_end (ps_inner p) = Closed" "0 < n"
  shows "uses_up r (host_work p) (host_work p') \<and> rx_end (ps_inner p') = Closed"
proof (cases "has_buffered_data p")
  case True
  let ?bs = "take n (drop (ps_position p) (ps_buffered p))"
  from True assms(1) have r: "r = Ok ?bs" and p': "ps_inner p' = ps_inner p"
    by (auto simp: try_read_def cursor_read_def Let_def)
  have ne: "?bs \<noteq> []" using True assms(3) by (simp add: has_buffered_data_def)
  from tunnel.read_Ok [OF assms(1) [unfolded r]] have
    "length (ps_content tcp_content p) = length ?bs + length (ps_content tcp_content p')"
    by (metis length_append)
  with ne r p' assms(2) show ?thesis by (auto simp: uses_up_def host_work_def)
next
  case False
  then have d: "drop (ps_position p) (ps_buffered p) = []" by (simp add: has_buffered_data_def)
  from False assms(1) obtain t where t: "tcp_try_read (ps_inner p) n = (r, t)" "p' = p\<lparr>ps_inner := t\<rparr>"
    by (auto simp: try_read_def split: prod.splits)
  with tcp_read_uses_up [OF t(1) assms(2,3)] d show ?thesis
    by (simp add: host_work_def tcp_work_def ps_content_def)
qed

text \<open>A part of a pass succeeds; it takes work away where \<open>D\<close> holds and does nothing elsewhere.\<close>

definition advances :: "(relay \<Rightarrow> bool) \<Rightarrow> 'a relaying \<Rightarrow> bool" where
  "advances D m \<longleftrightarrow>
     (\<forall>st. ends_closed st \<longrightarrow> (\<exists>a st'. m st = (Ok a, st') \<and> ends_closed st'
        \<and> (if D st then relay_work st' < relay_work st else st' = st)))"

lemma advancesE:
  assumes "advances D m" "ends_closed st"
  obtains a st' where "m st = (Ok a, st')" "ends_closed st'" "relay_work st' \<le> relay_work st"
    "relay_work st' = relay_work st \<Longrightarrow> \<not> D st \<and> st' = st"
  using assms unfolding advances_def by (metis less_imp_le less_irrefl order_refl)

lemma advances_read_host:
  "advances (\<lambda>st. \<not> close_after_drain st \<and> length (to_application st) < BUFFER) relay_read_host"
  unfolding advances_def
proof (intro allI impI)
  fix st assume e: "ends_closed st"
  let ?n = "BUFFER - length (to_application st)"
  obtain r h where rd: "try_read tcp_try_read (rl_host st) ?n = (r, h)" by force
  show "\<exists>a st'. relay_read_host st = (Ok a, st') \<and> ends_closed st'
      \<and> (if \<not> close_after_drain st \<and> length (to_application st) < BUFFER
         then relay_work st' < relay_work st else st' = st)"
  proof (cases "\<not> close_after_drain st \<and> length (to_application st) < BUFFER")
    case room: True
    then have "0 < ?n" by simp
    from host_read_uses_up [OF rd _ this] e have u: "uses_up r (host_work (rl_host st)) (host_work h)"
      "rx_end (ps_inner h) = Closed" by (simp_all add: ends_closed_def)
    with room rd e show ?thesis
      by (cases r) (auto simp: relay_read_host_def uses_up_def relay_work_def ends_closed_def split: if_splits)
  next
    case False
    then have "relay_read_host st = (Ok False, st)" unfolding relay_read_host_def by (rule if_not_P)
    with False e show ?thesis by auto
  qed
qed

lemma advances_read_app:
  "advances (\<lambda>st. (\<not> close_after_drain st \<or> queued > 0) \<and> length (to_host st) < BUFFER \<and>
      (close_after_drain st \<longrightarrow> rx (rl_app st) \<noteq> [])) (relay_read_app queued)"
  unfolding advances_def
proof (intro allI impI)
  fix st assume e: "ends_closed st"
  let ?n = "BUFFER - length (to_host st)"
  let ?D = "(\<not> close_after_drain st \<or> queued > 0) \<and> length (to_host st) < BUFFER"
  obtain r a where rd: "tcp_try_read (rl_app st) ?n = (r, a)" by force
  show "\<exists>b st'. relay_read_app queued st = (Ok b, st') \<and> ends_closed st'
      \<and> (if (\<not> close_after_drain st \<or> queued > 0) \<and> length (to_host st) < BUFFER \<and>
            (close_after_drain st \<longrightarrow> rx (rl_app st) \<noteq> [])
         then relay_work st' < relay_work st else st' = st)"
  proof (cases ?D)
    case room: True
    then have n: "0 < ?n" by simp
    from tcp_read_uses_up [OF rd _ this] e have u: "uses_up r (tcp_work (rl_app st)) (tcp_work a)"
      "rx_end a = Closed" by (simp_all add: ends_closed_def)
    show ?thesis
    proof (cases "rx (rl_app st) = []")
      case True
      with rd e have "r = Ok []" "a = rl_app st"
        by (auto simp: tcp_try_read_def ends_closed_def)
      with room rd e True show ?thesis
        by (auto simp: relay_read_app_def relay_work_def ends_closed_def)
    next
      case False
      have "r \<noteq> Ok []" using rd n False tcp_try_read_nonempty by blast
      with u room rd e False show ?thesis
        by (cases r) (auto simp: relay_read_app_def uses_up_def relay_work_def ends_closed_def split: if_splits)
    qed
  next
    case False
    then have "relay_read_app queued st = (Ok False, st)" unfolding relay_read_app_def by (rule if_not_P)
    with False e show ?thesis by auto
  qed
qed

lemma flush_willing:
  "0 < n \<Longrightarrow> pending \<noteq> [] \<Longrightarrow> flush (Ok n) pending = (Ok True, drop (min n (length pending)) pending, take (min n (length pending)) pending)"
  by (simp add: flush_def Let_def)

lemma flush_nothing:
  "to_application st = [] \<Longrightarrow> relay_flush_app answer st = (Ok False, st)"
  "to_host st = [] \<Longrightarrow> relay_flush_host answer st = (Ok False, st)"
  by (cases st; simp add: relay_flush_app_def relay_flush_host_def flush_def)+

lemma advances_flush_app: "0 < n \<Longrightarrow> advances (\<lambda>st. to_application st \<noteq> []) (relay_flush_app (Ok n))"
  unfolding advances_def
proof (intro allI impI)
  fix st assume n: "0 < n" and e: "ends_closed st"
  show "\<exists>a st'. relay_flush_app (Ok n) st = (Ok a, st') \<and> ends_closed st'
      \<and> (if to_application st \<noteq> [] then relay_work st' < relay_work st else st' = st)"
  proof (cases "to_application st = []")
    case True
    then show ?thesis using e by (auto simp: flush_nothing)
  next
    case False
    then have "0 < length (to_application st)" by simp
    with n e False show ?thesis
      by (auto simp: relay_flush_app_def flush_willing relay_work_def ends_closed_def tcp_work_def)
  qed
qed

lemma advances_flush_host: "0 < n \<Longrightarrow> advances (\<lambda>st. to_host st \<noteq> []) (relay_flush_host (Ok n))"
  unfolding advances_def
proof (intro allI impI)
  fix st assume n: "0 < n" and e: "ends_closed st"
  show "\<exists>a st'. relay_flush_host (Ok n) st = (Ok a, st') \<and> ends_closed st'
      \<and> (if to_host st \<noteq> [] then relay_work st' < relay_work st else st' = st)"
  proof (cases "to_host st = []")
    case True
    then show ?thesis using e by (auto simp: flush_nothing)
  next
    case False
    then have "0 < length (to_host st)" by simp
    with n e False show ?thesis
      by (auto simp: relay_flush_host_def flush_willing relay_work_def ends_closed_def host_work_def ps_content_def)
  qed
qed

text \<open>A kernel that takes at least one byte per write, and reports no error and empty queues.\<close>

definition willing :: "relay_answers \<Rightarrow> bool" where
  "willing k \<longleftrightarrow>
     (\<exists>n. ra_app_write k = Ok n \<and> 0 < n) \<and> (\<exists>n. ra_host_write k = Ok n \<and> 0 < n)
     \<and> is_ok (ra_queued k) \<and> ra_error k = Ok None \<and> ra_outq k = Ok 0 \<and> ra_inq k = Ok 0 \<and> ra_ready k = Ok ()"

lemma willing_checks:
  "relay_take_error (Ok None) st = (Ok (), st)"
  "relay_drained (Ok 0) (Ok 0) st = (Ok (close_after_drain st \<and> to_application st = [] \<and> to_host st = []), st)"
  "relay_wait queued (Ok ()) st = (Ok (), st)"
  by (simp_all add: relay_take_error_def relay_drained_def relay_wait_def select_enabled ask_def seq_do_def yield_def)

lemma relay_pass_advances:
  assumes "willing k" "ends_closed st"
  obtains ended st' where "relay_pass k st = (Ok ended, st')" "ends_closed st'"
    "\<not> ended \<Longrightarrow> relay_work st' < relay_work st"
proof -
  from assms(1) obtain n m queued where k: "ra_app_write k = Ok n" "0 < n" "ra_host_write k = Ok m" "0 < m"
    "ra_queued k = Ok queued" "ra_error k = Ok None" "ra_outq k = Ok 0" "ra_inq k = Ok 0" "ra_ready k = Ok ()"
    by (auto simp: willing_def is_ok_iff)
  obtain p1 st1 where 1: "relay_read_host st = (Ok p1, st1)" "ends_closed st1" "relay_work st1 \<le> relay_work st"
    "relay_work st1 = relay_work st \<Longrightarrow> \<not> (\<not> close_after_drain st \<and> length (to_application st) < BUFFER) \<and> st1 = st"
    using advancesE [OF advances_read_host assms(2)] by blast
  obtain p2 st2 where 2: "relay_flush_app (Ok n) st1 = (Ok p2, st2)" "ends_closed st2" "relay_work st2 \<le> relay_work st1"
    "relay_work st2 = relay_work st1 \<Longrightarrow> \<not> to_application st1 \<noteq> [] \<and> st2 = st1"
    using advancesE [OF advances_flush_app [OF k(2)] 1(2)] by blast
  obtain p3 st3 where 3: "relay_read_app queued st2 = (Ok p3, st3)" "ends_closed st3" "relay_work st3 \<le> relay_work st2"
    "relay_work st3 = relay_work st2 \<Longrightarrow> st3 = st2"
    using advancesE [OF advances_read_app [of queued] 2(2)] by blast
  obtain p4 st4 where 4: "relay_flush_host (Ok m) st3 = (Ok p4, st4)" "ends_closed st4" "relay_work st4 \<le> relay_work st3"
    "relay_work st4 = relay_work st3 \<Longrightarrow> \<not> to_host st3 \<noteq> [] \<and> st4 = st3"
    using advancesE [OF advances_flush_host [OF k(4)] 3(2)] by blast
  let ?d = "close_after_drain st4 \<and> to_application st4 = [] \<and> to_host st4 = []"
  have "relay_pass k st = (Ok ?d, st4)"
    using 1(1) 2(1) 3(1) 4(1) k
    by (auto simp: relay_pass_def ask_def willing_checks seq_do_def yield_def)
  moreover have "relay_work st4 < relay_work st" if "\<not> ?d"
  proof (rule ccontr)
    assume "\<not> relay_work st4 < relay_work st"
    then have w: "relay_work st1 = relay_work st" "relay_work st2 = relay_work st1"
      "relay_work st3 = relay_work st2" "relay_work st4 = relay_work st3"
      using 1(3) 2(3) 3(3) 4(3) by linarith+
    with 1(4) 2(4) 3(4) 4(4) have "?d" by auto
    with that show False ..
  qed
  ultimately show ?thesis using that 4(2) by blast
qed


text \<open>An application that sends one byte and closes, and an upstream with a prefetched byte.\<close>

definition sample_app :: tcp where
  "sample_app = \<lparr>rx = [[1]], rx_end = Closed, tx = [], tx_fail = []\<rparr>"

definition sample_host :: "tcp proxy_stream" where
  "sample_host = ProxyStream_new \<lparr>rx = [[3]], rx_end = Closed, tx = [], tx_fail = []\<rparr> [2]"

definition sample_answers :: relay_answers where
  "sample_answers = \<lparr>ra_app_write = Ok 1, ra_queued = Ok 0, ra_host_write = Ok 1, ra_error = Ok None,
     ra_outq = Ok 0, ra_inq = Ok 0, ra_ready = Ok ()\<rparr>"

lemmas sample_defs = sample_app_def sample_host_def sample_answers_def ProxyStream_new_def

lemma sample_willing: "willing sample_answers" "ends_closed (relay_init sample_app sample_host)"
  by (simp_all add: willing_def ends_closed_def relay_init_def sample_defs)

lemma sample_work: "relay_work (relay_init sample_app sample_host) = 9"
  by (simp add: relay_work_def host_work_def tcp_work_def tcp_content_def ps_content_def relay_init_def sample_defs)


lemma sample_run:
  "relay_run (Ok ()) (Ok ()) [sample_answers, sample_answers] sample_app sample_host
   = (Some (Ok ()), \<lparr>rl_app = sample_app\<lparr>rx := [], tx := [2, 3]\<rparr>,
        rl_host = sample_host\<lparr>ps_inner := (ps_inner sample_host)\<lparr>rx := [], tx := [1]\<rparr>, ps_position := 1\<rparr>,
        to_application = [], to_host = [], close_after_drain = True\<rparr>)"
  by (simp add: relay_run_def relay_init_def relay_pass_def sample_defs relay_read_host_def relay_read_app_def
      relay_flush_app_def relay_flush_host_def flush_def try_read_def cursor_read_def has_buffered_data_def
      tcp_try_read_def seq_do_def ask_def yield_def relay_take_error_def relay_drained_def Let_def)

theorem relay_conserves_witness:
  "\<exists>st. relay_run (Ok ()) (Ok ()) [sample_answers, sample_answers] sample_app sample_host = (Some (Ok ()), st)
     \<and> relayed sample_app sample_host st \<and> to_application st = []"
  using relay_conserves [OF sample_run] sample_run by blast

end
