(* ===== verification/Upstream.thy ===== *)
theory Upstream
  imports Engine Socks5 Http Direct Relay
begin

text \<open>
  The other side of an intercepted connection: \<open>ProxyConfig::connect\<close> of \<open>src/proxy/mod.rs\<close>, which
  chooses the connector of a route, and the task that \<open>connect_tcp\<close> of \<open>src/broker/tcp.rs\<close> spawns.
  It waits for the application's stream, connects to the target and relays.
\<close>

section \<open>Choosing a connector\<close>

datatype upstream_error =
    Socks5Error socks5_error
  | HttpError http_error
  | DirectError direct_error
  | NoSharedConnector
  | AcceptError io_error
  | UpstreamTimedOut

text \<open>The errors that stand for a handshake that is still waiting for its peer.\<close>

fun socks5_waits :: "socks5_error \<Rightarrow> bool" where
  "socks5_waits (WriteGreeting e) = (e = Hang)"
| "socks5_waits (ReadMethod e) = (e = Hang)"
| "socks5_waits (WriteAuth e) = (e = Hang)"
| "socks5_waits (ReadAuth e) = (e = Hang)"
| "socks5_waits (WriteConnect e) = (e = Hang)"
| "socks5_waits (ReadReply e) = (e = Hang)"
| "socks5_waits (SkipBnd e) = socks5_waits e"
| "socks5_waits (SkipRead e) = (e = Hang)"
| "socks5_waits e = False"

fun http_waits :: "http_error \<Rightarrow> bool" where
  "http_waits (HttpWrite e) = (e = Hang)"
| "http_waits (HttpReadStatus e) = (e = Hang)"
| "http_waits (HttpReadHeader e) = (e = Hang)"
| "http_waits e = False"

fun upstream_waits :: "upstream_error \<Rightarrow> bool" where
  "upstream_waits (Socks5Error e) = socks5_waits e"
| "upstream_waits (HttpError e) = http_waits e"
| "upstream_waits e = False"

fun connect_inner ::
  "(string \<Rightarrow> tcp io_result) \<Rightarrow> proxy_config \<Rightarrow> proxy_target \<Rightarrow> (tcp proxy_stream, upstream_error) result" where
  "connect_inner tcp_connect Direct target = Err NoSharedConnector"
| "connect_inner tcp_connect (Socks5 addr auth) target =
     map_err Socks5Error (Socks5Connector_connect tcp_connect \<lparr>s5_server = addr, s5_auth = auth\<rparr> target)"
| "connect_inner tcp_connect (Http addr auth) target =
     map_err HttpError (HttpConnector_connect tcp_connect \<lparr>h_server = addr, h_auth = auth\<rparr> target)"

definition within :: "nat \<Rightarrow> nat option \<Rightarrow> bool" where
  "within limit ms \<longleftrightarrow> (case ms of Some t \<Rightarrow> t \<le> limit | None \<Rightarrow> False)"

text \<open>\<open>ms\<close> is the time the connector takes, \<open>None\<close> if it never ends.\<close>

definition ProxyConfig_connect ::
  "(string \<Rightarrow> tcp io_result) \<Rightarrow> nat option \<Rightarrow> proxy_config \<Rightarrow> proxy_target
     \<Rightarrow> (tcp proxy_stream, upstream_error) result" where
  "ProxyConfig_connect tcp_connect ms route target =
     (case connect_inner tcp_connect route target of
        Err e \<Rightarrow> if upstream_waits e \<or> \<not> within CONNECT_TIMEOUT ms then Err UpstreamTimedOut else Err e
      | Ok stream \<Rightarrow> if within CONNECT_TIMEOUT ms then Ok stream else Err UpstreamTimedOut)"

section \<open>The relay task\<close>

text \<open>
  What happens around the task: how long the parts take, the connections that are made, the
  resolver worker, and what the kernel answers while the relay runs.
\<close>

record task_env =
  tk_accept_ms :: "nat option"
  tk_connect :: "string \<Rightarrow> tcp io_result"
  tk_connect_ms :: "nat option"
  tk_direct :: "sock_addr_v4 \<Rightarrow> (nat \<times> tcp io_result) option"
  tk_nodelay :: "tcp \<Rightarrow> unit io_result"
  tk_spawn :: "unit io_result"
  tk_report :: "(nat \<times> worker_report) option"
  tk_app_nodelay :: "unit io_result"
  tk_host_nodelay :: "unit io_result"
  tk_relay :: "relay_answers list"

datatype task_end =
    NotAccepted
  | DnsServed "unit io_result"
  | TaskTimedOut
  | UpstreamFailed upstream_error
  | Relayed "unit io_result option" relay

definition task_upstream ::
  "task_env \<Rightarrow> proxy_config \<Rightarrow> proxy_target \<Rightarrow> (tcp proxy_stream, upstream_error, lookups) action" where
  "task_upstream env route target l =
     (case (route, target) of
        (Direct, Domain host port) \<Rightarrow>
          (case DirectConnector_connect (tk_direct env) (tk_nodelay env) (tk_spawn env) (tk_report env) port l of
             (r, l') \<Rightarrow> (map_err DirectError r, l'))
      | _ \<Rightarrow> (ProxyConfig_connect (tk_connect env) (tk_connect_ms env) route target, l))"

definition task_total :: "task_env \<Rightarrow> nat option" where
  "task_total env =
     (case (tk_accept_ms env, tk_connect_ms env) of (Some a, Some c) \<Rightarrow> Some (a + c) | _ \<Rightarrow> None)"

definition relay_task_run ::
  "task_env \<Rightarrow> relay_task \<Rightarrow> tcp ingress \<Rightarrow> resolver \<Rightarrow> lookups \<Rightarrow> task_end \<times> resolver \<times> lookups" where
  "relay_task_run env task ig r l =
     (case (rt_upstream task, Registration_accept (rt_registration task) ig) of
        (None, Some (Ok app)) \<Rightarrow>
          if within 32000 (tk_accept_ms env)
          then (case serve_tcp app r of (res, app', r') \<Rightarrow> (DnsServed res, r', l))
          else (NotAccepted, r, l)
      | (None, _) \<Rightarrow> (NotAccepted, r, l)
      | (Some _, None) \<Rightarrow> (TaskTimedOut, r, l)
      | (Some _, Some (Err e)) \<Rightarrow>
          (if within 32000 (tk_accept_ms env) then UpstreamFailed (AcceptError e) else TaskTimedOut, r, l)
      | (Some (target, route), Some (Ok app)) \<Rightarrow>
          (case task_upstream env route target l of
             (connected, l') \<Rightarrow>
               if \<not> within 32000 (task_total env) then (TaskTimedOut, r, l')
               else (case connected of
                       Err e \<Rightarrow> UpstreamFailed e
                     | Ok host \<Rightarrow>
                         (case relay_run (tk_app_nodelay env) (tk_host_nodelay env) (tk_relay env) app host of
                            (res, st) \<Rightarrow> Relayed res st),
                     r, l')))"

section \<open>Relays follow the configured routes\<close>

definition upstream_ok :: "regex_api \<Rightarrow> config \<Rightarrow> (proxy_target \<times> proxy_config) option \<Rightarrow> bool" where
  "upstream_ok re cfg upstream \<longleftrightarrow>
     (\<forall>target route. upstream = Some (target, route) \<longrightarrow>
        route = proxy_for re cfg target \<and> (route = Direct \<longrightarrow> (\<exists>host p. target = Domain host p)))"

definition routed :: "regex_api \<Rightarrow> config \<Rightarrow> broker \<Rightarrow> bool" where
  "routed re cfg b \<longleftrightarrow> br_config b = cfg \<and> (\<forall>t \<in> set (br_relays b). upstream_ok re cfg (rt_upstream t))"

interpretation routed_calls: udp_frame "routed re cfg" for re cfg
  by unfold_locales (simp_all add: routed_def)

lemma routed_updates:
  "keeps (routed re cfg) (remove_peer c)" "keeps (routed re cfg) (insert_peer c requested)"
  "keeps (routed re cfg) (settle_peer c)" "keeps (routed re cfg) release"
  "keeps (routed re cfg) (drop_registration r)" "keeps (routed re cfg) (connect_start fd a)"
  "keeps (routed re cfg) try_acquire" "keeps (routed re cfg) (on_ingress f)"
  by (simp_all add: keeps_def remove_peer_def insert_peer_def settle_peer_def release_def drop_registration_def
      connect_start_def try_acquire_def on_ingress_def update_def split_beta routed_def)

lemma routed_spawn:
  "upstream_ok re cfg (rt_upstream task) \<Longrightarrow> keeps (routed re cfg) (spawn_relay task)"
  by (auto simp: keeps_def spawn_relay_def update_def routed_def)

lemmas routed_steps = routed_calls.keeps_calls routed_updates routed_calls.keeps_connect_run [OF routed_updates(6)]

lemma routed_intercept:
  assumes "upstream_ok re cfg upstream"
  shows "keeps (routed re cfg) (intercept n env c requested upstream)"
proof -
  have "keeps (routed re cfg) (finish_connect r c upstream result)" for r result
    unfolding finish_connect_def using assms
    by (cases result) (auto intro!: keeps_seq_do routed_steps routed_spawn)
  then have "keeps (routed re cfg) (connect_to_ingress n env c upstream)"
    unfolding connect_to_ingress_def
    by (intro keeps_seq_do routed_steps keeps_attempt keeps_look_only)
  then show ?thesis
    unfolding intercept_def by (intro keeps_seq_do routed_steps keeps_or_else keeps_ask_kernel)
qed

lemma routed_route: "keeps (routed re cfg) (route_tcp re n env c requested)"
  unfolding route_tcp_def
proof (intro keeps_seq_do [OF routed_updates(1)] keeps_look keeps_seq_do [OF keeps_ask_kernel])
  fix b b' t
  assume "routed re cfg b'"
  then have "br_config b' = cfg" by (simp add: routed_def)
  then have "upstream_ok re cfg (if is_dns requested then None else Some (t, proxy_for re (br_config b') t))"
    if "\<not> (\<not> is_dns requested \<and> (case t of Ip _ _ \<Rightarrow> True | Domain _ _ \<Rightarrow> False) \<and> proxy_for re (br_config b') t = Direct)"
    using that by (cases t) (auto simp: upstream_ok_def)
  then show "keeps (routed re cfg)
      (if \<not> is_dns requested \<and> (case t of Ip _ _ \<Rightarrow> True | Domain _ _ \<Rightarrow> False) \<and> proxy_for re (br_config b') t = Direct
       then yield Continue
       else intercept n env c requested (if is_dns requested then None else Some (t, proxy_for re (br_config b') t)))"
    by (simp add: routed_intercept)
qed

lemma routed_connect: "keeps (routed re cfg) (connect_tcp re n env)"
  unfolding connect_tcp_def connect_known_def connect_again_def Let_def
  by (auto intro!: keeps_seq_do routed_steps routed_route split: option.split)

definition routed_here :: "regex_api \<Rightarrow> broker \<Rightarrow> bool" where
  "routed_here re b \<longleftrightarrow> routed re (br_config b) b"

lemma keeps_routed_here: "(\<And>cfg. keeps (routed re cfg) m) \<Longrightarrow> keeps (routed_here re) m"
  unfolding keeps_def routed_here_def
proof (intro allI impI)
  fix b
  assume m: "\<And>cfg. \<forall>s. routed re cfg s \<longrightarrow> routed re cfg (snd (m s))" and b: "routed re (br_config b) b"
  from m b have "routed re (br_config b) (snd (m b))" by blast
  then show "routed re (br_config (snd (m b))) (snd (m b))" by (simp add: routed_def)
qed

lemma routed_background: "background b b' \<Longrightarrow> routed_here re b \<Longrightarrow> routed_here re b'"
proof (induction rule: background.induct)
  case (connected i b)
  then have "upstream_ok re (br_config b) (rt_upstream (br_relays b ! i))"
    by (simp add: routed_here_def routed_def)
  with connected show ?case
    by (auto simp: routed_here_def routed_def task_connected_def dest!: set_update_subset_insert [THEN subsetD])
next
  case (ended i b)
  then show ?case
    by (auto simp: routed_here_def routed_def task_ended_def remove_nth_def dest: in_set_takeD in_set_dropD)
qed (simp_all add: routed_here_def routed_def)

interpretation routes: engine_invariant "routed_here re" re for re
proof unfold_locales
  show "keeps (routed_here re) (connect_tcp re n tenv)" for n tenv
    by (rule keeps_routed_here) (rule routed_connect)
  show "keeps (routed_here re) (datagram_dispatch A denv n)" for A denv n
    by (rule keeps_routed_here) (rule routed_calls.keeps_datagram_dispatch)
  show "routed_here re b" if "Broker_new access config dns_bound files_made ingress_bound t = Ok b"
    for access config dns_bound files_made ingress_bound t b
    using that by (auto simp: Broker_new_def and_then_Ok_iff routed_here_def routed_def)
  show "routed_here re b'" if "background b b'" "routed_here re b" for b b'
    by (rule routed_background [OF that])
qed (simp_all add: routed_here_def routed_def)

lemma connect_inner_server:
  "route_addr route = Some addr \<Longrightarrow> f addr = g addr \<Longrightarrow> connect_inner f route target = connect_inner g route target"
  by (cases route) (simp_all add: Socks5Connector_connect_def HttpConnector_connect_def)

lemma map_err_Err_iff: "map_err f r = Err x \<longleftrightarrow> (\<exists>e. r = Err e \<and> x = f e)"
  by (cases r) auto

lemma task_upstream_shared:
  assumes "upstream_ok re cfg (Some (target, route))"
  shows "fst (task_upstream env route target l) \<noteq> Err NoSharedConnector"
proof (cases route)
  case Direct
  with assms obtain host p where "target = Domain host p" by (auto simp: upstream_ok_def)
  with Direct show ?thesis by (auto simp: task_upstream_def map_err_Err_iff split: prod.split)
qed (auto simp: task_upstream_def ProxyConfig_connect_def map_err_Err_iff split: result.splits)

text \<open>
  C6. Every relay follows the configuration. In every reachable state, a relay task for a target
  uses the route that the rules and the default give for that target; it never runs into the
  missing connector of a direct route; and the only server that a proxied task contacts is the one
  of its route: what any other server would answer makes no difference.
\<close>

theorem relays_follow_routes:
  assumes "engine_reachable A re s received" and "task \<in> set (br_relays (en_broker s))"
    and "rt_upstream task = Some (target, route)"
  shows "route = proxy_for re (br_config (en_broker s)) target
    \<and> fst (relay_task_run env task ig r l) \<noteq> UpstreamFailed NoSharedConnector
    \<and> (\<forall>addr f. route_addr route = Some addr \<longrightarrow> f addr = tk_connect env addr \<longrightarrow>
         relay_task_run (env\<lparr>tk_connect := f\<rparr>) task ig r l = relay_task_run env task ig r l)"
proof (intro conjI allI impI)
  from routes.reachable_inv [OF assms(1)] assms(2,3)
  have ok: "upstream_ok re (br_config (en_broker s)) (Some (target, route))"
    by (auto simp: routed_here_def routed_def)
  then show "route = proxy_for re (br_config (en_broker s)) target" by (simp add: upstream_ok_def)
  show "fst (relay_task_run env task ig r l) \<noteq> UpstreamFailed NoSharedConnector"
    using assms(3) task_upstream_shared [OF ok, of env l]
    by (auto simp: relay_task_run_def split: option.splits result.splits prod.splits)
  fix addr f assume a: "route_addr route = Some addr" "f addr = tk_connect env addr"
  have "connect_inner f route target = connect_inner (tk_connect env) route target"
    using a by (intro connect_inner_server)
  moreover have "route \<noteq> Direct" using a(1) by auto
  ultimately have "task_upstream (env\<lparr>tk_connect := f\<rparr>) route target = task_upstream env route target"
    by (cases route; cases target) (simp_all add: task_upstream_def ProxyConfig_connect_def fun_eq_iff)
  then show "relay_task_run (env\<lparr>tk_connect := f\<rparr>) task ig r l = relay_task_run env task ig r l"
    using assms(3) by (auto simp: relay_task_run_def task_total_def split: option.split result.split prod.split)
qed

text \<open>As long as the kernel has no answer queued, every request to the listener succeeds.\<close>

lemma quiet_steps:
  "keeps (\<lambda>b. br_answers b = []) (on_memory m)" "keeps (\<lambda>b. br_answers b = []) (broker_valid n)"
  "keeps (\<lambda>b. br_answers b = []) (remove_peer c)" "keeps (\<lambda>b. br_answers b = []) (insert_peer c requested)"
  "keeps (\<lambda>b. br_answers b = []) (settle_peer c)" "keeps (\<lambda>b. br_answers b = []) release"
  "keeps (\<lambda>b. br_answers b = []) (drop_registration r)" "keeps (\<lambda>b. br_answers b = []) (connect_start fd a)"
  "keeps (\<lambda>b. br_answers b = []) try_acquire" "keeps (\<lambda>b. br_answers b = []) (on_ingress f)"
  "keeps (\<lambda>b. br_answers b = []) (spawn_relay task)"
  by (simp_all add: keeps_def remove_peer_def insert_peer_def settle_peer_def release_def drop_registration_def
      connect_start_def try_acquire_def on_ingress_def update_def split_beta spawn_relay_def broker_valid_def
      listener_call_def Let_def)

lemma quiet_wait: "keeps (\<lambda>b. br_answers b = []) (connect_wait n es)"
proof (induction es)
  case (Cons e es)
  then show ?case
    by (cases "(n, e # es)" rule: connect_wait.cases) (auto intro!: keeps_seq_do quiet_steps keeps_ask_kernel)
qed simp

lemma quiet_run: "keeps (\<lambda>b. br_answers b = []) (connect_run n fd a es)"
  unfolding connect_run_def by (intro keeps_seq_do quiet_steps quiet_wait)

lemma quiet_connect: "keeps (\<lambda>b. br_answers b = []) (connect_tcp re n env)"
proof -
  have "keeps (\<lambda>b. br_answers b = []) (finish_connect r c upstream result)" for r c upstream result
    unfolding finish_connect_def by (cases result) (auto intro!: keeps_seq_do quiet_steps)
  then have "keeps (\<lambda>b. br_answers b = []) (intercept n env c requested upstream)" for c requested upstream
    unfolding intercept_def connect_to_ingress_def
    by (intro keeps_seq_do quiet_steps quiet_run keeps_or_else keeps_ask_kernel keeps_attempt keeps_look_only)
  then show ?thesis
    unfolding connect_tcp_def connect_known_def connect_again_def route_tcp_def Let_def
    by (auto intro!: keeps_seq_do quiet_steps quiet_run keeps_look keeps_ask_kernel split: option.split)
qed

theorem relays_follow_routes_witness:
  "\<exists>s task. engine_reachable x86_64_abi literal_re s [example_connect] \<and> br_relays (en_broker s) = [task]
    \<and> rt_upstream task = Some (Ip (V4 0xcb007101) 80, Socks5 ''p:1'' None)
    \<and> proxy_for literal_re (br_config (en_broker s)) (Ip (V4 0xcb007101) 80) = Socks5 ''p:1'' None"
proof -
  let ?b = "example_broker (address_bytes (sock_addr 0xcb007101 80))"
  let ?c = "?b\<lparr>br_calls := [CheckId 1, CheckId 1]\<rparr>" and ?n = example_connect
  let ?s = "(engine_new ?b)\<lparr>en_requests := [?n]\<rparr>"
  obtain b' where r: "connect_tcp literal_re ?n example_env ?c = (Ok (Value 0), b')"
    using example_connect_runs [OF example_address, of "[CheckId 1, CheckId 1]"] by (metis prod.collapse)
  have st: "sockets_state (te_sock example_env) (te_info_size example_env) = Ok TCP_CLOSE"
    by (simp add: example_answers)
  have ip: "fst (ipv4_at (nt_pid ?n) (sd_args (nt_data ?n) ! 1) (sd_args (nt_data ?n) ! 2) (br_target ?c))
      = Ok (sock_addr 0xcb007101 80)"
    using example_reads(2) [of "br_target ?c"] by (simp add: example_call_def example_broker_def)
  have nd: "\<not> is_dns (sock_addr 0xcb007101 80)" by (simp add: is_dns_def DNS_PORT_def)
  from connect_books [OF r st ip] nd example_route [OF example_address]
  obtain task where task: "br_relays b' = [task]"
    "rt_upstream task = Some (Ip (V4 0xcb007101) 80, Socks5 ''p:1'' None)"
    by (auto simp: example_broker_def simp del: proxy_for.simps)
  have quiet: "br_answers b' = []"
    using quiet_connect [of literal_re ?n example_env] r by (auto simp: keeps_def example_broker_def dest: spec [of _ ?c])
  have "\<exists>cs. broker_respond ?n (Ok (Value 0)) b' = (Ok (), b'\<lparr>br_calls := cs\<rparr>)"
    using quiet by (auto simp: broker_respond_def answer_value_def respond_def listener_call_def Let_def
        split: prod.split list.split)
  then obtain cs where reply: "broker_respond ?n (Ok (Value 0)) b' = (Ok (), b'\<lparr>br_calls := cs\<rparr>)" ..
  have "engine_reachable x86_64_abi literal_re (engine_new ?b) []"
    by (rule engine_reachable.start [OF example_broker_new])
  moreover have "engine_step x86_64_abi literal_re (Notified (Some (Ok ?n)) :: nat engine_event) (engine_new ?b) = Inl ?s"
    by (simp add: notified_step_def engine_new_def)
  ultimately have s: "engine_reachable x86_64_abi literal_re ?s [?n]"
    using engine_reachable.event by fastforce
  let ?s' = "?s\<lparr>en_broker := b'\<lparr>br_calls := cs\<rparr>, en_requests := [], en_answered := [?n]\<rparr>"
  have "outcome (dispatch x86_64_abi literal_re example_engine_env ?n) ?b = (Ok (Ok (Value 0)), b')"
    using r by (simp add: outcome_def example_dispatch in_context_def)
  then have "engine_step x86_64_abi literal_re (RequestRuns 0 example_engine_env) ?s = Inl ?s'"
    using reply by (simp add: request_step_def engine_new_def remove_nth_def)
  with s have s': "engine_reachable x86_64_abi literal_re ?s' [?n]"
    using engine_reachable.event by fastforce
  have "proxy_for literal_re (br_config (en_broker ?s')) (Ip (V4 0xcb007101) 80) = Socks5 ''p:1'' None"
    using relays_follow_routes [OF s', of task] task by (simp del: proxy_for.simps)
  with task show ?thesis
    by (intro exI [of _ ?s'] exI [of _ task] conjI) (rule s', simp_all del: proxy_for.simps)
qed

end
