(* ===== verification/Diagnostics.thy ===== *)
theory Diagnostics
  imports Sockets
begin

text \<open>
  \<open>src/broker/diagnostics.rs\<close>: the dump of the cookies of all TCP sockets that the broker asks the
  kernel for, to forget the peers of sockets that are gone. The kernel is a function of the system
  calls that prepare the dump, and a list of the datagrams it answers with. A \<open>recv\<close> with
  \<open>MSG_TRUNC\<close> reports the full length of a datagram, so a datagram is the list of all its bytes.
\<close>

section \<open>The request\<close>

datatype diag_call =
    NetlinkSocket int int int
  | NetlinkConnect int u16
  | ReceiveTimeout int nat nat
  | NetlinkSend int bytes int

type_synonym diag_kernel = "diag_call \<Rightarrow> int io_result"

abbreviation AF_NETLINK :: int where "AF_NETLINK \<equiv> 16"
abbreviation SOCK_RAW :: int where "SOCK_RAW \<equiv> 3"
abbreviation SOCK_CLOEXEC_i :: int where "SOCK_CLOEXEC_i \<equiv> 0x80000"
abbreviation NETLINK_SOCK_DIAG :: int where "NETLINK_SOCK_DIAG \<equiv> 4"
abbreviation MSG_NOSIGNAL_i :: int where "MSG_NOSIGNAL_i \<equiv> 0x4000"

definition diagnostic_socket :: "diag_kernel \<Rightarrow> int io_result" where
  "diagnostic_socket k =
     and_then (k (NetlinkSocket AF_NETLINK (SOCK_RAW OR SOCK_CLOEXEC_i) NETLINK_SOCK_DIAG)) (\<lambda>fd.
     and_then (k (NetlinkConnect fd 16)) (\<lambda>_.
     and_then (k (ReceiveTimeout fd 2 0)) (\<lambda>_. Ok fd)))"

definition diag_request :: bytes where
  "diag_request =
     copy_at 64 (replicate 8 0xff)
     (copy_at 20 (to_ne_bytes (- 1 :: u32))
     (((copy_at 8 (to_ne_bytes (1 :: u32))
        (copy_at 6 (to_ne_bytes (0x301 :: u16))
        (copy_at 4 (to_ne_bytes (20 :: u16))
        (copy_at 0 (to_ne_bytes (72 :: u32)) (replicate 72 0)))))[16 := 2])[17 := 6]))"

section \<open>The answers\<close>

datatype diag_end = DumpDone "u64 list" | DumpFailed io_error | DumpMore "u64 list"

text \<open>\<open>(len + 3) & !3\<close>\<close>

definition nlmsg_align :: "nat \<Rightarrow> nat" where
  "nlmsg_align len = (len + 3) div 4 * 4"

definition diag_cookie :: "bytes \<Rightarrow> u64" where
  "diag_cookie payload =
     (let low = (from_ne_bytes (take 4 (drop 44 payload)) :: u32);
          high = (from_ne_bytes (take 4 (drop 48 payload)) :: u32)
      in ucast low OR push_bit 32 (ucast high))"

text \<open>
  The messages of one datagram. The negation of the error code wraps around at the width of
  \<open>i32\<close>, as it does without overflow checks.
\<close>

function diag_messages :: "bytes \<Rightarrow> nat \<Rightarrow> u64 list \<Rightarrow> diag_end" where
  "diag_messages buffer offset sockets =
     (if offset + 16 > length buffer then DumpMore sockets
      else let header = take 16 (drop offset buffer);
               len = unat (from_ne_bytes (take 4 header) :: u32);
               kind = (from_ne_bytes (take 2 (drop 4 header)) :: u16);
               flags = (from_ne_bytes (take 2 (drop 6 header)) :: u16)
           in if len < 16 \<or> offset + len > length buffer then DumpFailed (Custom OtherKind)
              else if flags AND 0x10 \<noteq> 0 then DumpFailed (Custom Interrupted)
              else let payload = take (len - 16) (drop (offset + 16) buffer)
                   in if kind = 3 then DumpDone sockets
                      else if kind = 2 then
                        (if length payload < 4 then DumpFailed (Custom OtherKind)
                         else let errno = (from_ne_bytes (take 4 payload) :: u32)
                              in if errno \<noteq> 0 then DumpFailed (Os (sint (- errno)))
                                 else diag_messages buffer (offset + nlmsg_align len) sockets)
                      else diag_messages buffer (offset + nlmsg_align len)
                        (if kind = 20 \<and> length payload \<ge> 72 then List.insert (diag_cookie payload) sockets
                         else sockets))"
  by pat_completeness auto

text \<open>Every message is at least a header long, so the offset grows.\<close>

lemma nlmsg_align_ge: "len \<le> nlmsg_align len"
  by (simp add: nlmsg_align_def)

lemma nlmsg_advances:
  "\<not> offset + 16 > bound \<Longrightarrow> \<not> (len < 16 \<or> beyond) \<Longrightarrow> bound - (offset + nlmsg_align len) < bound - offset"
  using nlmsg_align_ge [of len] by linarith

termination diag_messages
  by (relation "measure (\<lambda>(buffer, offset, sockets). length buffer - offset)")
    (simp, (simp only: in_measure prod.case, erule nlmsg_advances, simp only: not_False_eq_True)+)

declare diag_messages.simps [simp del]

fun diag_receive :: "bytes io_result list \<Rightarrow> u64 list \<Rightarrow> u64 list io_result option" where
  "diag_receive [] sockets = None"
| "diag_receive (Err e # answers) sockets =
     (if kind e = Interrupted then diag_receive answers sockets else Some (Err e))"
| "diag_receive (Ok datagram # answers) sockets =
     (if datagram = [] \<or> length datagram > 65536 then Some (Err (Custom OtherKind))
      else case diag_messages datagram 0 sockets of
        DumpDone sockets' \<Rightarrow> Some (Ok sockets')
      | DumpFailed e \<Rightarrow> Some (Err e)
      | DumpMore sockets' \<Rightarrow> diag_receive answers sockets')"

text \<open>\<open>None\<close> is a dump for which the kernel still owes a datagram.\<close>

definition snapshot :: "diag_kernel \<Rightarrow> bytes io_result list \<Rightarrow> u64 list io_result option" where
  "snapshot k answers =
     (case and_then (diagnostic_socket k) (\<lambda>fd. k (NetlinkSend fd diag_request MSG_NOSIGNAL_i)) of
        Err e \<Rightarrow> Some (Err e)
      | Ok written \<Rightarrow> diag_receive answers [])"

section \<open>Messages of the kernel\<close>

text \<open>The layout of a message: its length, kind and flags, a sequence number and a port, the payload, and padding.\<close>

record netlink_message =
  nm_kind :: u16
  nm_flags :: u16
  nm_origin :: bytes
  nm_payload :: bytes

definition nm_len :: "netlink_message \<Rightarrow> nat" where
  "nm_len m = 16 + length (nm_payload m)"

definition nm_bytes :: "netlink_message \<Rightarrow> bytes" where
  "nm_bytes m = to_ne_bytes (of_nat (nm_len m) :: u32) @ to_ne_bytes (nm_kind m) @ to_ne_bytes (nm_flags m)
     @ nm_origin m @ nm_payload m @ replicate (nlmsg_align (nm_len m) - nm_len m) 0"

definition nm_wf :: "netlink_message \<Rightarrow> bool" where
  "nm_wf m \<longleftrightarrow> length (nm_origin m) = 8 \<and> nm_len m < 2 ^ 32"

definition nm_plain :: "netlink_message \<Rightarrow> bool" where
  "nm_plain m \<longleftrightarrow> nm_wf m \<and> nm_flags m AND 0x10 = 0 \<and> nm_kind m \<notin> {2, 3}"

definition socket_cookies :: "netlink_message list \<Rightarrow> u64 set" where
  "socket_cookies ms =
     {from_ne_bytes (take 8 (drop 44 (nm_payload m))) | m. m \<in> set ms \<and> nm_kind m = 20 \<and> 72 \<le> length (nm_payload m)}"

lemma length_nm_bytes: "nm_wf m \<Longrightarrow> length (nm_bytes m) = nlmsg_align (nm_len m)"
  using nlmsg_align_ge [of "nm_len m"] by (simp add: nm_bytes_def nm_wf_def nm_len_def)

lemma nm_bytes_not_Nil [simp]: "nm_bytes m \<noteq> []"
proof -
  have "to_ne_bytes (of_nat (nm_len m) :: u32) \<noteq> []"
    using length_to_ne_bytes [of "of_nat (nm_len m) :: u32"] by force
  then show ?thesis by (simp add: nm_bytes_def)
qed

text \<open>The two halves of a cookie in a dump are the eight bytes that \<open>SO_COOKIE\<close> gives.\<close>

lemma diag_cookie_bytes:
  assumes "52 \<le> length payload"
  shows "diag_cookie payload = from_ne_bytes (take 8 (drop 44 payload))"
proof (rule bit_word_eqI)
  fix n assume n: "n < LENGTH(64)"
  have at: "take 4 (drop 44 payload) ! i = take 8 (drop 44 payload) ! i"
    "take 4 (drop 48 payload) ! i = take 8 (drop 44 payload) ! (i + 4)" if "i < 4" for i
    using that assms by (simp_all add: ac_simps)
  show "bit (diag_cookie payload) n = bit (from_ne_bytes (take 8 (drop 44 payload)) :: u64) n"
  proof (cases "n < 32")
    case True
    then have "n div 8 < 4" by simp
    with True at(1) assms show ?thesis
      by (auto simp: diag_cookie_def bit_simps bit_from_ne_bytes)
  next
    case False
    then obtain m where m: "n = m + 32" by (metis add.commute le_Suc_ex not_less)
    with n have "m < 32" by simp
    then have "m div 8 < 4" "n div 8 = m div 8 + 4" "n mod 8 = m mod 8"
      using m mod_mult_self2 [of m 8 4] by simp_all
    with False n m at(2) [of "m div 8"] assms show ?thesis
      by (auto simp: diag_cookie_def bit_simps bit_from_ne_bytes)
  qed
qed

definition add_cookie :: "netlink_message \<Rightarrow> u64 list \<Rightarrow> u64 list" where
  "add_cookie m sockets =
     (if nm_kind m = 20 \<and> 72 \<le> length (nm_payload m) then List.insert (diag_cookie (nm_payload m)) sockets else sockets)"

lemma diag_messages_at:
  assumes "offset + 16 \<le> length buffer" and "take 16 (drop offset buffer) = header"
    and "unat (from_ne_bytes (take 4 header) :: u32) = len" and "from_ne_bytes (take 2 (drop 4 header)) = type_id"
    and "from_ne_bytes (take 2 (drop 6 header)) = flags" and "take (len - 16) (drop (offset + 16) buffer) = payload"
    and "16 \<le> len" and "offset + len \<le> length buffer"
  shows "diag_messages buffer offset sockets =
    (if (flags :: u16) AND 0x10 \<noteq> 0 then DumpFailed (Custom Interrupted)
     else if (type_id :: u16) = 3 then DumpDone sockets
     else if type_id = 2 then
       (if length payload < 4 then DumpFailed (Custom OtherKind)
        else if (from_ne_bytes (take 4 payload) :: u32) \<noteq> 0
        then DumpFailed (Os (sint (- (from_ne_bytes (take 4 payload) :: u32))))
        else diag_messages buffer (offset + nlmsg_align len) sockets)
     else diag_messages buffer (offset + nlmsg_align len)
       (if type_id = 20 \<and> 72 \<le> length payload then List.insert (diag_cookie payload) sockets else sockets))"
proof -
  have "\<not> length buffer < offset + 16" "\<not> (len < 16 \<or> length buffer < offset + len)"
    using assms(1,7,8) by auto
  then show ?thesis
    by (subst diag_messages.simps) (simp only: Let_def assms(2-6) if_False)
qed

lemma diag_messages_step:
  assumes "nm_wf m"
  shows "diag_messages (pre @ nm_bytes m @ post) (length pre) sockets =
    (if nm_flags m AND 0x10 \<noteq> 0 then DumpFailed (Custom Interrupted)
     else if nm_kind m = 3 then DumpDone sockets
     else if nm_kind m = 2 then
       (if length (nm_payload m) < 4 then DumpFailed (Custom OtherKind)
        else if (from_ne_bytes (take 4 (nm_payload m)) :: u32) \<noteq> 0
        then DumpFailed (Os (sint (- (from_ne_bytes (take 4 (nm_payload m)) :: u32))))
        else diag_messages (pre @ nm_bytes m @ post) (length (pre @ nm_bytes m)) sockets)
     else diag_messages (pre @ nm_bytes m @ post) (length (pre @ nm_bytes m)) (add_cookie m sockets))"
proof -
  let ?b = "pre @ nm_bytes m @ post" and ?len = "to_ne_bytes (of_nat (nm_len m) :: u32)"
  have wf: "length (nm_origin m) = 8" "nm_len m < 2 ^ 32" using assms by (simp_all add: nm_wf_def)
  have header: "take 16 (drop (length pre) ?b) = ?len @ to_ne_bytes (nm_kind m) @ to_ne_bytes (nm_flags m) @ nm_origin m"
    using wf by (simp add: nm_bytes_def)
  have len: "unat (of_nat (nm_len m) :: u32) = nm_len m" using wf(2) by (simp add: unat_of_nat_small)
  have payload: "take (nm_len m - 16) (drop (length pre + 16) ?b) = nm_payload m"
    using wf by (simp add: nm_bytes_def nm_len_def)
  have fits: "length pre + 16 \<le> length ?b" "length pre + nm_len m \<le> length ?b" "16 \<le> nm_len m"
    using nlmsg_align_ge [of "nm_len m"] by (simp_all add: length_nm_bytes [OF assms] nm_len_def)
  have next_offset: "length pre + nlmsg_align (nm_len m) = length (pre @ nm_bytes m)"
    by (simp add: length_nm_bytes [OF assms])
  show ?thesis
    unfolding add_cookie_def next_offset [symmetric]
    by (rule diag_messages_at [OF fits(1) header _ _ _ payload fits(3,2)]) (simp_all add: len)
qed

lemma diag_messages_plain:
  assumes "list_all nm_plain ms"
  shows "diag_messages (pre @ concat (map nm_bytes ms) @ post) (length pre) sockets =
    diag_messages (pre @ concat (map nm_bytes ms) @ post) (length (pre @ concat (map nm_bytes ms))) (fold add_cookie ms sockets)"
  using assms
proof (induction ms arbitrary: pre sockets)
  case (Cons m ms)
  then have "nm_plain m" and ms: "list_all nm_plain ms" by simp_all
  then have m: "nm_wf m" "nm_flags m AND 0x10 = 0" "nm_kind m \<noteq> 2" "nm_kind m \<noteq> 3"
    by (simp_all add: nm_plain_def)
  from diag_messages_step [OF m(1), of pre "concat (map nm_bytes ms) @ post"] m(2-4) Cons.IH [OF ms, of "pre @ nm_bytes m"]
  show ?case by simp
qed simp

lemma diag_messages_end: "diag_messages buffer (length buffer) sockets = DumpMore sockets"
  by (subst diag_messages.simps) simp

lemma set_add_cookies:
  "set (fold add_cookie ms sockets) = set sockets \<union> socket_cookies ms"
  "distinct sockets \<Longrightarrow> distinct (fold add_cookie ms sockets)"
proof -
  have add: "set (add_cookie m sockets) = set sockets \<union> socket_cookies [m]" for m sockets
    by (auto simp: add_cookie_def socket_cookies_def diag_cookie_bytes)
  show "set (fold add_cookie ms sockets) = set sockets \<union> socket_cookies ms"
  proof (induction ms arbitrary: sockets)
    case Nil
    then show ?case by (simp add: socket_cookies_def)
  next
    case (Cons m ms)
    have "socket_cookies (m # ms) = socket_cookies [m] \<union> socket_cookies ms"
      by (auto simp: socket_cookies_def)
    then show ?case by (simp add: Cons.IH add Un_assoc)
  qed
  show "distinct sockets \<Longrightarrow> distinct (fold add_cookie ms sockets)"
    by (induction ms arbitrary: sockets) (simp_all add: add_cookie_def)
qed

text \<open>Signals that interrupt the broker change nothing.\<close>

lemma diag_receive_interrupted:
  "diag_receive answers sockets = diag_receive (filter (\<lambda>a. a \<noteq> Err (Os EINTR)) answers) sockets"
proof (induction answers arbitrary: sockets)
  case (Cons a answers)
  then show ?case by (cases a) (auto split: diag_end.split)
qed simp

lemma diag_receive_plain:
  assumes "\<forall>ms \<in> set dumps. list_all nm_plain ms \<and> ms \<noteq> [] \<and> length (concat (map nm_bytes ms)) \<le> 65536"
  shows "diag_receive (map (\<lambda>ms. Ok (concat (map nm_bytes ms))) dumps @ answers) sockets =
    diag_receive answers (fold add_cookie (concat dumps) sockets)"
  using assms
proof (induction dumps arbitrary: sockets)
  case (Cons ms dumps)
  let ?d = "concat (map nm_bytes ms)"
  have ms: "list_all nm_plain ms" "ms \<noteq> []" "length ?d \<le> 65536" using Cons.prems by simp_all
  then obtain m ns where "ms = m # ns" by (cases ms) simp_all
  then have "?d \<noteq> []" by simp
  moreover have "diag_messages ?d 0 sockets = DumpMore (fold add_cookie ms sockets)"
    using diag_messages_plain [OF ms(1), of "[]" "[]"] by (simp add: diag_messages_end)
  ultimately show ?case using Cons ms(3) by simp
qed simp


text \<open>A dump that the kernel marks as inconsistent never passes for a snapshot.\<close>

lemma snapshot_inconsistent:
  assumes "list_all nm_plain ms" and "nm_wf m" and "nm_flags m AND 0x10 \<noteq> 0"
    and "length (concat (map nm_bytes ms) @ nm_bytes m @ rest) \<le> 65536"
  shows "diag_receive (Ok (concat (map nm_bytes ms) @ nm_bytes m @ rest) # answers) sockets = Some (Err (Custom Interrupted))"
  using diag_messages_plain [OF assms(1), of "[]" "nm_bytes m @ rest"] assms
    diag_messages_step [OF assms(2), of "concat (map nm_bytes ms)"]
  by simp

text \<open>A dump of one socket, with a signal before the end.\<close>

definition example_dump :: netlink_message where
  "example_dump = \<lparr>nm_kind = 20, nm_flags = 2, nm_origin = replicate 8 0,
     nm_payload = replicate 44 0 @ [1, 2, 0, 0, 3, 0, 0, 0] @ replicate 20 0\<rparr>"

definition example_dump_end :: netlink_message where
  "example_dump_end = \<lparr>nm_kind = 3, nm_flags = 2, nm_origin = replicate 8 0, nm_payload = [0, 0, 0, 0]\<rparr>"


end
