(* ===== verification/Receiver.thy ===== *)
theory Receiver
  imports Tcp_Stream Seccomp "HOL-Library.Multiset" "HOL-Library.Sublist"
begin

text \<open>
  \<open>src/broker/receiver.rs\<close>: the thread that receives notifications and hands them to the broker
  through a channel of 256 entries. The thread is a state machine. Its steps are the returns of the
  two calls it blocks in, and they interleave with what the broker does: taking an entry, closing
  the channel and telling the thread to stop.
\<close>

section \<open>Starting and stopping\<close>

datatype receiver_call =
    Sigurg bool
  | EventFd
  | EpollCreate
  | EpollAdd int int u64
  | SpawnThread
  | WakeWrite
  | KillThread

type_synonym receiver_kernel = "receiver_call \<Rightarrow> int io_result"
type_synonym 'a preparing = "('a, io_error, receiver_call list) action"

definition setup_call :: "receiver_kernel \<Rightarrow> receiver_call \<Rightarrow> int preparing" where
  "setup_call k c calls = (k c, calls @ [c])"

text \<open>\<open>inspect_err\<close> with the handler that puts the previous action of \<open>SIGURG\<close> back.\<close>

definition restoring :: "receiver_kernel \<Rightarrow> 'a preparing \<Rightarrow> 'a preparing" where
  "restoring k m calls =
     (case m calls of
        (Ok a, calls') \<Rightarrow> (Ok a, calls')
      | (Err e, calls') \<Rightarrow> (Err e, snd (setup_call k (Sigurg False) calls')))"

definition poller :: "receiver_kernel \<Rightarrow> int \<Rightarrow> int \<Rightarrow> int preparing" where
  "poller k listener wake =
     seq_do (setup_call k EpollCreate) (\<lambda>raw.
     seq_do (setup_call k (EpollAdd raw listener 1)) (\<lambda>_.
     seq_do (setup_call k (EpollAdd raw wake 2)) (\<lambda>_. yield raw)))"

definition Receiver_start :: "receiver_kernel \<Rightarrow> int \<Rightarrow> (int \<times> int) preparing" where
  "Receiver_start k listener =
     seq_do (setup_call k (Sigurg True)) (\<lambda>_.
     seq_do (restoring k (setup_call k EventFd)) (\<lambda>wake.
     seq_do (restoring k (poller k listener wake)) (\<lambda>epoll.
     seq_do (restoring k (setup_call k SpawnThread)) (\<lambda>_. yield (wake, epoll)))))"

text \<open>Dropping the receiver; the argument is what \<open>is_finished\<close> reports.\<close>

definition Receiver_drop :: "bool list \<Rightarrow> receiver_call list" where
  "Receiver_drop finished =
     WakeWrite # replicate (length (takeWhile Not finished)) KillThread @ [Sigurg False]"

section \<open>The thread\<close>

datatype receiver_pc = Waiting | Receiving | Ended

record receiver =
  rc_pc :: receiver_pc
  rc_stop :: bool
  rc_queue :: "notification io_result list"
  rc_closed :: bool
  rc_received :: "notification list"
  rc_taken :: "notification list"
  rc_refused :: "notification list"
  rc_lost :: "notification list"
  rc_calls :: "seccomp_ioctl list"

definition receiver_new :: receiver where
  "receiver_new = \<lparr>rc_pc = Waiting, rc_stop = False, rc_queue = [], rc_closed = False, rc_received = [], rc_taken = [],
     rc_refused = [], rc_lost = [], rc_calls = []\<rparr>"

record epoll_event =
  ep_events :: u32
  ep_tag :: u64

abbreviation EPOLLIN :: u32 where "EPOLLIN \<equiv> 1"
abbreviation EPOLLERR :: u32 where "EPOLLERR \<equiv> 8"
abbreviation EPOLLHUP :: u32 where "EPOLLHUP \<equiv> 0x10"

datatype receiver_event =
    PollReturns "epoll_event list io_result"
  | ReceiveReturns "notification io_result"
  | StopStored
  | BrokerTakes
  | BrokerCloses

datatype try_send_error = Full | Closed

definition try_send :: "notification io_result \<Rightarrow> receiver \<Rightarrow> (unit, try_send_error) result \<times> receiver" where
  "try_send x s =
     (if rc_closed s then (Err Closed, s)
      else if length (rc_queue s) \<ge> 256 then (Err Full, s)
      else (Ok (), s\<lparr>rc_queue := rc_queue s @ [x]\<rparr>))"

text \<open>The head of the loop.\<close>

definition again :: "receiver \<Rightarrow> receiver" where
  "again s = s\<lparr>rc_pc := if rc_stop s then Ended else Waiting\<rparr>"

definition poll_returns :: "epoll_event list io_result \<Rightarrow> receiver \<Rightarrow> receiver" where
  "poll_returns answer s =
     (case answer of
        Err e \<Rightarrow> if kind e = Interrupted then again s else (snd (try_send (Err e) s))\<lparr>rc_pc := Ended\<rparr>
      | Ok events \<Rightarrow>
          if rc_stop s then s\<lparr>rc_pc := Ended\<rparr>
          else (case find (\<lambda>event. ep_tag event = 1) events of
                  None \<Rightarrow> again s
                | Some event \<Rightarrow>
                    if ep_events event AND EPOLLIN \<noteq> 0 then s\<lparr>rc_pc := Receiving\<rparr>
                    else if ep_events event AND (EPOLLHUP OR EPOLLERR) \<noteq> 0 then s\<lparr>rc_pc := Ended\<rparr>
                    else again s))"

definition refuse :: "notification \<Rightarrow> receiver \<Rightarrow> receiver" where
  "refuse n s = s\<lparr>rc_calls := rc_calls s @ snd (respond (\<lambda>_. Ok ()) (nt_id n) 0 EAGAIN False),
                  rc_refused := rc_refused s @ [n]\<rparr>"

definition receive_returns :: "notification io_result \<Rightarrow> receiver \<Rightarrow> receiver" where
  "receive_returns answer s =
     (case fst (receive answer) of
        Ok n \<Rightarrow>
          (case try_send (Ok n) (s\<lparr>rc_received := rc_received s @ [n]\<rparr>) of
             (Ok u, s') \<Rightarrow> again s'
           | (Err Full, s') \<Rightarrow> again (refuse n s')
           | (Err Closed, s') \<Rightarrow> s'\<lparr>rc_lost := rc_lost s' @ [n], rc_pc := Ended\<rparr>)
      | Err e \<Rightarrow>
          if raw_os_error e \<in> {Some EINTR, Some ENOENT, Some EAGAIN} then again s
          else if raw_os_error e \<in> {Some ENOMEM, Some ENOBUFS} then again s
          else (snd (try_send (Err e) s))\<lparr>rc_pc := Ended\<rparr>)"

definition broker_takes :: "receiver \<Rightarrow> receiver" where
  "broker_takes s =
     s\<lparr>rc_queue := tl (rc_queue s), rc_taken := rc_taken s @ ok_values (take 1 (rc_queue s))\<rparr>"

definition broker_closes :: "receiver \<Rightarrow> receiver" where
  "broker_closes s =
     s\<lparr>rc_closed := True, rc_queue := [], rc_lost := rc_lost s @ ok_values (rc_queue s)\<rparr>"

fun receiver_step :: "receiver_event \<Rightarrow> receiver \<Rightarrow> receiver" where
  "receiver_step (PollReturns answer) s = (if rc_pc s = Waiting then poll_returns answer s else s)"
| "receiver_step (ReceiveReturns answer) s = (if rc_pc s = Receiving then receive_returns answer s else s)"
| "receiver_step StopStored s = s\<lparr>rc_stop := True\<rparr>"
| "receiver_step BrokerTakes s = broker_takes s"
| "receiver_step BrokerCloses s = broker_closes s"

definition receiver_run :: "receiver_event list \<Rightarrow> receiver" where
  "receiver_run es = fold receiver_step es receiver_new"

section \<open>No notification is forgotten\<close>

definition busy_response :: "notification \<Rightarrow> seccomp_ioctl" where
  "busy_response n = SendResponse \<lparr>rs_id = nt_id n, rs_val = 0, rs_error = - EAGAIN, rs_flags = 0\<rparr>"

definition receiver_inv :: "receiver \<Rightarrow> bool" where
  "receiver_inv s \<longleftrightarrow>
     length (rc_queue s) \<le> 256
     \<and> mset (rc_received s) = mset (rc_taken s) + mset (ok_values (rc_queue s)) + mset (rc_refused s) + mset (rc_lost s)
     \<and> subseq (rc_taken s @ ok_values (rc_queue s)) (rc_received s)
     \<and> (rc_lost s = [] \<or> rc_closed s)
     \<and> rc_calls s = map busy_response (rc_refused s)"

lemma inv_pc [simp]: "receiver_inv (s\<lparr>rc_pc := pc\<rparr>) = receiver_inv s"
  by (simp add: receiver_inv_def)

lemma inv_again [simp]: "receiver_inv (again s) = receiver_inv s"
  by (simp add: again_def)

lemma inv_send_error: "receiver_inv s \<Longrightarrow> receiver_inv (snd (try_send (Err e) s))"
  by (auto simp: receiver_inv_def try_send_def)

lemma inv_poll: "receiver_inv s \<Longrightarrow> receiver_inv (poll_returns answer s)"
  by (auto simp: poll_returns_def inv_send_error split: result.split option.split)

lemma inv_send:
  assumes "receiver_inv s" and "try_send (Ok n) (s\<lparr>rc_received := rc_received s @ [n]\<rparr>) = (Ok u, s')"
  shows "receiver_inv s'"
proof -
  from assms(1) have "subseq ((rc_taken s @ ok_values (rc_queue s)) @ [n]) (rc_received s @ [n])"
    unfolding receiver_inv_def by (intro list_emb_append_mono) auto
  with assms show ?thesis by (auto simp: receiver_inv_def try_send_def split: if_splits)
qed

lemma inv_receive: "receiver_inv s \<Longrightarrow> receiver_inv (receive_returns answer s)"
proof (cases answer)
  case (Err e)
  assume "receiver_inv s"
  then show ?thesis by (simp add: Err receive_returns_def receive_def inv_send_error)
next
  case (Ok n)
  assume inv: "receiver_inv s"
  let ?s = "s\<lparr>rc_received := rc_received s @ [n]\<rparr>"
  consider (sent) u s' where "try_send (Ok n) ?s = (Ok u, s')" | (full) "try_send (Ok n) ?s = (Err Full, ?s)"
    | (closed) "try_send (Ok n) ?s = (Err Closed, ?s)" "rc_closed s"
    by (cases "rc_closed s"; cases "256 \<le> length (rc_queue s)") (auto simp: try_send_def)
  then show ?thesis
  proof cases
    case sent
    with inv_send [OF inv sent] Ok show ?thesis by (simp add: receive_returns_def receive_def)
  next
    case full
    with inv Ok show ?thesis
      by (auto simp: receive_returns_def receive_def refuse_def receiver_inv_def respond_def busy_response_def again_def
          intro: list_emb_append2)
  next
    case closed
    with inv Ok show ?thesis
      by (auto simp: receive_returns_def receive_def receiver_inv_def intro: list_emb_append2)
  qed
qed

lemma inv_takes: "receiver_inv s \<Longrightarrow> receiver_inv (broker_takes s)"
proof (cases "rc_queue s")
  case (Cons x xs)
  assume "receiver_inv s"
  then show ?thesis by (cases x) (simp_all add: Cons receiver_inv_def broker_takes_def)
qed (simp add: receiver_inv_def broker_takes_def)

lemma inv_closes: "receiver_inv s \<Longrightarrow> receiver_inv (broker_closes s)"
  using subseq_order.trans [of "rc_taken s" "rc_taken s @ ok_values (rc_queue s)" "rc_received s"]
  by (auto simp: receiver_inv_def broker_closes_def subseq_rev_drop_many)

lemma inv_step: "receiver_inv s \<Longrightarrow> receiver_inv (receiver_step e s)"
  by (cases e) (auto simp: inv_poll inv_receive inv_takes inv_closes, simp add: receiver_inv_def)

interpretation receiving: event_machine receiver_step receiver_inv
  by unfold_locales (rule inv_step)

lemma receiver_run_inv: "receiver_inv (receiver_run es)"
  unfolding receiver_run_def by (rule receiving.run_inv) (simp add: receiver_inv_def receiver_new_def)

text \<open>Once the flag is set, the next return of the call that the thread blocks in ends it.\<close>

lemma stop_ends:
  assumes "rc_stop s"
  shows "rc_pc s = Waiting \<Longrightarrow> rc_pc (receiver_step (PollReturns p) s) = Ended"
    and "rc_pc s = Receiving \<Longrightarrow> rc_pc (receiver_step (ReceiveReturns r) s) = Ended"
  using assms
  by (auto simp: poll_returns_def receive_returns_def receive_def again_def refuse_def try_send_def
      split: result.split option.split try_send_error.split)

text \<open>
  C14. The receiving thread forgets nothing. Whatever the kernel answers and the broker does, every
  notification that was received was taken by the broker, waits in the channel, was refused with
  \<open>EAGAIN\<close> because the channel held 256 entries, or was lost because the broker had closed it:
  exactly one of these. The broker gets them in the order of their arrival, the responses of the
  thread are exactly these refusals, and after the flag to stop is set the thread ends with the
  next return of the call it blocks in.
\<close>

theorem receiver_accounts:
  assumes "s = receiver_run es"
  shows "length (rc_queue s) \<le> 256
    \<and> mset (rc_received s) = mset (rc_taken s) + mset (ok_values (rc_queue s)) + mset (rc_refused s) + mset (rc_lost s)
    \<and> subseq (rc_taken s @ ok_values (rc_queue s)) (rc_received s)
    \<and> (rc_lost s = [] \<or> rc_closed s)
    \<and> rc_calls s = map busy_response (rc_refused s)
    \<and> (rc_stop s \<longrightarrow> (rc_pc s = Waiting \<longrightarrow> rc_pc (receiver_step (PollReturns p) s) = Ended)
         \<and> (rc_pc s = Receiving \<longrightarrow> rc_pc (receiver_step (ReceiveReturns r) s) = Ended))"
  using receiver_run_inv [of es] stop_ends [of s] by (simp add: assms receiver_inv_def)

definition example_notification :: notification where
  "example_notification = \<lparr>nt_id = 5, nt_pid = 7, nt_flags = 0,
     nt_data = \<lparr>sd_nr = 42, sd_arch = 0, sd_ip = 0, sd_args = []\<rparr>\<rparr>"

definition example_receiver_events :: "receiver_event list" where
  "example_receiver_events =
     [PollReturns (Ok [\<lparr>ep_events = EPOLLIN, ep_tag = 1\<rparr>]), ReceiveReturns (Ok example_notification), StopStored]"

theorem receiver_accounts_witness:
  "rc_queue (receiver_run example_receiver_events) = [Ok example_notification]
   \<and> rc_pc (receiver_step (PollReturns (Ok [])) (receiver_run example_receiver_events)) = Ended"
proof -
  have "rc_queue (receiver_run example_receiver_events) = [Ok example_notification]"
    "rc_stop (receiver_run example_receiver_events)" "rc_pc (receiver_run example_receiver_events) = Waiting"
    by (simp_all add: receiver_run_def example_receiver_events_def poll_returns_def receive_returns_def receive_def
        try_send_def again_def receiver_new_def)
  with receiver_accounts [OF refl, of example_receiver_events "Ok []"] show ?thesis by simp
qed

section \<open>The signal handler\<close>

text \<open>Whether the handler of the receiver is in place after a sequence of calls.\<close>

fun handler_after :: "receiver_kernel \<Rightarrow> bool \<Rightarrow> receiver_call list \<Rightarrow> bool" where
  "handler_after k installed [] = installed"
| "handler_after k installed (c # cs) =
     handler_after k (case c of Sigurg on \<Rightarrow> (if is_ok (k c) then on else installed) | _ \<Rightarrow> installed) cs"

lemma handler_after_append:
  "handler_after k installed (cs @ ds) = handler_after k (handler_after k installed cs) ds"
  by (induction cs arbitrary: installed) simp_all

lemma handler_replicate: "handler_after k installed (replicate n KillThread) = installed"
  by (induction n) simp_all

text \<open>
  The action of \<open>SIGURG\<close> is the receiver's own exactly while it exists: a start that fails at
  any point has put the previous action back, and so does dropping the receiver.
\<close>

lemma receiver_handler:
  assumes "is_ok (k (Sigurg False))" and "Receiver_start k listener [] = (r, calls)"
  shows "handler_after k False calls = is_ok r
    \<and> (is_ok r \<longrightarrow> \<not> handler_after k False (calls @ Receiver_drop finished))"
proof
  show "handler_after k False calls = is_ok r"
    using assms
    by (auto simp: Receiver_start_def seq_do_def restoring_def setup_call_def poller_def yield_def
        handler_after_append split: result.splits prod.splits)
  show "is_ok r \<longrightarrow> \<not> handler_after k False (calls @ Receiver_drop finished)"
    using assms(1) by (simp add: Receiver_drop_def handler_after_append handler_replicate)
qed

end
