(* ===== verification/Process.thy ===== *)
theory Process
  imports Tcp_Stream
begin

text \<open>
  \<open>src/process.rs\<close>: the reaper that runs the command, collects every descendant and forwards
  termination signals to all of them. What \<open>/proc\<close> shows, the answers of the kernel and the
  clock (in milliseconds) are arguments. The walk over the descendants reads every process at most
  once, so a function of the process covers a table that changes during the walk.
\<close>

section \<open>Process identifiers\<close>

type_synonym pid = "32 word"

text \<open>\<open>str::split_whitespace\<close>, with the characters of the current word.\<close>

function split_ws :: "string \<Rightarrow> string \<Rightarrow> string list" where
  "split_ws word [] = (if word = [] then [] else [word])"
| "split_ws word (c # s) =
     (case find_strip ws_encodings (c # s) of
        None \<Rightarrow> split_ws (word @ [c]) s
      | Some rest \<Rightarrow> if word = [] then split_ws [] rest else word # split_ws [] rest)"
  by pat_completeness auto

lemma find_strip_ws: "find_strip ws_encodings s = Some r \<Longrightarrow> length r < length s"
  using find_strip_Some [of ws_encodings s r] by (auto simp: ws_encodings_def)

termination split_ws
  by (relation "measure (\<lambda>(word, s). length s)") (auto dest: find_strip_ws)

declare split_ws.simps [simp del]

definition split_whitespace :: "string \<Rightarrow> string list" where
  "split_whitespace s = split_ws [] s"

text \<open>\<open>str::parse::<i32>\<close>\<close>

definition parse_i32 :: "string \<Rightarrow> int option" where
  "parse_i32 s =
     (case s of
        [] \<Rightarrow> None
      | c # ds \<Rightarrow>
          if c = CHR ''-'' then (if ds = [] then None else map_option (\<lambda>n. - int n) (parse_digits (2 ^ 31) 0 ds))
          else map_option int (parse_uint (2 ^ 31 - 1) s))"

section \<open>Errors\<close>

datatype process_error =
    SubreaperError io_error
  | MaskError io_error
  | ForkError io_error
  | SetupError io_error
  | NoCommand
  | NulByte
  | ExecError io_error
  | NoStatus
  | WaitError int
  | ListThreads io_error
  | ThreadEntry io_error
  | ListChildren io_error
  | BadPid string
  | KillError pid int io_error
  | SignalWaitError int
  | UnknownSignal int

abbreviation SIGHUP :: int where "SIGHUP \<equiv> 1"
abbreviation SIGINT :: int where "SIGINT \<equiv> 2"
abbreviation SIGKILL :: int where "SIGKILL \<equiv> 9"
abbreviation SIGTERM :: int where "SIGTERM \<equiv> 15"
abbreviation SIGCHLD :: int where "SIGCHLD \<equiv> 17"

definition TERMINATION_GRACE :: nat where
  "TERMINATION_GRACE = 2000"

section \<open>Signalling the descendants\<close>

type_synonym kill_kernel = "pid \<Rightarrow> int \<Rightarrow> unit io_result"

definition forward_signal :: "kill_kernel \<Rightarrow> pid \<Rightarrow> int \<Rightarrow> (unit, process_error) result" where
  "forward_signal kill p signal =
     (case kill p signal of
        Ok u \<Rightarrow> Ok ()
      | Err e \<Rightarrow> if raw_os_error e = Some ESRCH then Ok () else Err (KillError p signal e))"

record proc_tree =
  pt_tasks :: "pid \<Rightarrow> (nat io_result list) io_result"
  pt_children :: "pid \<Rightarrow> nat \<Rightarrow> string io_result"

record walk =
  wk_pending :: "pid list"
  wk_descendants :: "pid list"
  wk_seen :: "pid set"

definition walk_new :: "pid \<Rightarrow> walk" where
  "walk_new root = \<lparr>wk_pending = [root], wk_descendants = [], wk_seen = {root}\<rparr>"

definition visit_child :: "pid \<Rightarrow> walk \<Rightarrow> walk" where
  "visit_child child w =
     (if child \<in> wk_seen w then w
      else \<lparr>wk_pending = wk_pending w @ [child], wk_descendants = wk_descendants w @ [child],
            wk_seen = insert child (wk_seen w)\<rparr>)"

fun visit_children :: "string list \<Rightarrow> walk \<Rightarrow> (walk, process_error) result" where
  "visit_children [] w = Ok w"
| "visit_children (s # ss) w =
     (case parse_i32 s of
        None \<Rightarrow> Err (BadPid s)
      | Some p \<Rightarrow> visit_children ss (visit_child (word_of_int p) w))"

fun visit_tasks ::
  "(nat \<Rightarrow> string io_result) \<Rightarrow> nat io_result list \<Rightarrow> walk \<Rightarrow> (walk, process_error) result" where
  "visit_tasks children [] w = Ok w"
| "visit_tasks children (Err e # ts) w = Err (ThreadEntry e)"
| "visit_tasks children (Ok t # ts) w =
     (case children t of
        Err e \<Rightarrow> if kind e = NotFound then visit_tasks children ts w else Err (ListChildren e)
      | Ok text \<Rightarrow> and_then (visit_children (split_whitespace text) w) (visit_tasks children ts))"

text \<open>The loop ends: a process identifier is pushed when it is first seen, and there are \<open>2 ^ 32\<close> of them.\<close>

definition walk_left :: "walk \<Rightarrow> nat" where
  "walk_left w = card (- wk_seen w) + length (wk_pending w)"

lemma visit_child_left [simp]: "walk_left (visit_child c w) = walk_left w"
proof (cases "c \<in> wk_seen w")
  case False
  have "- wk_seen w = insert c (- insert c (wk_seen w))" using False by auto
  moreover have "card (insert c (- insert c (wk_seen w))) = Suc (card (- insert c (wk_seen w)))"
    by (rule card_insert_disjoint) auto
  ultimately show ?thesis using False by (simp add: visit_child_def walk_left_def)
qed (simp add: visit_child_def)

lemma visit_children_left: "visit_children ss w = Ok w' \<Longrightarrow> walk_left w' = walk_left w"
  by (induction ss arbitrary: w) (auto split: option.splits)

lemma visit_tasks_left: "visit_tasks children ts w = Ok w' \<Longrightarrow> walk_left w' = walk_left w"
proof (induction children ts w rule: visit_tasks.induct)
  case (3 children t ts w)
  then show ?case by (auto simp: and_then_Ok_iff visit_children_left split: result.splits if_splits)
qed simp_all

function find_descendants :: "proc_tree \<Rightarrow> walk \<Rightarrow> (walk, process_error) result" where
  "find_descendants pt w =
     (if wk_pending w = [] then Ok w
      else let p = last (wk_pending w); popped = w\<lparr>wk_pending := butlast (wk_pending w)\<rparr>
           in case pt_tasks pt p of
                Err e \<Rightarrow> if kind e = NotFound then find_descendants pt popped else Err (ListThreads e)
              | Ok ts \<Rightarrow>
                  (case visit_tasks (pt_children pt p) ts popped of
                     Err e \<Rightarrow> Err e
                   | Ok w' \<Rightarrow> find_descendants pt w'))"
  by pat_completeness auto

lemma popped_left: "wk_pending w \<noteq> [] \<Longrightarrow> walk_left (w\<lparr>wk_pending := butlast (wk_pending w)\<rparr>) < walk_left w"
  by (simp add: walk_left_def)

termination find_descendants
  by (relation "measure (\<lambda>(pt, w). walk_left w)") (auto simp: popped_left visit_tasks_left)

declare find_descendants.simps [simp del]

fun signal_each :: "kill_kernel \<Rightarrow> int \<Rightarrow> pid list \<Rightarrow> (unit, process_error) result \<times> pid list" where
  "signal_each kill signal [] = (Ok (), [])"
| "signal_each kill signal (p # ps) =
     (case forward_signal kill p signal of
        Err e \<Rightarrow> (Err e, [p])
      | Ok u \<Rightarrow> (case signal_each kill signal ps of (r, done) \<Rightarrow> (r, p # done)))"

text \<open>The second component lists the processes that were signalled, in this order.\<close>

definition signal_descendants ::
  "proc_tree \<Rightarrow> kill_kernel \<Rightarrow> pid \<Rightarrow> int \<Rightarrow> (unit, process_error) result \<times> pid list" where
  "signal_descendants pt kill root signal =
     (case find_descendants pt (walk_new root) of
        Err e \<Rightarrow> (Err e, [])
      | Ok w \<Rightarrow> signal_each kill signal (rev (wk_descendants w)))"

section \<open>The walk finds the whole tree\<close>

text \<open>The children that \<open>/proc\<close> shows for a process, of all its threads.\<close>

definition text_pids :: "string \<Rightarrow> pid list" where
  "text_pids text = map (\<lambda>s. word_of_int (the (parse_i32 s))) (split_whitespace text)"

definition thread_pids :: "(nat \<Rightarrow> string io_result) \<Rightarrow> nat io_result \<Rightarrow> pid list" where
  "thread_pids children t =
     (case t of Err e \<Rightarrow> [] | Ok t' \<Rightarrow> (case children t' of Err e \<Rightarrow> [] | Ok text \<Rightarrow> text_pids text))"

definition child_pids :: "proc_tree \<Rightarrow> pid \<Rightarrow> pid list" where
  "child_pids pt p =
     (case pt_tasks pt p of Err e \<Rightarrow> [] | Ok ts \<Rightarrow> concat (map (thread_pids (pt_children pt p)) ts))"

definition descends :: "proc_tree \<Rightarrow> (pid \<times> pid) set" where
  "descends pt = {(p, c). c \<in> set (child_pids pt p)}"

lemma visit_children_Ok:
  "visit_children ss w = Ok w' \<Longrightarrow> w' = fold visit_child (map (\<lambda>s. word_of_int (the (parse_i32 s))) ss) w"
  by (induction ss arbitrary: w) (auto split: option.splits)

lemma visit_tasks_Ok:
  "visit_tasks children ts w = Ok w' \<Longrightarrow> w' = fold visit_child (concat (map (thread_pids children) ts)) w"
proof (induction children ts w rule: visit_tasks.induct)
  case (3 children t ts w)
  show ?case
  proof (cases "children t")
    case (Err e)
    with 3 show ?thesis by (simp add: thread_pids_def split: if_splits)
  next
    case (Ok shown)
    with 3(3) obtain v where v: "visit_children (split_whitespace shown) w = Ok v" "visit_tasks children ts v = Ok w'"
      by (auto simp: and_then_Ok_iff)
    from 3(1) [OF Ok v] visit_children_Ok [OF v(1)] show ?thesis
      by (simp add: thread_pids_def text_pids_def Ok)
  qed
qed (simp_all add: thread_pids_def)

text \<open>
  What holds at every pass: everything seen is the root or a descendant that was found through a
  process found before it, and the children of whatever is not pending have been seen.
\<close>

definition found_via :: "proc_tree \<Rightarrow> pid \<Rightarrow> pid list \<Rightarrow> bool" where
  "found_via pt root ds \<longleftrightarrow>
     (\<forall>j < length ds. \<exists>p. ds ! j \<in> set (child_pids pt p) \<and> (p = root \<or> p \<in> set (take j ds)))"

definition walk_inv :: "proc_tree \<Rightarrow> pid \<Rightarrow> pid set \<Rightarrow> walk \<Rightarrow> bool" where
  "walk_inv pt root exempt w \<longleftrightarrow>
     wk_seen w = insert root (set (wk_descendants w)) \<and> distinct (root # wk_descendants w)
     \<and> set (wk_pending w) \<subseteq> wk_seen w \<and> found_via pt root (wk_descendants w)
     \<and> (\<forall>p \<in> wk_seen w - set (wk_pending w) - exempt. set (child_pids pt p) \<subseteq> wk_seen w)"

lemma found_via_snoc:
  assumes "found_via pt root ds" and "c \<in> set (child_pids pt p)" and "p = root \<or> p \<in> set ds"
  shows "found_via pt root (ds @ [c])"
  using assms by (auto simp: found_via_def nth_append less_Suc_eq)

lemma visit_child_inv:
  assumes "walk_inv pt root {p} w" and "p \<in> wk_seen w" and "c \<in> set (child_pids pt p)"
  shows "walk_inv pt root {p} (visit_child c w) \<and> insert c (wk_seen w) = wk_seen (visit_child c w)"
proof (cases "c \<in> wk_seen w")
  case False
  from assms have "p = root \<or> p \<in> set (wk_descendants w)" by (auto simp: walk_inv_def)
  with assms have "found_via pt root (wk_descendants w @ [c])"
    by (intro found_via_snoc [of _ _ _ _ p]) (auto simp: walk_inv_def)
  with assms False show ?thesis by (auto simp: visit_child_def walk_inv_def)
qed (use assms in \<open>auto simp: visit_child_def\<close>)

lemma visit_all_inv:
  assumes "walk_inv pt root {p} w" and "p \<in> wk_seen w" and "set cs \<subseteq> set (child_pids pt p)"
  shows "walk_inv pt root {p} (fold visit_child cs w) \<and> set cs \<union> wk_seen w = wk_seen (fold visit_child cs w)"
  using assms
proof (induction cs arbitrary: w)
  case (Cons c cs)
  from Cons.prems visit_child_inv [of pt root p w c]
  have "walk_inv pt root {p} (visit_child c w)" "insert c (wk_seen w) = wk_seen (visit_child c w)" by simp_all
  with Cons.IH [of "visit_child c w"] Cons.prems show ?case by auto
qed simp

lemma walk_inv_done:
  "walk_inv pt root {p} w \<Longrightarrow> set (child_pids pt p) \<subseteq> wk_seen w \<Longrightarrow> walk_inv pt root {} w"
  unfolding walk_inv_def by blast

lemma walk_inv_pop:
  assumes "walk_inv pt root {} w" and "wk_pending w \<noteq> []"
  shows "walk_inv pt root {last (wk_pending w)} (w\<lparr>wk_pending := butlast (wk_pending w)\<rparr>)
    \<and> last (wk_pending w) \<in> wk_seen w"
proof -
  have p: "set (wk_pending w) = insert (last (wk_pending w)) (set (butlast (wk_pending w)))"
    using assms(2) by (metis append_butlast_last_id insert_is_Un list.simps(15) set_append sup_commute empty_set)
  then have "wk_seen w - set (butlast (wk_pending w)) - {last (wk_pending w)} = wk_seen w - set (wk_pending w) - {}"
    by blast
  with p assms(1) show ?thesis unfolding walk_inv_def by simp blast
qed

lemma find_descendants_inv:
  "find_descendants pt w = Ok w' \<Longrightarrow> walk_inv pt root {} w \<Longrightarrow> walk_inv pt root {} w' \<and> wk_pending w' = []"
proof (induction pt w rule: find_descendants.induct)
  case (1 pt w)
  show ?case
  proof (cases "wk_pending w = []")
    case True
    with 1 show ?thesis by (simp add: find_descendants.simps [of pt w])
  next
    case False
    let ?p = "last (wk_pending w)" and ?w = "w\<lparr>wk_pending := butlast (wk_pending w)\<rparr>"
    have inv: "walk_inv pt root {?p} ?w" "?p \<in> wk_seen ?w" using walk_inv_pop [OF 1(4) False] by simp_all
    show ?thesis
    proof (cases "pt_tasks pt ?p")
      case (Err e)
      with False 1(3) have n: "kind e = NotFound" "find_descendants pt ?w = Ok w'"
        by (auto simp: find_descendants.simps [of pt w] split: if_splits)
      have "set (child_pids pt ?p) \<subseteq> wk_seen ?w" by (simp add: child_pids_def Err)
      with 1(2) [OF False refl refl Err n] walk_inv_done [OF inv(1)] show ?thesis by blast
    next
      case (Ok ts)
      with False 1(3) obtain v where v: "visit_tasks (pt_children pt ?p) ts ?w = Ok v" "find_descendants pt v = Ok w'"
        by (auto simp: find_descendants.simps [of pt w] split: result.splits)
      have "v = fold visit_child (child_pids pt ?p) ?w"
        using visit_tasks_Ok [OF v(1)] by (simp add: child_pids_def Ok)
      with visit_all_inv [OF inv order_refl]
      have "walk_inv pt root {?p} v" "set (child_pids pt ?p) \<subseteq> wk_seen v" by auto
      with 1(1) [OF False refl refl Ok v] walk_inv_done show ?thesis by blast
    qed
  qed
qed

lemma found_via_descends:
  assumes "found_via pt root ds" and "d \<in> set ds"
  shows "(root, d) \<in> (descends pt)\<^sup>+"
proof -
  have "j < length ds \<Longrightarrow> (root, ds ! j) \<in> (descends pt)\<^sup>+" for j
  proof (induction j rule: less_induct)
    case (less j)
    with assms(1) obtain p where p: "ds ! j \<in> set (child_pids pt p)" "p = root \<or> p \<in> set (take j ds)"
      by (auto simp: found_via_def)
    then have e: "(p, ds ! j) \<in> descends pt" by (simp add: descends_def)
    show ?case
    proof (cases "p = root")
      case False
      with p obtain i where "i < j" "p = ds ! i" using less.prems by (auto simp: in_set_conv_nth)
      with less.IH [of i] less.prems e show ?thesis by (auto intro: trancl_into_trancl)
    qed (use e in auto)
  qed
  with assms(2) show ?thesis by (auto simp: in_set_conv_nth)
qed

lemma find_descendants_exact:
  assumes "find_descendants pt (walk_new root) = Ok w"
  shows "distinct (root # wk_descendants w) \<and> found_via pt root (wk_descendants w)
    \<and> set (wk_descendants w) = {p. (root, p) \<in> (descends pt)\<^sup>+} - {root}"
proof -
  have "walk_inv pt root {} (walk_new root)" by (simp add: walk_inv_def walk_new_def found_via_def)
  from find_descendants_inv [OF assms this]
  have w: "walk_inv pt root {} w" "wk_pending w = []" by simp_all
  then have seen: "wk_seen w = insert root (set (wk_descendants w))"
    and closed: "p \<in> wk_seen w \<Longrightarrow> (p, c) \<in> descends pt \<Longrightarrow> c \<in> wk_seen w" for p c
    by (auto simp: walk_inv_def descends_def)
  have root: "root \<in> wk_seen w" by (simp add: seen)
  have "(root, p) \<in> (descends pt)\<^sup>+ \<Longrightarrow> p \<in> wk_seen w" for p
    by (induction rule: trancl_induct) (blast intro: closed root)+
  with w seen found_via_descends [of pt root "wk_descendants w"] show ?thesis
    by (auto simp: walk_inv_def)
qed

lemma signal_each_prefix:
  "signal_each kill signal ps = (r, killed) \<Longrightarrow> \<exists>m. killed = take m ps \<and> (r = Ok () \<longrightarrow> killed = ps)"
proof (induction ps arbitrary: killed)
  case (Cons p ps)
  show ?case
  proof (cases "forward_signal kill p signal")
    case (Ok u)
    obtain q ds where rest: "signal_each kill signal ps = (q, ds)" by force
    with Cons.prems Ok have k: "killed = p # ds" "q = r" by simp_all
    with Cons.IH rest obtain m where "ds = take m ps" "r = Ok () \<longrightarrow> ds = ps" by blast
    with k(1) show ?thesis by (intro exI [of _ "Suc m"]) simp
  next
    case (Err e)
    with Cons.prems show ?thesis by (intro exI [of _ 1]) auto
  qed
qed simp

lemma reversed_order:
  assumes "distinct (root # ds)" and "found_via pt root ds" and "i < length (take m (rev ds))"
  shows "\<exists>p. take m (rev ds) ! i \<in> set (child_pids pt p) \<and> p \<notin> set (take (Suc i) (take m (rev ds)))"
proof -
  let ?j = "length ds - Suc i"
  have i: "i < m" "i < length ds" using assms(3) by simp_all
  then have j: "?j < length ds" by simp
  from i have at: "take m (rev ds) ! i = ds ! ?j" by (simp add: rev_nth)
  have "take (Suc i) (take m (rev ds)) = rev (drop ?j ds)" using i by (simp add: take_rev min_absorb1)
  moreover obtain p where "ds ! ?j \<in> set (child_pids pt p)" "p = root \<or> p \<in> set (take ?j ds)"
    using assms(2) j unfolding found_via_def by blast
  moreover have "set (take ?j ds) \<inter> set (drop ?j ds) = {}" using assms(1) by (simp add: set_take_disj_set_drop_if_distinct)
  moreover have "root \<notin> set (drop ?j ds)" using assms(1) by (auto dest: in_set_dropD)
  ultimately show ?thesis unfolding at by auto
qed

text \<open>
  C12. A termination signal reaches the whole command tree. The walk over the process table always
  ends; when it and the signalling succeed, the processes signalled are exactly the descendants of
  the reaper, of any thread, group or session, each once, and never the reaper itself. Whenever a
  process is signalled, a process it was found as a child of has not been signalled before it. If
  the table cannot be read, nothing is signalled.
\<close>

theorem signals_reach_whole_tree:
  assumes "signal_descendants pt kill root signal = (r, killed)"
  shows "distinct killed \<and> set killed \<subseteq> {p. (root, p) \<in> (descends pt)\<^sup>+} - {root}
    \<and> (r = Ok () \<longrightarrow> set killed = {p. (root, p) \<in> (descends pt)\<^sup>+} - {root})
    \<and> (\<forall>i < length killed. \<exists>p. killed ! i \<in> set (child_pids pt p) \<and> p \<notin> set (take (Suc i) killed))
    \<and> (\<forall>e. find_descendants pt (walk_new root) = Err e \<longrightarrow> killed = [])"
proof (cases "find_descendants pt (walk_new root)")
  case (Err e)
  with assms show ?thesis by (auto simp: signal_descendants_def)
next
  case (Ok w)
  let ?ds = "wk_descendants w"
  from assms Ok have "signal_each kill signal (rev ?ds) = (r, killed)" by (simp add: signal_descendants_def)
  from signal_each_prefix [OF this] obtain m where
    killed: "killed = take m (rev ?ds)" "r = Ok () \<longrightarrow> killed = rev ?ds" by blast
  have w: "distinct (root # ?ds)" "found_via pt root ?ds" "set ?ds = {p. (root, p) \<in> (descends pt)\<^sup>+} - {root}"
    using find_descendants_exact [OF Ok] by simp_all
  have "set killed \<subseteq> set ?ds" using killed(1) by (auto dest: in_set_takeD)
  moreover have "distinct killed" using w(1) killed(1) by simp
  moreover have "\<forall>i < length killed. \<exists>p. killed ! i \<in> set (child_pids pt p) \<and> p \<notin> set (take (Suc i) killed)"
    using reversed_order [OF w(1,2)] unfolding killed(1) by blast
  ultimately show ?thesis using Ok killed(2) w(3) by auto
qed

text \<open>A reaper with two children, one of which has a child started by its second thread.\<close>

definition example_tree :: proc_tree where
  "example_tree =
     \<lparr>pt_tasks = (\<lambda>p. if p = 1 then Ok [Ok 1] else if p = 2 then Ok [Ok 2, Ok 9]
                     else if p = 3 then Ok [Ok 3] else Err (Os ENOENT)),
      pt_children = (\<lambda>p t. if t = 1 then Ok ''2 3'' else if t = 9 then Ok ''4'' else Ok [])\<rparr>"

lemma example_walk: "signal_descendants example_tree (\<lambda>p s. Ok ()) 1 signal = (Ok (), [4, 3, 2])"
proof -
  have texts: "split_whitespace ''2 3'' = [''2'', ''3'']" "split_whitespace ''4'' = [''4'']" "split_whitespace [] = []"
    by (simp_all add: split_whitespace_def split_ws.simps ws_encodings_def)
  have pids: "parse_i32 ''2'' = Some 2" "parse_i32 ''3'' = Some 3" "parse_i32 ''4'' = Some 4"
    by (simp_all add: parse_i32_def to_digit_def)
  show ?thesis
    by (simp add: signal_descendants_def walk_new_def find_descendants.simps example_tree_def texts pids
        visit_child_def Let_def forward_signal_def)
qed

theorem signals_reach_whole_tree_witness:
  "{p. (1, p) \<in> (descends example_tree)\<^sup>+} - {1} = {4, 3, 2}"
  using signals_reach_whole_tree [OF example_walk [of SIGTERM]] by simp

section \<open>Reaping the command tree\<close>

datatype wait_status = WExited pid int | WSignaled pid int | WStillAlive | WOther

type_synonym wait_answer = "(wait_status, int) result"

text \<open>
  The inner loop over \<open>waitpid\<close>: the status of the command so far when no child has ended yet, or
  the end of the reaper. \<open>None\<close> is a loop that is still running.
\<close>

fun reap :: "pid \<Rightarrow> wait_answer list \<Rightarrow> int option \<Rightarrow> (int option + (int, process_error) result) option" where
  "reap command [] code = None"
| "reap command (Ok (WExited p c) # ws) code = reap command ws (if p = command then Some c else code)"
| "reap command (Ok (WSignaled p s) # ws) code = reap command ws (if p = command then Some (128 + s) else code)"
| "reap command (Ok WStillAlive # ws) code = Some (Inl code)"
| "reap command (Ok WOther # ws) code = reap command ws code"
| "reap command (Err e # ws) code =
     (if e = EINTR then reap command ws code
      else if e = ECHILD then Some (Inr (ok_or code NoStatus))
      else Some (Inr (Err (WaitError e))))"

text \<open>One pass of the outer loop: what the kernel, the clock and the process table answer during it.\<close>

record tree_round =
  rd_waits :: "wait_answer list"
  rd_now :: nat
  rd_tree :: proc_tree
  rd_kill :: kill_kernel
  rd_received :: "(int, int) result"
  rd_then :: nat

record forwarding =
  fw_now :: nat
  fw_signal :: int
  fw_pids :: "pid list"
  fw_timeout :: nat

text \<open>Forwarding during one pass, and the timeout of the wait that follows it.\<close>

definition forward_round ::
  "pid \<Rightarrow> (int \<times> nat) option \<Rightarrow> tree_round \<Rightarrow> (unit, process_error) result \<times> forwarding list" where
  "forward_round self termination round =
     (case termination of
        None \<Rightarrow> (Ok (), [])
      | Some (signal, deadline) \<Rightarrow>
          let remaining = deadline - rd_now round;
              signal' = (if remaining = 0 then SIGKILL else signal)
          in case signal_descendants (rd_tree round) (rd_kill round) self signal' of
               (r, killed) \<Rightarrow>
                 (r, [\<lparr>fw_now = rd_now round, fw_signal = signal', fw_pids = killed,
                       fw_timeout = if remaining = 0 then 100 else remaining\<rparr>]))"

definition signal_from :: "int \<Rightarrow> int option" where
  "signal_from n = (if 1 \<le> n \<and> n \<le> 31 then Some n else None)"

definition note_signal :: "int \<Rightarrow> nat \<Rightarrow> (int \<times> nat) option \<Rightarrow> (int \<times> nat) option" where
  "note_signal signal now termination =
     (if signal = SIGCHLD then termination
      else case termination of
        None \<Rightarrow> Some (signal, now + TERMINATION_GRACE)
      | Some (_, deadline) \<Rightarrow> Some (signal, deadline))"

fun wait_loop ::
  "pid \<Rightarrow> pid \<Rightarrow> tree_round list \<Rightarrow> int option \<Rightarrow> (int \<times> nat) option
     \<Rightarrow> (int, process_error) result option \<times> forwarding list" where
  "wait_loop self command [] code termination = (None, [])"
| "wait_loop self command (round # rounds) code termination =
     (case reap command (rd_waits round) code of
        None \<Rightarrow> (None, [])
      | Some (Inr r) \<Rightarrow> (Some r, [])
      | Some (Inl code') \<Rightarrow>
          (case forward_round self termination round of
             (Err e, log) \<Rightarrow> (Some (Err e), log)
           | (Ok u, log) \<Rightarrow>
               (let go = (\<lambda>termination'.
                  case wait_loop self command rounds code' termination' of (r, log') \<Rightarrow> (r, log @ log'))
                in case rd_received round of
                     Err e \<Rightarrow> if e = EINTR \<or> e = EAGAIN then go termination else (Some (Err (SignalWaitError e)), log)
                   | Ok n \<Rightarrow>
                       (case signal_from n of
                          None \<Rightarrow> (Some (Err (UnknownSignal n)), log)
                        | Some signal \<Rightarrow> go (note_signal signal (rd_then round) termination)))))"

definition wait_for_command_tree ::
  "pid \<Rightarrow> pid \<Rightarrow> tree_round list \<Rightarrow> (int, process_error) result option \<times> forwarding list" where
  "wait_for_command_tree self command rounds = wait_loop self command rounds None None"

section \<open>Running the command\<close>

datatype fork_result = ForkChild | ForkParent pid

definition set_child_subreaper :: "unit io_result \<Rightarrow> (unit, process_error) result" where
  "set_child_subreaper prctl = map_err SubreaperError prctl"

definition has_nul :: "string \<Rightarrow> bool" where
  "has_nul s \<longleftrightarrow> CHR 0x00 \<in> set s"

text \<open>\<open>execvp\<close> only returns to report an error; \<open>None\<close> is a process that has become the program.\<close>

definition exec_command :: "(string \<Rightarrow> string list \<Rightarrow> io_error option) \<Rightarrow> string list \<Rightarrow> process_error option" where
  "exec_command execvp command =
     (if command = [] then Some NoCommand
      else if \<exists>s \<in> set command. has_nul s then Some NulByte
      else map_option ExecError (execvp (hd command) command))"

record run_env =
  ru_subreaper :: "unit io_result"
  ru_block :: "unit io_result"
  ru_fork :: "fork_result io_result"
  ru_unblock :: "unit io_result"
  ru_command :: "unit io_result"
  ru_reaper :: "unit io_result"
  ru_execvp :: "string \<Rightarrow> string list \<Rightarrow> io_error option"
  ru_self :: pid
  ru_rounds :: "tree_round list"

datatype run_end = Returns "(int, process_error) result" | Exits int | Becomes "string list" | StillRunning

text \<open>A process that fails to execute the command exits with 1 after printing the error.\<close>

definition run_command_tree :: "run_env \<Rightarrow> string list \<Rightarrow> run_end" where
  "run_command_tree env command =
     (case and_then (set_child_subreaper (ru_subreaper env)) (\<lambda>_.
           and_then (map_err MaskError (ru_block env)) (\<lambda>_. map_err ForkError (ru_fork env))) of
        Err e \<Rightarrow> Returns (Err e)
      | Ok ForkChild \<Rightarrow>
          (case and_then (map_err MaskError (ru_unblock env)) (\<lambda>_. map_err SetupError (ru_command env)) of
             Err e \<Rightarrow> Returns (Err e)
           | Ok u \<Rightarrow> (case exec_command (ru_execvp env) command of None \<Rightarrow> Becomes command | Some e \<Rightarrow> Exits 1))
      | Ok (ForkParent child) \<Rightarrow>
          (case ru_reaper env of
             Err e \<Rightarrow> Returns (Err (SetupError e))
           | Ok u \<Rightarrow>
               (case fst (wait_for_command_tree (ru_self env) child (ru_rounds env)) of
                  None \<Rightarrow> StillRunning
                | Some r \<Rightarrow> Returns r)))"

section \<open>What the reaper reports and forwards\<close>

text \<open>The answers that one pass over \<open>waitpid\<close> reads before it stops, and the codes of the command among them.\<close>

definition goes_on :: "wait_answer \<Rightarrow> bool" where
  "goes_on a \<longleftrightarrow> (case a of Ok s \<Rightarrow> s \<noteq> WStillAlive | Err e \<Rightarrow> e = EINTR)"

fun command_codes :: "pid \<Rightarrow> wait_answer list \<Rightarrow> int list" where
  "command_codes command [] = []"
| "command_codes command (a # as) =
     (case a of
        Ok (WExited p c) \<Rightarrow> if p = command then [c] else []
      | Ok (WSignaled p s) \<Rightarrow> if p = command then [128 + s] else []
      | _ \<Rightarrow> []) @ command_codes command as"

definition round_codes :: "pid \<Rightarrow> tree_round \<Rightarrow> int list" where
  "round_codes command round = command_codes command (takeWhile goes_on (rd_waits round))"

definition childless :: "tree_round \<Rightarrow> bool" where
  "childless round \<longleftrightarrow> (\<exists>rest. dropWhile goes_on (rd_waits round) = Err ECHILD # rest)"

definition last_code :: "int option \<Rightarrow> int list \<Rightarrow> int option" where
  "last_code code codes = (if codes = [] then code else Some (last codes))"

lemma last_code_append [simp]: "last_code code (xs @ ys) = last_code (last_code code xs) ys"
  by (simp add: last_code_def)

lemma last_code_simps [simp]: "last_code code [] = code" "last_code code [c] = Some c"
  by (simp_all add: last_code_def)

lemma goes_on_simps [simp]: "goes_on (Ok s) \<longleftrightarrow> s \<noteq> WStillAlive" "goes_on (Err e) \<longleftrightarrow> e = EINTR"
  by (simp_all add: goes_on_def)

fun reap_end :: "int option \<Rightarrow> wait_answer list \<Rightarrow> (int option + (int, process_error) result) option" where
  "reap_end code [] = None"
| "reap_end code (Ok s # ws) = Some (Inl code)"
| "reap_end code (Err e # ws) = Some (Inr (if e = ECHILD then ok_or code NoStatus else Err (WaitError e)))"

lemma reap_reads:
  "reap command ws code =
     reap_end (last_code code (command_codes command (takeWhile goes_on ws))) (dropWhile goes_on ws)"
  by (induction command ws code rule: reap.induct) simp_all

lemma wait_loop_code:
  "wait_loop self command rounds code t = (Some (Ok c), log) \<Longrightarrow>
     \<exists>n < length rounds. childless (rounds ! n)
       \<and> last_code code (concat (map (round_codes command) (take (Suc n) rounds))) = Some c"
proof (induction rounds arbitrary: code t log)
  case (Cons round rounds)
  let ?code = "last_code code (round_codes command round)"
  show ?case
  proof (cases "dropWhile goes_on (rd_waits round)")
    case Nil
    with Cons.prems show ?thesis by (simp add: reap_reads)
  next
    case (Cons a rest)
    note stop = this
    show ?thesis
    proof (cases a)
      case (Err e)
      with stop Cons.prems have "e = ECHILD" "?code = Some c"
        by (auto simp: reap_reads round_codes_def Let_def split: if_splits)
      with stop Err show ?thesis by (intro exI [of _ 0]) (simp add: childless_def)
    next
      case (Ok s)
      with stop have "reap command (rd_waits round) code = Some (Inl ?code)"
        by (simp add: reap_reads round_codes_def Let_def)
      with Cons.prems obtain t' log' where
        "wait_loop self command rounds ?code t' = (Some (Ok c), log')"
        by (auto simp: Let_def split: prod.splits result.splits option.splits if_splits)
      from Cons.IH [OF this] obtain n where "n < length rounds" "childless (rounds ! n)"
        "last_code ?code (concat (map (round_codes command) (take (Suc n) rounds))) = Some c" by blast
      then show ?thesis by (intro exI [of _ "Suc n"]) simp
    qed
  qed
qed simp

text \<open>The termination signals received so far with their times, and what is due in a pass after them.\<close>

definition termination_signals :: "tree_round list \<Rightarrow> (int \<times> nat) list" where
  "termination_signals past =
     concat (map (\<lambda>round. case rd_received round of
               Ok n \<Rightarrow> if n = SIGCHLD then [] else [(n, rd_then round)] | Err e \<Rightarrow> []) past)"

definition due :: "tree_round list \<Rightarrow> tree_round \<Rightarrow> (nat \<times> int \<times> nat) list" where
  "due past round =
     (case termination_signals past of
        [] \<Rightarrow> []
      | (first, start) # others \<Rightarrow>
          if start + 2000 \<le> rd_now round then [(rd_now round, SIGKILL, 100)]
          else [(rd_now round, fst (last ((first, start) # others)), start + 2000 - rd_now round)])"

definition termination_after :: "tree_round list \<Rightarrow> (int \<times> nat) option" where
  "termination_after past =
     (case termination_signals past of
        [] \<Rightarrow> None
      | (first, start) # others \<Rightarrow> Some (fst (last ((first, start) # others)), start + 2000))"

definition forwarded_view :: "forwarding \<Rightarrow> nat \<times> int \<times> nat" where
  "forwarded_view f = (fw_now f, fw_signal f, fw_timeout f)"

lemma termination_after_snoc:
  "termination_after (past @ [round]) =
     (case rd_received round of Ok n \<Rightarrow> note_signal n (rd_then round) (termination_after past) | Err e \<Rightarrow> termination_after past)"
proof -
  have "termination_signals (past @ [round]) = termination_signals past @
      (case rd_received round of Ok n \<Rightarrow> if n = SIGCHLD then [] else [(n, rd_then round)] | Err e \<Rightarrow> [])"
    by (simp add: termination_signals_def)
  then show ?thesis
    by (cases "rd_received round"; cases "termination_signals past")
      (auto simp: termination_after_def note_signal_def TERMINATION_GRACE_def)
qed

lemma forward_round_due:
  "map forwarded_view (snd (forward_round self (termination_after past) round)) = due past round"
  by (auto simp: forward_round_def termination_after_def due_def forwarded_view_def Let_def split: list.split prod.split)

lemma wait_loop_due:
  "wait_loop self command rounds code (termination_after past) = (r, log) \<Longrightarrow>
     \<exists>n \<le> length rounds. map forwarded_view log = concat (map (\<lambda>i. due (past @ take i rounds) (rounds ! i)) [0..<n])"
proof (induction rounds arbitrary: past code log)
  case (Cons round rounds)
  obtain q l where f: "forward_round self (termination_after past) round = (q, l)" by force
  then have l: "map forwarded_view l = due past round" using forward_round_due [of self past round] by simp
  consider (none) "log = []" | (stop) "log = l" | (more) code' log' where "log = l @ log'"
      "wait_loop self command rounds code' (termination_after (past @ [round])) = (r, log')"
    using Cons.prems f
    by (auto simp: Let_def termination_after_snoc signal_from_def
        split: prod.splits result.splits option.splits sum.splits if_splits)
  then show ?case
  proof cases
    case none
    then show ?thesis by (intro exI [of _ 0]) simp
  next
    case stop
    with l show ?thesis by (intro exI [of _ 1]) simp
  next
    case more
    from Cons.IH [OF more(2)] obtain n where
      n: "n \<le> length rounds" "map forwarded_view log' = concat (map (\<lambda>i. due (past @ take (Suc i) (round # rounds)) (rounds ! i)) [0..<n])"
      by auto
    have "map (\<lambda>i. due (past @ take i (round # rounds)) ((round # rounds) ! i)) [0..<Suc n] =
        due past round # map (\<lambda>i. due (past @ take (Suc i) (round # rounds)) (rounds ! i)) [0..<n]"
      by (simp add: upt_conv_Cons map_Suc_upt [symmetric] del: upt_Suc)
    with n more(1) l show ?thesis by (intro exI [of _ "Suc n"]) (simp del: upt_Suc)
  qed
qed simp


text \<open>A command that ignores the first signal is killed two seconds later.\<close>

definition example_rounds :: "tree_round list" where
  "example_rounds =
     (let quiet = \<lparr>rd_waits = [Ok WStillAlive], rd_now = 0, rd_tree = example_tree, rd_kill = (\<lambda>p s. Ok ()),
                   rd_received = Ok SIGTERM, rd_then = 10\<rparr>
      in [quiet, quiet\<lparr>rd_now := 510, rd_received := Err EAGAIN\<rparr>, quiet\<lparr>rd_now := 2010, rd_received := Ok SIGCHLD\<rparr>,
          quiet\<lparr>rd_waits := [Ok (WSignaled 2 SIGKILL), Err EINTR, Err ECHILD]\<rparr>])"


end
