(* ===== verification/Service.thy ===== *)
theory Service
  imports Upstream Diagnostics Receiver Process
begin

text \<open>
  \<open>src/broker/mod.rs\<close>: how the command and the supervisor find each other. The command installs
  the filter and announces itself over a control channel; the supervisor checks that it can do
  everything the broker needs, starts it, and answers with one byte. Then the handle of the running
  broker, whose shutdown state the event loop watches.
\<close>

section \<open>The side of the command\<close>

datatype setup_error =
    ProbeSocket io_error
  | InstallFilter io_error
  | ControlWrite io_error
  | ControlRead io_error
  | HandshakeFailed
  | BootstrapError io_error

record child_env =
  ce_probe :: "u32 io_result"
  ce_install :: install_kernel
  ce_tid :: u32
  ce_address :: u64
  ce_write :: "unit io_result"
  ce_partial :: nat
  ce_read :: "bytes io_result"
  ce_memory :: u8
  ce_bootstrap :: "unit io_result"

definition metadata :: "u32 \<Rightarrow> u32 \<Rightarrow> u32 \<Rightarrow> u64 \<Rightarrow> bytes" where
  "metadata tid listener probe address =
     copy_at 12 (to_ne_bytes address)
     (copy_at 8 (to_ne_bytes probe)
     (copy_at 4 (to_ne_bytes listener)
     (copy_at 0 (to_ne_bytes tid) (replicate 20 0))))"

text \<open>
  The second component is what the command has written to the control channel; \<open>ce_partial\<close> bytes
  have been written when \<open>write_all\<close> fails.
\<close>

definition ChildSetup_command :: "abi \<Rightarrow> child_env \<Rightarrow> (unit, setup_error) result \<times> bytes" where
  "ChildSetup_command A env =
     (case and_then (map_err ProbeSocket (ce_probe env)) (\<lambda>probe.
           and_then (map_err InstallFilter (fst (install A (ce_install env)))) (\<lambda>listener.
           Ok (metadata (ce_tid env) listener probe (ce_address env)))) of
        Err e \<Rightarrow> (Err e, [])
      | Ok bs \<Rightarrow>
          (case ce_write env of
             Err e \<Rightarrow> (Err (ControlWrite e), take (ce_partial env) bs)
           | Ok u \<Rightarrow>
               (and_then (map_err ControlRead (ce_read env)) (\<lambda>ready.
                  if ready \<noteq> [1] \<or> ce_memory env \<noteq> 0x6e then Err HandshakeFailed
                  else map_err BootstrapError (ce_bootstrap env)), bs)))"

text \<open>
  The thread of the reaper that watches the supervisor: it reads until the channel ends and then
  asks its own process to terminate. \<open>None\<close> is a thread that still waits.
\<close>

fun reaper_watch :: "kill_kernel \<Rightarrow> pid \<Rightarrow> nat io_result list \<Rightarrow> (unit, process_error) result option" where
  "reaper_watch kill self [] = None"
| "reaper_watch kill self (Err e # reads) =
     (if kind e = Interrupted then reaper_watch kill self reads else Some (forward_signal kill self SIGTERM))"
| "reaper_watch kill self (Ok n # reads) = Some (forward_signal kill self SIGTERM)"

definition ChildSetup_reaper ::
  "unit io_result \<Rightarrow> kill_kernel \<Rightarrow> pid \<Rightarrow> nat io_result list \<Rightarrow> unit io_result \<times> (unit, process_error) result option" where
  "ChildSetup_reaper spawned kill self reads =
     (case spawned of Err e \<Rightarrow> (Err e, None) | Ok u \<Rightarrow> (Ok (), reaper_watch kill self reads))"

section \<open>The side of the supervisor\<close>

datatype start_error =
    ReceiveMetadata io_error
  | ProbeAccess io_error
  | GetListener io_error
  | GetProbe io_error
  | ProbeQuery io_error
  | ProbeMismatch
  | ProbeAddfd io_error
  | ReadMemory io_error
  | WriteMemory io_error
  | MemoryMismatch
  | ProbeDiagnostics io_error
  | StartReceiver io_error
  | StartBroker io_error
  | ConfirmStart io_error

record 'p start_env =
  st_read :: "bytes io_result"
  st_proc :: "('p, int) proc_kernel"
  st_self :: u32
  st_pair :: "int io_result"
  st_self_address :: u64
  st_self_memory :: target
  st_sock :: "int \<Rightarrow> sock_kernel"
  st_listener :: kernel
  st_target :: target
  st_diag :: diag_kernel
  st_dump :: "bytes io_result list"
  st_receiver :: receiver_kernel
  st_finished :: "bool list"
  st_dns :: "sock_addr_v4 io_result"
  st_files :: "resolver_files io_result"
  st_ingress :: "sock_addr_v4 io_result"
  st_write :: "unit io_result"

record service =
  sv_task :: bool
  sv_shutdown :: shutdown
  sv_receiver :: bool

definition memory_probe :: "u32 \<Rightarrow> u64 \<Rightarrow> target \<Rightarrow> (target, start_error) result" where
  "memory_probe tid address t =
     (case read_exact_at tid address 1 t of
        (Err e, t1) \<Rightarrow> Err (ReadMemory e)
      | (Ok memory, t1) \<Rightarrow>
          (case write_exact_at tid address memory t1 of
             (Err e, t2) \<Rightarrow> Err (WriteMemory e)
           | (Ok u, t2) \<Rightarrow> if memory \<noteq> [0x6e] then Err MemoryMismatch else Ok t2))"

text \<open>The probes before anything is started: the thread, the listener and the access method.\<close>

definition start_probes :: "'p start_env \<Rightarrow> (u32 \<times> int \<times> socket_access \<times> target, start_error) result" where
  "start_probes env =
     and_then (map_err ReceiveMetadata (st_read env)) (\<lambda>bs.
     let tid = (from_ne_bytes (take 4 bs) :: u32);
         listener_fd = sint (from_ne_bytes (take 4 (drop 4 bs)) :: u32);
         probe_fd = sint (from_ne_bytes (take 4 (drop 8 bs)) :: u32);
         address = (from_ne_bytes (drop 12 bs) :: u64)
     in and_then (map_err ProbeAccess
          (fst (SocketAccess_probe (st_proc env) (st_self env) (st_pair env) (st_self_address env) (st_self_memory env)))) (\<lambda>access.
        and_then (map_err GetListener (SocketAccess_get (st_proc env) access tid listener_fd)) (\<lambda>listener.
        and_then (map_err GetProbe (SocketAccess_get (st_proc env) access tid probe_fd)) (\<lambda>probe.
        and_then (map_err ProbeQuery (is_tcp_v4 (st_sock env probe))) (\<lambda>tcp.
        if \<not> tcp then Err ProbeMismatch
        else and_then (map_err ProbeAddfd (probe_addfd (st_listener env) (of_int probe))) (\<lambda>_.
        and_then (memory_probe tid address (st_target env)) (\<lambda>t.
        Ok (tid, listener, access, t))))))))"

text \<open>
  Starting: the result, what was written to the control channel and the calls that set up the
  receiver. A receiver that was started is dropped again when the broker cannot be built.
  \<open>None\<close> is a start that waits for the kernel.
\<close>

definition Service_start ::
  "'p start_env \<Rightarrow> config \<Rightarrow> ((service \<times> broker, start_error) result \<times> bytes \<times> receiver_call list) option" where
  "Service_start env config =
     (case start_probes env of
        Err e \<Rightarrow> Some (Err e, [], [])
      | Ok (tid, listener, access, t) \<Rightarrow>
          (case snapshot (st_diag env) (st_dump env) of
             None \<Rightarrow> None
           | Some (Err e) \<Rightarrow> Some (Err (ProbeDiagnostics e), [], [])
           | Some (Ok sockets) \<Rightarrow>
               (case Receiver_start (st_receiver env) listener [] of
                  (Err e, calls) \<Rightarrow> Some (Err (StartReceiver e), [], calls)
                | (Ok fds, calls) \<Rightarrow>
                    (case Broker_new access config (st_dns env) (st_files env) (st_ingress env) t of
                       Err e \<Rightarrow> Some (Err (StartBroker e), [], calls @ Receiver_drop (st_finished env))
                     | Ok b \<Rightarrow>
                         (case st_write env of
                            Err e \<Rightarrow> Some (Err (ConfirmStart e), [], calls @ Receiver_drop (st_finished env))
                          | Ok u \<Rightarrow> Some (Ok (\<lparr>sv_task = True, sv_shutdown = Running, sv_receiver = True\<rparr>, b), [1], calls))))))"

section \<open>The handle\<close>

text \<open>Waiting for the task of the broker, given what it ends with; \<open>None\<close> waits forever.\<close>

definition Service_wait :: "(unit io_result, unit) result \<Rightarrow> service \<Rightarrow> (unit io_result \<times> service) option" where
  "Service_wait joined s =
     (if \<not> sv_task s then None
      else Some (case joined of Err u \<Rightarrow> Err (Custom OtherKind) | Ok r \<Rightarrow> r, s\<lparr>sv_task := False\<rparr>))"

definition is_running :: "service \<Rightarrow> bool" where
  "is_running s = sv_task s"

definition begin_shutdown :: "bool \<Rightarrow> service \<Rightarrow> service" where
  "begin_shutdown force s =
     (if sv_shutdown s = Abort then s else s\<lparr>sv_shutdown := if force then Abort else Drain\<rparr>)"

definition Service_stop :: "service \<Rightarrow> service" where
  "Service_stop s = (begin_shutdown True s)\<lparr>sv_task := False, sv_receiver := False\<rparr>"

text \<open>Dropping the handle; the flag says whether the task is aborted.\<close>

definition Service_drop :: "service \<Rightarrow> service \<times> bool" where
  "Service_drop s = (s\<lparr>sv_shutdown := Abort\<rparr>, sv_task s)"

section \<open>The handshake\<close>

lemma metadata_bytes:
  "metadata tid listener probe address =
     to_ne_bytes tid @ to_ne_bytes listener @ to_ne_bytes probe @ to_ne_bytes address"
  by (simp add: metadata_def copy_at_def)

lemma metadata_fields:
  "from_ne_bytes (take 4 (metadata tid listener probe address)) = tid"
  "from_ne_bytes (take 4 (drop 4 (metadata tid listener probe address))) = listener"
  "from_ne_bytes (take 4 (drop 8 (metadata tid listener probe address))) = probe"
  "from_ne_bytes (drop 12 (metadata tid listener probe address)) = address"
  by (simp_all add: metadata_bytes)

lemma map_err_Ok_iff: "map_err f r = Ok a \<longleftrightarrow> r = Ok a"
  by (cases r) simp_all

lemma ChildSetup_command_Ok:
  assumes "ChildSetup_command A env = (Ok (), written)"
  shows "\<exists>probe listener. ce_probe env = Ok probe \<and> fst (install A (ce_install env)) = Ok listener
    \<and> written = metadata (ce_tid env) listener probe (ce_address env)
    \<and> ce_read env = Ok [1] \<and> ce_memory env = 0x6e \<and> ce_bootstrap env = Ok ()"
  using assms
  by (auto simp: ChildSetup_command_def and_then_Ok_iff map_err_Ok_iff split: result.splits if_splits)

lemma memory_probe_Ok:
  "memory_probe tid address t = Ok t2 \<Longrightarrow>
     \<exists>t1. read_exact_at tid address 1 t = (Ok [0x6e], t1) \<and> write_exact_at tid address [0x6e] t1 = (Ok (), t2)"
  by (cases "read_exact_at tid address 1 t")
    (auto simp: memory_probe_def split: prod.splits result.splits if_splits)

lemma start_probes_Ok:
  assumes "st_read env = Ok (metadata tid l p address)" and "start_probes env = Ok (tid', listener, access, t)"
  shows "tid' = tid \<and> SocketAccess_get (st_proc env) access tid (sint l) = Ok listener
    \<and> (\<exists>probe t1. SocketAccess_get (st_proc env) access tid (sint p) = Ok probe \<and> is_tcp_v4 (st_sock env probe) = Ok True
         \<and> probe_addfd (st_listener env) (of_int probe) = Ok ()
         \<and> read_exact_at tid address 1 (st_target env) = (Ok [0x6e], t1)
         \<and> write_exact_at tid address [0x6e] t1 = (Ok (), t))"
  using assms(2)
  by (auto simp: start_probes_def assms(1) metadata_fields Let_def and_then_Ok_iff map_err_Ok_iff
      split: if_splits dest: memory_probe_Ok)

lemma Service_start_Ok:
  assumes "Service_start env config = Some (Ok (sv, b), confirmed, calls)"
  shows "\<exists>tid listener access t. start_probes env = Ok (tid, listener, access, t)
    \<and> Broker_new access config (st_dns env) (st_files env) (st_ingress env) t = Ok b
    \<and> sv = \<lparr>sv_task = True, sv_shutdown = Running, sv_receiver = True\<rparr>"
  using assms by (auto simp: Service_start_def split: result.splits option.splits prod.splits)

lemma Service_start_confirms:
  "Service_start env config = Some (r, confirmed, calls) \<Longrightarrow> confirmed \<noteq> [] \<Longrightarrow> is_ok r"
  by (auto simp: Service_start_def split: result.splits option.splits prod.splits)

lemma install_Ok: "fst (install A k) = Ok l \<Longrightarrow> SetModeFilter (seccomp_filter A) \<in> set (snd (install A k))"
  by (auto simp: install_def split: result.splits if_splits bool.splits)


text \<open>A command with one thread, whose setup succeeds.\<close>

definition example_child :: child_env where
  "example_child =
     \<lparr>ce_probe = Ok 4,
      ce_install = \<lparr>ik_sizes = Ok (80, 24, 64), ik_capget = Ok 0, ik_no_new_privs = Ok (), ik_set_filter = Ok 5\<rparr>,
      ce_tid = 7, ce_address = 0x1000, ce_write = Ok (), ce_partial = 0, ce_read = Ok [1], ce_memory = 0x6e, ce_bootstrap = Ok ()\<rparr>"

definition example_probe :: sock_kernel where
  "example_probe = (example_socket IPPROTO_TCP)\<lparr>sk_getsockopt := \<lambda>level name width.
     Ok (to_ne_bytes (if name = SO_DOMAIN then 2 else if name = SO_TYPE then 1 else 6 :: u32), 4)\<rparr>"

definition example_start :: "nat start_env" where
  "example_start =
     \<lparr>st_read = Ok (metadata 7 5 4 0x1000), st_proc = example_proc, st_self = 7, st_pair = Ok 6,
      st_self_address = 0x1000, st_self_memory = \<lparr>tg_mem = page_memory [0], tg_vm = []\<rparr>, st_sock = (\<lambda>fd. example_probe),
      st_listener = (\<lambda>c. Err (Os ENOENT)), st_target = \<lparr>tg_mem = page_memory [0x6e], tg_vm = []\<rparr>,
      st_diag = (\<lambda>c. Ok 72), st_dump = [Ok (nm_bytes example_dump_end)], st_receiver = (\<lambda>c. Ok 9), st_finished = [],
      st_dns = Ok (sock_addr LOCALHOST 5300), st_files = Ok [example_file ''/etc/resolv.conf'' resolv_conf 8],
      st_ingress = Ok (sock_addr LOCALHOST 9000), st_write = Ok ()\<rparr>"

lemma page_write: "fst (write_exact_at 7 0x1000 [x] (snd (read_exact_at 7 0x1000 1 \<lparr>tg_mem = page_memory bs, tg_vm = vs\<rparr>))) = Ok ()"
  using page_reachable [of 1 bs] by (simp add: write_exact_at_spec(1) read_exact_at_spec(2))

lemma example_memory_probe: "\<exists>t. memory_probe 7 0x1000 (st_target example_start) = Ok t"
proof -
  let ?t = "st_target example_start"
  have "fst (read_exact_at 7 0x1000 1 ?t) = Ok [0x6e]" by (rule page_read) (simp_all add: example_start_def)
  moreover have "fst (write_exact_at 7 0x1000 [0x6e] (snd (read_exact_at 7 0x1000 1 ?t))) = Ok ()"
    by (simp only: example_start_def start_env.simps page_write)
  ultimately show ?thesis by (auto simp: memory_probe_def split: prod.splits)
qed

lemma example_access_probe:
  "fst (SocketAccess_probe example_proc 7 (Ok 6) 0x1000 \<lparr>tg_mem = page_memory [0], tg_vm = []\<rparr>) = Ok \<lparr>sa_method = Thread\<rparr>"
proof -
  let ?t = "\<lparr>tg_mem = page_memory [0], tg_vm = []\<rparr>"
  have "fst (read_exact_at 7 0x1000 1 ?t) = Ok [0]" by (rule page_read) simp_all
  with page_write [of 0 "[0]" "[]"] show ?thesis
    by (auto simp: SocketAccess_probe_def example_proc_def choose_method_def pidfd_open_def check_tid_def split: prod.splits)
qed

lemma example_snapshot: "snapshot (\<lambda>c. Ok 72) [Ok (nm_bytes example_dump_end)] = Some (Ok [])"
proof -
  have wf: "nm_wf example_dump_end" by (simp add: nm_wf_def nm_len_def example_dump_end_def)
  have "length (nm_bytes example_dump_end) = 20"
    unfolding length_nm_bytes [OF wf] by (simp add: nm_len_def nlmsg_align_def example_dump_end_def)
  moreover have "diag_messages (nm_bytes example_dump_end) 0 [] = DumpDone []"
    using diag_messages_step [OF wf, of "[]" "[]"] by (simp add: example_dump_end_def)
  ultimately show ?thesis by (simp add: snapshot_def diagnostic_socket_def)
qed

lemma example_started: "\<exists>sv b calls. Service_start example_start example_config = Some (Ok (sv, b), [1], calls)"
proof -
  obtain t where t: "memory_probe 7 0x1000 (st_target example_start) = Ok t" using example_memory_probe ..
  have get: "SocketAccess_get example_proc \<lparr>sa_method = Thread\<rparr> 7 fd = Ok (fd + 10)" if "0 \<le> fd" for fd
    using that by (simp add: SocketAccess_get_def check_tid_def pidfd_open_def example_proc_def)
  have fds: "sint (5 :: u32) = 5" "sint (4 :: u32) = 4" by code_simp+
  have tcp: "is_tcp_v4 example_probe = Ok True"
    by (simp add: is_tcp_v4_def option_int_def sockets_option_def example_probe_def)
  have "start_probes example_start = Ok (7, 15, \<lparr>sa_method = Thread\<rparr>, t)"
    using t by (simp add: start_probes_def example_start_def metadata_fields example_access_probe get fds tcp
        probe_addfd_def addfd_send_def)
  moreover have "\<exists>fds calls. Receiver_start (\<lambda>c. Ok 9) 15 [] = (Ok fds, calls)"
    by (simp add: Receiver_start_def seq_do_def setup_call_def restoring_def poller_def yield_def)
  moreover have "\<exists>b. Broker_new \<lparr>sa_method = Thread\<rparr> example_config (Ok (sock_addr LOCALHOST 5300))
     (Ok [example_file ''/etc/resolv.conf'' resolv_conf 8]) (Ok (sock_addr LOCALHOST 9000)) t = Ok b"
    by (simp add: Broker_new_def Dns_new_def server_for_def is_dns_def virtual_address_def Ingress_new_def)
  ultimately show ?thesis
    by (auto simp: Service_start_def example_start_def example_snapshot)
qed


section \<open>Shutting down\<close>

text \<open>
  The states of a shutdown are ordered by urgency. \<open>begin_shutdown\<close> raises the state to the one it
  is asked for, so no sequence of requests ever takes an abort back or resumes a broker.
\<close>

fun urgency :: "shutdown \<Rightarrow> nat" where
  "urgency Running = 0"
| "urgency Drain = 1"
| "urgency Abort = 2"

instantiation shutdown :: linorder
begin

definition less_eq_shutdown :: "shutdown \<Rightarrow> shutdown \<Rightarrow> bool" where
  "less_eq_shutdown x y \<longleftrightarrow> urgency x \<le> urgency y"

definition less_shutdown :: "shutdown \<Rightarrow> shutdown \<Rightarrow> bool" where
  "less_shutdown x y \<longleftrightarrow> urgency x < urgency y"

instance
proof
  have inj: "urgency x = urgency y \<Longrightarrow> x = y" for x y by (cases x; cases y) simp_all
  fix x y z :: shutdown
  show "x < y \<longleftrightarrow> x \<le> y \<and> \<not> y \<le> x" by (auto simp: less_eq_shutdown_def less_shutdown_def)
  show "x \<le> x" and "x \<le> y \<or> y \<le> x" by (auto simp: less_eq_shutdown_def)
  show "x \<le> y \<Longrightarrow> y \<le> z \<Longrightarrow> x \<le> z" by (simp add: less_eq_shutdown_def)
  show "x \<le> y \<Longrightarrow> y \<le> x \<Longrightarrow> x = y" by (auto simp: less_eq_shutdown_def intro: inj)
qed

end

lemma begin_shutdown_max:
  "begin_shutdown force s = s\<lparr>sv_shutdown := max (sv_shutdown s) (if force then Abort else Drain)\<rparr>"
  by (cases "sv_shutdown s") (auto simp: begin_shutdown_def max_def less_eq_shutdown_def)

interpretation shutting: event_machine begin_shutdown "\<lambda>s. wanted \<le> sv_shutdown s" for wanted
  by unfold_locales (auto simp: begin_shutdown_max le_max_iff_disj)

lemma shutdown_never_reverts: "sv_shutdown s \<le> sv_shutdown (fold begin_shutdown requests s)"
  by (rule shutting.run_inv) simp

end
