(* ===== verification/Supervisor.thy ===== *)
theory Supervisor
  imports Service
begin

text \<open>
  \<open>src/main.rs\<close>: from the command line to the exit code. The configuration is built before the
  process forks; the child becomes the reaper of the command, the parent supervises it and the
  broker. The parser of the command line is the one of a library, so its result is an argument; so
  are the order in which the supervisor sees events and the answers of the kernel.
\<close>

section \<open>Waiting for the reaper\<close>

fun wait_child :: "wait_answer list \<Rightarrow> (int, int) result option" where
  "wait_child [] = None"
| "wait_child (Ok (WExited p code) # ws) = Some (Ok code)"
| "wait_child (Ok (WSignaled p signal) # ws) = Some (Ok (128 + signal))"
| "wait_child (Ok WStillAlive # ws) = wait_child ws"
| "wait_child (Ok WOther # ws) = wait_child ws"
| "wait_child (Err e # ws) = (if e = EINTR then wait_child ws else Some (Err e))"

section \<open>Supervision\<close>

datatype supervise_error =
    RuntimeError io_error
  | SignalError io_error
  | StartError start_error
  | WaitChildError int
  | WaitTaskPanicked
  | ForwardError process_error

text \<open>The branches of the two selections: the reaper has ended, a signal, the task of the broker has ended.\<close>

datatype main_event =
    ChildEnded "((int, int) result, unit) result"
  | Signalled int
  | BrokerEnded "(unit io_result, unit) result"

datatype wait_end =
    ReaperEnded int bool bool service "main_event list"
  | SuperviseFailed supervise_error service
  | SuperviseWaits service

fun supervise_wait ::
  "kill_kernel \<Rightarrow> pid \<Rightarrow> main_event list \<Rightarrow> bool \<Rightarrow> bool \<Rightarrow> service \<Rightarrow> wait_end \<times> int list" where
  "supervise_wait kill child [] failed terminating sv = (SuperviseWaits sv, [])"
| "supervise_wait kill child (ChildEnded joined # es) failed terminating sv =
     (case joined of
        Err u \<Rightarrow> SuperviseFailed WaitTaskPanicked sv
      | Ok (Err e) \<Rightarrow> SuperviseFailed (WaitChildError e) sv
      | Ok (Ok status) \<Rightarrow> ReaperEnded status failed terminating sv es, [])"
| "supervise_wait kill child (Signalled signal # es) failed terminating sv =
     (case forward_signal kill child signal of
        Err e \<Rightarrow> (SuperviseFailed (ForwardError e) sv, [signal])
      | Ok u \<Rightarrow> (case supervise_wait kill child es failed True sv of (r, sent) \<Rightarrow> (r, signal # sent)))"
| "supervise_wait kill child (BrokerEnded joined # es) failed terminating sv =
     (case Service_wait joined sv of
        None \<Rightarrow> supervise_wait kill child es failed terminating sv
      | Some (Ok u, sv') \<Rightarrow> supervise_wait kill child es failed terminating sv'
      | Some (Err e, sv') \<Rightarrow>
          (case forward_signal kill child SIGTERM of
             Err e \<Rightarrow> (SuperviseFailed (ForwardError e) sv', [SIGTERM])
           | Ok u \<Rightarrow> (case supervise_wait kill child es True True sv' of (r, sent) \<Rightarrow> (r, SIGTERM # sent))))"

text \<open>Draining: no signal is forwarded any more. \<open>None\<close> is a supervisor that still waits.\<close>

fun supervise_drain ::
  "main_event list \<Rightarrow> bool \<Rightarrow> int option \<Rightarrow> service \<Rightarrow> (bool \<times> int option \<times> service) option" where
  "supervise_drain es failed interrupted sv =
     (if \<not> is_running sv then Some (failed, interrupted, sv)
      else case es of
        [] \<Rightarrow> None
      | ChildEnded joined # es' \<Rightarrow> supervise_drain es' failed interrupted sv
      | BrokerEnded joined # es' \<Rightarrow>
          (case Service_wait joined sv of
             None \<Rightarrow> supervise_drain es' failed interrupted sv
           | Some (r, sv') \<Rightarrow> supervise_drain es' (failed \<or> \<not> is_ok r) interrupted sv')
      | Signalled signal # es' \<Rightarrow>
          supervise_drain es' failed
            (case interrupted of None \<Rightarrow> Some (128 + signal) | Some code \<Rightarrow> Some code) (begin_shutdown True sv))"

declare supervise_drain.simps [simp del]

record supervised =
  sd_result :: "(int, supervise_error) result option"
  sd_sent :: "int list"
  sd_drain :: "shutdown option"
  sd_service :: service

definition supervise_tree :: "kill_kernel \<Rightarrow> pid \<Rightarrow> main_event list \<Rightarrow> service \<Rightarrow> supervised" where
  "supervise_tree kill child es sv =
     (case supervise_wait kill child es False False sv of
        (SuperviseWaits sv1, sent) \<Rightarrow> \<lparr>sd_result = None, sd_sent = sent, sd_drain = None, sd_service = sv1\<rparr>
      | (SuperviseFailed e sv1, sent) \<Rightarrow>
          \<lparr>sd_result = Some (Err e), sd_sent = sent, sd_drain = None, sd_service = fst (Service_drop sv1)\<rparr>
      | (ReaperEnded status failed terminating sv1 rest, sent) \<Rightarrow>
          (let sv2 = begin_shutdown (terminating \<or> failed) sv1
           in case supervise_drain rest failed None sv2 of
                None \<Rightarrow> \<lparr>sd_result = None, sd_sent = sent, sd_drain = Some (sv_shutdown sv2), sd_service = sv2\<rparr>
              | Some (failed', interrupted, sv3) \<Rightarrow>
                  \<lparr>sd_result = Some (Ok (if failed' then 1 else case interrupted of Some code \<Rightarrow> code | None \<Rightarrow> status)),
                   sd_sent = sent, sd_drain = Some (sv_shutdown sv2), sd_service = Service_stop sv3\<rparr>))"

record 'p supervise_env =
  su_runtime :: "unit io_result"
  su_signals :: "unit io_result"
  su_start :: "'p start_env"
  su_kill :: kill_kernel
  su_events :: "main_event list"

text \<open>The three signal handlers are registered together; the first error ends the setup.\<close>

definition supervise ::
  "'p supervise_env \<Rightarrow> pid \<Rightarrow> config \<Rightarrow> (int, supervise_error) result option \<times> int list" where
  "supervise env child config =
     (case and_then (map_err RuntimeError (su_runtime env)) (\<lambda>_. map_err SignalError (su_signals env)) of
        Err e \<Rightarrow> (Some (Err e), [])
      | Ok u \<Rightarrow>
          (case Service_start (su_start env) config of
             None \<Rightarrow> (None, [])
           | Some (Err e, confirmed, calls) \<Rightarrow> (Some (Err (StartError e)), [])
           | Some (Ok (sv, b), confirmed, calls) \<Rightarrow>
               (let s = supervise_tree (su_kill env) child (su_events env) sv in (sd_result s, sd_sent s))))"

section \<open>The program\<close>

record cli =
  cl_proxy :: string
  cl_rules :: "string list"
  cl_command :: "string list"

datatype run_error =
    ParseProxy proxy_error
  | ParseRule rule_error
  | PairError io_error
  | ForkReaper io_error
  | ReaperError process_error
  | SuperviseError supervise_error

definition cli_config :: "regex_api \<Rightarrow> cli \<Rightarrow> (config, run_error) result" where
  "cli_config re c =
     and_then (map_err ParseProxy (ProxyConfig_parse (cl_proxy c))) (\<lambda>route.
     and_then (map_err ParseRule (from_specs re (cl_rules c))) (\<lambda>rules.
     Ok \<lparr>cfg_default_proxy = route, cfg_command = cl_command c, cfg_rules = rules\<rparr>))"

record 'p main_env =
  me_pairs :: "unit io_result"
  me_fork :: "fork_result io_result"
  me_reaper :: run_env
  me_supervise :: "'p supervise_env"
  me_waits :: "wait_answer list"

datatype main_end =
    RunReturns "(int, run_error) result"
  | RunExits int
  | RunBecomes "string list"
  | RunWaits

text \<open>
  \<open>run\<close>: the second component lists the signals sent to the reaper. After an error the supervisor
  terminates the reaper and waits for it before it reports the error.
\<close>

definition main_run :: "regex_api \<Rightarrow> 'p main_env \<Rightarrow> cli \<Rightarrow> main_end \<times> int list" where
  "main_run re env c =
     (case and_then (cli_config re c) (\<lambda>config.
           and_then (map_err PairError (me_pairs env)) (\<lambda>_.
           and_then (map_err ForkReaper (me_fork env)) (\<lambda>forked. Ok (config, forked)))) of
        Err e \<Rightarrow> (RunReturns (Err e), [])
      | Ok (config, ForkChild) \<Rightarrow>
          (case run_command_tree (me_reaper env) (cfg_command config) of
             Returns r \<Rightarrow> RunReturns (map_err ReaperError r)
           | Exits code \<Rightarrow> RunExits code
           | Becomes command \<Rightarrow> RunBecomes command
           | StillRunning \<Rightarrow> RunWaits, [])
      | Ok (config, ForkParent child) \<Rightarrow>
          (case supervise (me_supervise env) child config of
             (None, sent) \<Rightarrow> (RunWaits, sent)
           | (Some (Ok code), sent) \<Rightarrow> (RunReturns (Ok code), sent)
           | (Some (Err e), sent) \<Rightarrow>
               (case wait_child (me_waits env) of
                  None \<Rightarrow> RunWaits
                | Some r \<Rightarrow> RunReturns (Err (SuperviseError e)), sent @ [SIGTERM])))"

text \<open>\<open>main\<close>: the exit code of the process, \<open>None\<close> while it runs or when it has become the command.\<close>

definition scproxy_main :: "regex_api \<Rightarrow> 'p main_env \<Rightarrow> cli \<Rightarrow> int option" where
  "scproxy_main re env c =
     (case fst (main_run re env c) of
        RunReturns (Ok code) \<Rightarrow> Some code
      | RunReturns (Err e) \<Rightarrow> Some 1
      | RunExits code \<Rightarrow> Some code
      | RunBecomes command \<Rightarrow> None
      | RunWaits \<Rightarrow> None)"

section \<open>What the supervisor reports\<close>

definition broker_failure :: "(unit io_result, unit) result \<Rightarrow> bool" where
  "broker_failure joined = (case joined of Ok r \<Rightarrow> \<not> is_ok r | Err u \<Rightarrow> True)"

fun broker_end :: "main_event list \<Rightarrow> (unit io_result, unit) result option" where
  "broker_end [] = None"
| "broker_end (BrokerEnded joined # es) = Some joined"
| "broker_end (Signalled signal # es) = broker_end es"
| "broker_end (ChildEnded joined # es) = broker_end es"

text \<open>The signals due to the reaper while it runs, and the first signal after it while the broker drains.\<close>

fun signals_due :: "bool \<Rightarrow> main_event list \<Rightarrow> int list" where
  "signals_due running [] = []"
| "signals_due running (Signalled signal # es) = signal # signals_due running es"
| "signals_due running (BrokerEnded joined # es) =
     (if running \<and> broker_failure joined then [SIGTERM] else []) @ signals_due False es"
| "signals_due running (ChildEnded joined # es) = signals_due running es"

fun first_signal :: "main_event list \<Rightarrow> int option" where
  "first_signal [] = None"
| "first_signal (BrokerEnded joined # es) = None"
| "first_signal (Signalled signal # es) = Some signal"
| "first_signal (ChildEnded joined # es) = first_signal es"

definition is_child_end :: "main_event \<Rightarrow> bool" where
  "is_child_end e = (case e of ChildEnded joined \<Rightarrow> True | _ \<Rightarrow> False)"

definition failed_by :: "main_event list \<Rightarrow> bool" where
  "failed_by es = (case broker_end es of Some joined \<Rightarrow> broker_failure joined | None \<Rightarrow> False)"

lemma Service_wait_simps [simp]:
  "\<not> sv_task sv \<Longrightarrow> Service_wait joined sv = None"
  "sv_task sv \<Longrightarrow> \<exists>r. Service_wait joined sv = Some (r, sv\<lparr>sv_task := False\<rparr>) \<and> is_ok r = (\<not> broker_failure joined)"
  by (auto simp: Service_wait_def broker_failure_def split: result.split)

lemma supervise_wait_exact:
  assumes "\<And>signal. forward_signal kill child signal = Ok ()" and "list_all (Not \<circ> is_child_end) pre"
  shows "supervise_wait kill child (pre @ ChildEnded (Ok (Ok status)) # post) failed terminating sv =
    (ReaperEnded status (failed \<or> sv_task sv \<and> failed_by pre) (terminating \<or> signals_due (sv_task sv) pre \<noteq> [])
       (sv\<lparr>sv_task := sv_task sv \<and> broker_end pre = None\<rparr>) post, signals_due (sv_task sv) pre)"
  using assms(2)
proof (induction pre arbitrary: failed terminating sv)
  case Nil
  then show ?case by (simp add: failed_by_def)
next
  case (Cons e pre)
  show ?case
  proof (cases e)
    case (BrokerEnded joined)
    show ?thesis
    proof (cases "sv_task sv")
      case False
      with Cons BrokerEnded show ?thesis by (simp add: failed_by_def)
    next
      case True
      then obtain r where "Service_wait joined sv = Some (r, sv\<lparr>sv_task := False\<rparr>)" "is_ok r = (\<not> broker_failure joined)"
        using Service_wait_simps(2) by blast
      with Cons BrokerEnded True show ?thesis
        by (cases r) (simp_all add: failed_by_def assms(1))
    qed
  qed (use Cons assms(1) in \<open>simp_all add: failed_by_def is_child_end_def\<close>)
qed

lemma supervise_drain_exact:
  "sv_task sv \<Longrightarrow> broker_end post = Some joined \<Longrightarrow>
     \<exists>sv'. supervise_drain post failed interrupted sv =
       Some (failed \<or> broker_failure joined,
         case interrupted of None \<Rightarrow> map_option (\<lambda>s. 128 + s) (first_signal post) | Some code \<Rightarrow> Some code, sv')"
proof (induction post arbitrary: failed interrupted sv)
  case (Cons e post)
  show ?case
  proof (cases e)
    case (BrokerEnded j)
    obtain r where "Service_wait joined sv = Some (r, sv\<lparr>sv_task := False\<rparr>)" "is_ok r = (\<not> broker_failure joined)"
      using Service_wait_simps(2) Cons.prems(1) by blast
    with Cons.prems BrokerEnded show ?thesis
      by (simp add: supervise_drain.simps [of "x # post" for x] supervise_drain.simps [of post] is_running_def split: option.split)
  next
    case (Signalled signal)
    have "sv_task (begin_shutdown True sv)" using Cons.prems(1) by (simp add: begin_shutdown_def)
    with Cons.IH [of "begin_shutdown True sv" failed "Some c" for c] Cons.prems Signalled show ?thesis
      by (cases interrupted) (simp_all add: supervise_drain.simps [of "x # post" for x] is_running_def)
  next
    case (ChildEnded j)
    with Cons.IH [of sv failed interrupted] Cons.prems show ?thesis
      by (cases interrupted) (simp_all add: supervise_drain.simps [of "x # post" for x] is_running_def)
  qed
qed simp

text \<open>
  C15. The supervisor reports the truth and cleans up. Once the reaper has ended with a status and
  the broker has ended, before or after it, the supervisor returns. Its code is 1 if the broker
  failed; otherwise \<open>128\<close> plus the first signal that cut the draining short; otherwise the status
  of the reaper. The signals it sent are exactly those received while the reaper was running, and
  one \<open>SIGTERM\<close> when the broker failed in that time: none is sent after the reaper was collected,
  when its identifier may belong to another process. The broker drains exactly if nothing had to be
  forwarded, and in the end it is stopped and its receiver gone.
\<close>

theorem supervisor_reports:
  assumes "\<And>signal. forward_signal kill child signal = Ok ()"
    and "list_all (Not \<circ> is_child_end) pre" and "sv_task sv" and "sv_shutdown sv = Running"
    and "broker_end (pre @ post) = Some joined"
    and "s = supervise_tree kill child (pre @ ChildEnded (Ok (Ok status)) # post) sv"
  shows "sd_result s = Some (Ok
       (if broker_failure joined then 1
        else case (if broker_end pre = None then first_signal post else None) of Some n \<Rightarrow> 128 + n | None \<Rightarrow> status))
    \<and> sd_sent s = signals_due True pre
    \<and> sd_drain s = Some (if signals_due True pre = [] then Drain else Abort)
    \<and> \<not> is_running (sd_service s) \<and> \<not> sv_receiver (sd_service s) \<and> sv_shutdown (sd_service s) = Abort"
proof -
  let ?due = "signals_due True pre"
  have failed_due: "failed_by es \<Longrightarrow> signals_due True es \<noteq> []" for es
    by (induction es rule: broker_end.induct) (auto simp: failed_by_def)
  have stopped: "\<not> is_running (Service_stop x) \<and> \<not> sv_receiver (Service_stop x) \<and> sv_shutdown (Service_stop x) = Abort"
    for x by (simp add: Service_stop_def is_running_def begin_shutdown_def)
  have wait: "supervise_wait kill child (pre @ ChildEnded (Ok (Ok status)) # post) False False sv =
      (ReaperEnded status (failed_by pre) (?due \<noteq> []) (sv\<lparr>sv_task := broker_end pre = None\<rparr>) post, ?due)"
    using supervise_wait_exact [OF assms(1,2), of status post False False sv] assms(3) by simp
  have sum: "(?due \<noteq> [] \<or> failed_by pre) = (?due \<noteq> [])" using failed_due by blast
  define sv2 where "sv2 = begin_shutdown (?due \<noteq> []) (sv\<lparr>sv_task := broker_end pre = None\<rparr>)"
  have sv2: "sv_task sv2 = (broker_end pre = None)" "sv_shutdown sv2 = (if ?due = [] then Drain else Abort)"
    using assms(4) by (simp_all add: sv2_def begin_shutdown_def)
  have append: "broker_end (xs @ ys) = (case broker_end xs of None \<Rightarrow> broker_end ys | Some j \<Rightarrow> Some j)" for xs ys
    by (induction xs rule: broker_end.induct) simp_all
  have "\<exists>sv'. supervise_drain post (failed_by pre) None sv2 = Some (broker_failure joined,
      map_option (\<lambda>n. 128 + n) (if broker_end pre = None then first_signal post else None), sv')"
  proof (cases "broker_end pre")
    case None
    with assms(5) have "broker_end post = Some joined" by (simp add: append)
    with supervise_drain_exact [of sv2 post joined "failed_by pre" None] None sv2(1) show ?thesis
      by (simp add: failed_by_def)
  next
    case (Some j)
    with assms(5) have "j = joined" by (simp add: append)
    with Some sv2(1) show ?thesis by (simp add: supervise_drain.simps is_running_def failed_by_def)
  qed
  then obtain sv' where drain: "supervise_drain post (failed_by pre) None sv2 = Some (broker_failure joined,
      map_option (\<lambda>n. 128 + n) (if broker_end pre = None then first_signal post else None), sv')" ..
  have "s = \<lparr>sd_result = Some (Ok (if broker_failure joined then 1
        else case map_option (\<lambda>n. 128 + n) (if broker_end pre = None then first_signal post else None) of
          Some code \<Rightarrow> code | None \<Rightarrow> status)),
      sd_sent = ?due, sd_drain = Some (sv_shutdown sv2), sd_service = Service_stop sv'\<rparr>"
    unfolding assms(6) supervise_tree_def wait prod.case wait_end.case sum sv2_def [symmetric] Let_def drain option.case ..
  with stopped [of sv'] sv2(2) show ?thesis
    by (cases "if broker_end pre = None then first_signal post else None") simp_all
qed

theorem supervisor_reports_witness:
  "sd_result (supervise_tree (\<lambda>p s. Ok ()) 9
     [Signalled SIGINT, ChildEnded (Ok (Ok 130)), BrokerEnded (Ok (Ok ()))]
     \<lparr>sv_task = True, sv_shutdown = Running, sv_receiver = True\<rparr>) = Some (Ok 130)"
  using supervisor_reports [of "\<lambda>p s. Ok ()" 9 "[Signalled SIGINT]"
      "\<lparr>sv_task = True, sv_shutdown = Running, sv_receiver = True\<rparr>" "[BrokerEnded (Ok (Ok ()))]" "Ok (Ok ())" _ 130, OF _ _ _ _ _ refl]
  by (simp add: forward_signal_def is_child_end_def broker_failure_def)

end
