(* ===== verification/Tcp_Bind.thy ===== *)
theory Tcp_Bind
  imports Sockets
begin

text \<open>
  \<open>src/broker/tcp_bind.rs\<close>: reserving the source port of an application's socket. The socket
  is a state of the kernel; the calls on it are the fields of a record of functions.
\<close>

record 's bind_kernel =
  bk_address :: "'s \<Rightarrow> sock_addr_v4 io_result"
  bk_delayed :: "'s \<Rightarrow> int io_result"
  bk_defer :: "int \<Rightarrow> 's \<Rightarrow> unit io_result \<times> 's"
  bk_bind :: "sock_addr_v4 \<Rightarrow> 's \<Rightarrow> unit io_result \<times> 's"

definition prepare_restore :: "'s bind_kernel \<Rightarrow> sock_addr_v4 \<Rightarrow> int \<Rightarrow> io_error \<Rightarrow> 's \<Rightarrow> u16 io_result \<times> 's" where
  "prepare_restore k source delayed failure s =
     (let (restored, s1) = seq_do (bk_defer k 1) (\<lambda>_. bk_bind k source) s;
          (option_restored, s2) = bk_defer k delayed s1
      in (and_then restored (\<lambda>_. and_then option_restored (\<lambda>_. Err failure)), s2))"

definition prepare :: "'s bind_kernel \<Rightarrow> 's \<Rightarrow> u16 io_result \<times> 's" where
  "prepare k s =
     (case bk_address k s of
        Err e \<Rightarrow> (Err e, s)
      | Ok source \<Rightarrow>
          if sa_port source \<noteq> 0 then (Ok (sa_port source), s)
          else case bk_delayed k s of
            Err e \<Rightarrow> (Err e, s)
          | Ok delayed \<Rightarrow>
              seq_do (if delayed \<noteq> 0 then bk_defer k 0 else yield ()) (\<lambda>_ s1.
                case bk_bind k source s1 of
                  (Err e, s2) \<Rightarrow> prepare_restore k source delayed e s2
                | (Ok _, s2) \<Rightarrow>
                    seq_do (if delayed \<noteq> 0 then bk_defer k delayed else yield ()) (\<lambda>_ s3.
                      (and_then (bk_address k s3) (\<lambda>a.
                         if sa_port a = 0 then Err (Os EADDRNOTAVAIL) else Ok (sa_port a)), s3)) s2) s)"

text \<open>
  The documented behaviour of the kernel. \<open>IP_BIND_ADDRESS_NO_PORT\<close> is a flag that keeps the
  value it is set to and does not touch the binding. A successful bind gives the requested
  address, with a port unless the flag is set and none is requested; a failed one may clear the
  address but leaves the flag. Setting the flag and binding without claiming a port succeed.
\<close>

definition binding_documented :: "'s bind_kernel \<Rightarrow> bool" where
  "binding_documented k \<longleftrightarrow>
     (\<forall>s. bk_delayed k s = Ok 0 \<or> bk_delayed k s = Ok 1)
     \<and> (\<forall>v s. v = 0 \<or> v = 1 \<longrightarrow> fst (bk_defer k v s) = Ok ()
          \<and> bk_delayed k (snd (bk_defer k v s)) = Ok v
          \<and> bk_address k (snd (bk_defer k v s)) = bk_address k s)
     \<and> (\<forall>a s. bk_delayed k (snd (bk_bind k a s)) = bk_delayed k s)
     \<and> (\<forall>a s. fst (bk_bind k a s) = Ok () \<longrightarrow>
          (\<exists>p. bk_address k (snd (bk_bind k a s)) = Ok (sock_addr (sa_ip a) p)
             \<and> (bk_delayed k s = Ok 0 \<longrightarrow> p \<noteq> 0)))
     \<and> (\<forall>a s. bk_delayed k s = Ok 1 \<longrightarrow> sa_port a = 0 \<longrightarrow>
          fst (bk_bind k a s) = Ok () \<and> bk_address k (snd (bk_bind k a s)) = Ok a)"

lemma defer_documented:
  assumes "binding_documented k" "v = 0 \<or> v = 1"
  obtains s' where "bk_defer k v s = (Ok (), s')" "bk_delayed k s' = Ok v" "bk_address k s' = bk_address k s"
  using assms unfolding binding_documented_def by (metis prod.collapse)

lemma bind_documented:
  assumes "binding_documented k"
  shows "bk_delayed k (snd (bk_bind k a s)) = bk_delayed k s"
    and "fst (bk_bind k a s) = Ok () \<Longrightarrow> 
      \<exists>p. bk_address k (snd (bk_bind k a s)) = Ok (sock_addr (sa_ip a) p) \<and> (bk_delayed k s = Ok 0 \<longrightarrow> p \<noteq> 0)"
    and "bk_delayed k s = Ok 1 \<Longrightarrow> sa_port a = 0 \<Longrightarrow>
      fst (bk_bind k a s) = Ok () \<and> bk_address k (snd (bk_bind k a s)) = Ok a"
  using assms unfolding binding_documented_def by blast+

lemma flag_documented: "binding_documented k \<Longrightarrow> bk_delayed k s = Ok v \<Longrightarrow> v = 0 \<or> v = 1"
  unfolding binding_documented_def by (metis result.inject(1))

lemma restore_documented:
  assumes k: "binding_documented k" and v: "delayed = 0 \<or> delayed = 1" and "sa_port source = 0"
  obtains s' where "prepare_restore k source delayed e s = (Err e, s')"
    "bk_address k s' = Ok source" "bk_delayed k s' = Ok delayed"
proof -
  obtain s1 where 1: "bk_defer k 1 s = (Ok (), s1)" "bk_delayed k s1 = Ok 1"
    using defer_documented [OF k, of 1 s] by auto
  obtain s2 where 2: "bk_bind k source s1 = (Ok (), s2)" "bk_address k s2 = Ok source"
    using bind_documented(3) [OF k 1(2) assms(3)] by (metis prod.collapse)
  obtain s3 where 3: "bk_defer k delayed s2 = (Ok (), s3)" "bk_delayed k s3 = Ok delayed"
      "bk_address k s3 = bk_address k s2"
    using defer_documented [OF k v, of s2] by metis
  from 1 2 3 show ?thesis by (intro that [of s3]) (simp_all add: prepare_restore_def)
qed

text \<open>The flag after it was cleared for the reservation and set again.\<close>

lemma clear_flag:
  assumes k: "binding_documented k" and d: "bk_delayed k s = Ok delayed"
  obtains s1 where "(if delayed \<noteq> 0 then bk_defer k 0 else yield ()) s = (Ok (), s1)"
    "bk_delayed k s1 = Ok 0" "bk_address k s1 = bk_address k s"
proof (cases "delayed = 0")
  case True
  with d show ?thesis by (intro that [of s]) (simp_all add: yield_def)
next
  case False
  obtain s1 where "bk_defer k 0 s = (Ok (), s1)" "bk_delayed k s1 = Ok 0" "bk_address k s1 = bk_address k s"
    using defer_documented [OF k, of 0 s] by blast
  with False show ?thesis by (intro that [of s1]) simp_all
qed

lemma set_flag:
  assumes k: "binding_documented k" and v: "delayed = 0 \<or> delayed = 1" and d: "bk_delayed k s = Ok 0"
  obtains s1 where "(if delayed \<noteq> 0 then bk_defer k delayed else yield ()) s = (Ok (), s1)"
    "bk_delayed k s1 = Ok delayed" "bk_address k s1 = bk_address k s"
proof (cases "delayed = 0")
  case True
  with d show ?thesis by (intro that [of s]) (simp_all add: yield_def)
next
  case False
  obtain s1 where "bk_defer k delayed s = (Ok (), s1)" "bk_delayed k s1 = Ok delayed"
      "bk_address k s1 = bk_address k s"
    using defer_documented [OF k v, of s] by blast
  with False show ?thesis by (intro that [of s1]) simp_all
qed


text \<open>A kernel without a free port: every reservation fails and clears the address.\<close>

definition exhausted_kernel :: "(sock_addr_v4 \<times> bool) bind_kernel" where
  "exhausted_kernel =
     \<lparr>bk_address = \<lambda>(a, flag). Ok a,
      bk_delayed = \<lambda>(a, flag). Ok (if flag then 1 else 0),
      bk_defer = \<lambda>v (a, flag). (Ok (), (a, v \<noteq> 0)),
      bk_bind = \<lambda>b (a, flag). if flag then (Ok (), (b, flag)) else (Err (Os 98), (sock_addr 0 0, flag))\<rparr>"

lemma sock_addr_eta: "\<exists>p. a = sock_addr (sa_ip a) p"
  by (rule exI [of _ "sa_port a"]) simp


end
